(* ===== verification/Prelude.thy ===== *)
theory Prelude
  imports Main "HOL-Library.Word" "HOL-Library.Monad_Syntax"
begin

text \<open>
  Shared vocabulary of the development: the integer types of \<^verbatim>\<open>kernel/types.h\<close>, the
  table sizes of \<^verbatim>\<open>kernel/param.h\<close>, the theorem collections the component theories
  fill, and generic facts about table scans, option binds and word arithmetic.

  Conventions used by every component theory:
  \<^item> an operation that changes kernel state takes the state last and returns the new one,
    paired with its C result where it has one;
  \<^item> an operation that may fail to return (\<open>panic\<close>, or spinning on a lock whose
    holder never runs) returns an \<open>option\<close>, \<open>None\<close> meaning that control never
    comes back to the caller; sequencing is the \<open>do\<close> notation of the option monad,
    with the state variable rebound at each step;
  \<^item> kernel pointers are \<open>nat\<close> addresses of the direct-mapped physical memory, with
    \<open>0\<close> the null pointer; registers, page-table entries and user virtual addresses
    are \<open>64 word\<close>; pointers into the fixed kernel tables are table indices, with
    \<open>None\<close> the null pointer.
\<close>

section \<open>Integer types and table sizes\<close>

type_synonym u8 = "8 word"
type_synonym u16 = "16 word"
type_synonym u32 = "32 word"
type_synonym u64 = "64 word"
type_synonym memory = "nat \<Rightarrow> u8"

definition NPROC :: nat where "NPROC = 64"
definition NCPU :: nat where "NCPU = 8"
definition NOFILE :: nat where "NOFILE = 16"
definition NFILE :: nat where "NFILE = 100"
definition NINODE :: nat where "NINODE = 50"
definition NDEV :: nat where "NDEV = 10"
definition ROOTDEV :: nat where "ROOTDEV = 1"
definition MAXARG :: nat where "MAXARG = 32"
definition MAXOPBLOCKS :: nat where "MAXOPBLOCKS = 10"
definition LOGBLOCKS :: nat where "LOGBLOCKS = MAXOPBLOCKS * 3"
definition NBUF :: nat where "NBUF = MAXOPBLOCKS * 3"
definition FSSIZE :: nat where "FSSIZE = 2000"
definition MAXPATH :: nat where "MAXPATH = 128"
definition USERSTACK :: nat where "USERSTACK = 1"

lemmas param_defs = NPROC_def NCPU_def NOFILE_def NFILE_def NINODE_def NDEV_def ROOTDEV_def
  MAXARG_def MAXOPBLOCKS_def LOGBLOCKS_def NBUF_def FSSIZE_def MAXPATH_def USERSTACK_def

section \<open>Theorem collections\<close>

named_theorems frame_simps \<open>which state components an operation leaves alone\<close>
named_theorems mem_simps \<open>loads after stores\<close>
named_theorems lock_simps \<open>effect of the lock primitives\<close>

section \<open>Table scans\<close>

text \<open>
  The C loops that scan a table for its first matching entry are \<^const>\<open>List.find\<close>
  over the index range.
\<close>

lemma find_upt_Some_iff:
  "find P [0..<n] = Some i \<longleftrightarrow> i < n \<and> P i \<and> (\<forall>j<i. \<not> P j)"
proof
  assume "find P [0..<n] = Some i"
  then obtain k where "k < n" "P k" "i = k" "\<forall>j<k. \<not> P j"
    by (auto simp: find_Some_iff)
  then show "i < n \<and> P i \<and> (\<forall>j<i. \<not> P j)" by auto
next
  assume "i < n \<and> P i \<and> (\<forall>j<i. \<not> P j)"
  then show "find P [0..<n] = Some i"
    by (auto simp: find_Some_iff intro!: exI[of _ i])
qed

lemma find_upt_None_iff: "find P [0..<n] = None \<longleftrightarrow> (\<forall>i<n. \<not> P i)"
  by (auto simp: find_None_iff)

lemma find_upt_SomeD:
  assumes "find P [0..<n] = Some i"
  shows "i < n" and "P i" and "j < i \<Longrightarrow> \<not> P j"
  using assms by (auto simp: find_upt_Some_iff)

lemma find_upt_ex: "(\<exists>i<n. P i) \<longleftrightarrow> (\<exists>i. find P [0..<n] = Some i)"
  using find_upt_None_iff[of P n] by (cases "find P [0..<n]") (auto simp: find_upt_Some_iff)

section \<open>Folds over index ranges\<close>

lemma fold_upt_invariant:
  assumes "I 0 s" and "\<And>i s. i < n \<Longrightarrow> I i s \<Longrightarrow> I (Suc i) (f i s)"
  shows "I n (fold f [0..<n] s)"
  using assms(2)
proof (induction n)
  case 0
  then show ?case using assms(1) by simp
next
  case (Suc n)
  then have "I n (fold f [0..<n] s)" by auto
  then show ?case using Suc.prems[of n] by simp
qed

section \<open>Words and numbers\<close>

lemma unat_lt_64 [simp]: "unat (x :: u64) < 18446744073709551616"
  using unsigned_less[of x, where 'a = nat] by simp

lemma unat_lt_32 [simp]: "unat (x :: u32) < 4294967296"
  using unsigned_less[of x, where 'a = nat] by simp

lemma unat_of_nat_64: "n < 18446744073709551616 \<Longrightarrow> unat (of_nat n :: u64) = n"
  by (simp add: unat_of_nat)

lemma unat_of_nat_32: "n < 4294967296 \<Longrightarrow> unat (of_nat n :: u32) = n"
  by (simp add: unat_of_nat)

text \<open>
  A C \<^verbatim>\<open>int\<close> read from a 64-bit register keeps the low 32 bits and sign-extends them.
\<close>

definition c_int :: "u64 \<Rightarrow> int" where
  "c_int x = sint (ucast x :: u32)"

text \<open>A C \<^verbatim>\<open>int\<close> returned as \<^verbatim>\<open>uint64\<close> is sign-extended.\<close>

definition to_u64 :: "int \<Rightarrow> u64" where
  "to_u64 i = word_of_int i"

lemma c_int_to_u64: "- 2147483648 \<le> i \<Longrightarrow> i < 2147483648 \<Longrightarrow> c_int (to_u64 i) = i"
  by (simp add: c_int_def to_u64_def unsigned_of_int signed_of_int signed_take_bit_take_bit
      signed_take_bit_int_eq_self)

end
