(* ===== verification/Cmem.thy ===== *)
theory Cmem
  imports Prelude
begin

text \<open>
  Byte-addressed memory and the kernel's string routines, \<^verbatim>\<open>kernel/string.c\<close>.

  \<^verbatim>\<open>memset\<close>, \<^verbatim>\<open>memcmp\<close>, \<^verbatim>\<open>memmove\<close> and \<^verbatim>\<open>memcpy\<close> work on one \<^typ>\<open>memory\<close>, so that
  overlapping operands are expressible. The \<^verbatim>\<open>str*\<close> routines are only ever called on
  distinct objects; they work on byte arrays \<open>nat \<Rightarrow> u8\<close>, the bytes from a pointer on.
  Every loop of the source is a recursion on the remaining count, in the source's order of
  reads and writes. \<open>load64\<close>/\<open>store64\<close> are the little-endian 64-bit accesses the
  hardware and the compiler make for page-table entries, free-list links and trapframes.
\<close>

unbundle bit_operations_syntax

section \<open>64-bit loads and stores\<close>

definition load64 :: "memory \<Rightarrow> nat \<Rightarrow> u64" where
  "load64 m a = fold (\<lambda>i acc. acc OR push_bit (8 * i) (ucast (m (a + i)))) [0..<8] 0"

definition store64 :: "nat \<Rightarrow> u64 \<Rightarrow> memory \<Rightarrow> memory" where
  "store64 a v m =
     (\<lambda>x. if a \<le> x \<and> x < a + 8 then ucast (drop_bit (8 * (x - a)) v) else m x)"

lemma bit_fold_bytes:
  "bit (fold (\<lambda>i acc. acc OR push_bit (8 * i) (ucast (b i) :: u64)) [0..<k] 0) n
     \<longleftrightarrow> n < 64 \<and> n div 8 < k \<and> bit (b (n div 8) :: u8) (n mod 8)"
proof (induction k)
  case 0
  then show ?case by simp
next
  case (Suc k)
  have "bit (push_bit (8 * k) (ucast (b k)) :: u64) n
          \<longleftrightarrow> n < 64 \<and> n div 8 = k \<and> bit (b k) (n mod 8)"
  proof (cases "n < 64 \<and> 8 * k \<le> n \<and> n - 8 * k < 8")
    case True
    then have "n div 8 = k" and "n mod 8 = n - 8 * k"
      by (auto simp: div_nat_eqI modulo_nat_def)
    with True show ?thesis by (auto simp: bit_simps)
  next
    case False
    then have "\<not> (n < 64 \<and> n div 8 = k)" by auto
    moreover have "\<not> bit (push_bit (8 * k) (ucast (b k)) :: u64) n"
      using False bit_imp_le_length[of "b k" "n - 8 * k"] by (auto simp: bit_simps)
    ultimately show ?thesis by blast
  qed
  with Suc.IH show ?case by (auto simp: bit_or_iff less_Suc_eq)
qed

lemma bit_load64: "bit (load64 m a) n \<longleftrightarrow> n < 64 \<and> bit (m (a + n div 8)) (n mod 8)"
  unfolding load64_def using bit_fold_bytes[of "\<lambda>i. m (a + i)" 8 n] by auto

lemma load64_cong: "(\<And>i. i < 8 \<Longrightarrow> m (a + i) = m' (b + i)) \<Longrightarrow> load64 m a = load64 m' b"
  by (rule bit_eqI) (auto simp: bit_load64)

lemma load64_store64_same [mem_simps]: "load64 (store64 a v m) a = v"
proof (rule bit_eqI)
  fix n :: nat
  have "8 * (n div 8) + n mod 8 = n" by simp
  then show "bit (load64 (store64 a v m) a) n \<longleftrightarrow> bit v n"
    using bit_imp_le_length[of v n]
    by (auto simp: bit_load64 store64_def bit_simps)
qed

lemma load64_store64_other [mem_simps]:
  "b + 8 \<le> a \<or> a + 8 \<le> b \<Longrightarrow> load64 (store64 a v m) b = load64 m b"
  by (rule load64_cong) (auto simp: store64_def)

lemma store64_other: "x < a \<or> a + 8 \<le> x \<Longrightarrow> store64 a v m x = m x"
  by (auto simp: store64_def)

lemma load64_zero: "(\<And>i. i < 8 \<Longrightarrow> m (a + i) = 0) \<Longrightarrow> load64 m a = 0"
  by (rule bit_eqI) (auto simp: bit_load64)

section \<open>memset, memcmp, memmove, memcpy\<close>

definition memset :: "nat \<Rightarrow> int \<Rightarrow> nat \<Rightarrow> memory \<Rightarrow> memory" where
  "memset dst c n m = fold (\<lambda>i m. m(dst + i := word_of_int c)) [0..<n] m"

fun memcmp :: "memory \<Rightarrow> nat \<Rightarrow> nat \<Rightarrow> nat \<Rightarrow> int" where
  "memcmp m s1 s2 0 = 0"
| "memcmp m s1 s2 (Suc n) =
     (if m s1 \<noteq> m s2 then uint (m s1) - uint (m s2) else memcmp m (s1 + 1) (s2 + 1) n)"

fun memmove_fwd :: "nat \<Rightarrow> nat \<Rightarrow> nat \<Rightarrow> memory \<Rightarrow> memory" where
  "memmove_fwd d s 0 m = m"
| "memmove_fwd d s (Suc n) m = memmove_fwd (d + 1) (s + 1) n (m(d := m s))"

fun memmove_bwd :: "nat \<Rightarrow> nat \<Rightarrow> nat \<Rightarrow> memory \<Rightarrow> memory" where
  "memmove_bwd d s 0 m = m"
| "memmove_bwd d s (Suc n) m = memmove_bwd d s n (m(d + n := m (s + n)))"

definition memmove :: "nat \<Rightarrow> nat \<Rightarrow> nat \<Rightarrow> memory \<Rightarrow> memory" where
  "memmove dst src n m =
     (if n = 0 then m
      else if src < dst \<and> dst < src + n then memmove_bwd dst src n m
      else memmove_fwd dst src n m)"

definition memcpy :: "nat \<Rightarrow> nat \<Rightarrow> nat \<Rightarrow> memory \<Rightarrow> memory" where
  "memcpy dst src n m = memmove dst src n m"

lemma memset_apply:
  "memset dst c n m x = (if dst \<le> x \<and> x < dst + n then word_of_int c else m x)"
  unfolding memset_def by (induction n) auto

lemma memmove_fwd_apply:
  assumes "d \<le> s \<or> s + n \<le> d"
  shows "memmove_fwd d s n m x = (if d \<le> x \<and> x < d + n then m (s + (x - d)) else m x)"
  using assms
proof (induction n arbitrary: d s m)
  case 0
  then show ?case by auto
next
  case (Suc n)
  let ?m = "m(d := m s)"
  have IH: "memmove_fwd (d + 1) (s + 1) n ?m x
      = (if d + 1 \<le> x \<and> x < d + 1 + n then ?m (s + 1 + (x - (d + 1))) else ?m x)"
    using Suc.prems by (intro Suc.IH) auto
  show ?case
  proof (cases "d < x")
    case True
    then have "s + 1 + (x - (d + 1)) = s + (x - d)" by simp
    then show ?thesis using IH True Suc.prems by auto
  next
    case False
    then show ?thesis using IH by auto
  qed
qed

lemma memmove_bwd_apply:
  assumes "s \<le> d"
  shows "memmove_bwd d s n m x = (if d \<le> x \<and> x < d + n then m (s + (x - d)) else m x)"
  using assms
proof (induction n arbitrary: m)
  case 0
  then show ?case by auto
next
  case (Suc n)
  have "memmove_bwd d s n (m(d + n := m (s + n))) x
      = (if d \<le> x \<and> x < d + n then (m(d + n := m (s + n))) (s + (x - d))
         else (m(d + n := m (s + n))) x)"
    using Suc.prems by (rule Suc.IH)
  then show ?case using Suc.prems by (cases "x = d + n") auto
qed

text \<open>\<open>memmove\<close> copies as if through a temporary buffer, whatever the overlap.\<close>

lemma memmove_apply:
  "memmove dst src n m x = (if dst \<le> x \<and> x < dst + n then m (src + (x - dst)) else m x)"
  by (auto simp: memmove_def memmove_fwd_apply memmove_bwd_apply)

lemma memcmp_eq_0_iff: "memcmp m a b n = 0 \<longleftrightarrow> (\<forall>i<n. m (a + i) = m (b + i))"
proof (induction n arbitrary: a b)
  case 0
  then show ?case by simp
next
  case (Suc n)
  have "(\<forall>i<Suc n. m (a + i) = m (b + i))
      \<longleftrightarrow> m a = m b \<and> (\<forall>i<n. m (a + 1 + i) = m (b + 1 + i))"
    by (auto simp: All_less_Suc2 simp del: All_less_Suc)
  then show ?case using Suc.IH[of "a + 1" "b + 1"] by (auto simp: word_uint_eq_iff)
qed

lemma load64_memset: "a \<le> b \<Longrightarrow> b + 8 \<le> a + n \<Longrightarrow> load64 (memset a 0 n m) b = 0"
  by (rule load64_zero) (auto simp: memset_apply)

lemma load64_memset_other [mem_simps]:
  "b + 8 \<le> a \<or> a + n \<le> b \<Longrightarrow> load64 (memset a c n m) b = load64 m b"
  by (rule load64_cong) (auto simp: memset_apply)

lemma load64_memmove_other [mem_simps]:
  "b + 8 \<le> d \<or> d + n \<le> b \<Longrightarrow> load64 (memmove d s n m) b = load64 m b"
  by (rule load64_cong) (auto simp: memmove_apply)

section \<open>NUL-terminated strings\<close>

type_synonym carr = "nat \<Rightarrow> u8"

text \<open>The array \<open>p\<close> starts with the C string \<open>xs\<close> (no NUL in it) and its terminator.\<close>

definition is_cstr :: "carr \<Rightarrow> u8 list \<Rightarrow> bool" where
  "is_cstr p xs \<longleftrightarrow> (\<forall>i<length xs. p i = xs ! i \<and> xs ! i \<noteq> 0) \<and> p (length xs) = 0"

fun strncmp_at :: "carr \<Rightarrow> carr \<Rightarrow> nat \<Rightarrow> nat \<Rightarrow> int" where
  "strncmp_at p q i 0 = 0"
| "strncmp_at p q i (Suc n) =
     (if p i \<noteq> 0 \<and> p i = q i then strncmp_at p q (i + 1) n else uint (p i) - uint (q i))"

definition strncmp :: "carr \<Rightarrow> carr \<Rightarrow> nat \<Rightarrow> int" where
  "strncmp p q n = strncmp_at p q 0 n"

fun strncpy_pad :: "carr \<Rightarrow> nat \<Rightarrow> nat \<Rightarrow> carr" where
  "strncpy_pad s i 0 = s"
| "strncpy_pad s i (Suc n) = strncpy_pad (s(i := 0)) (i + 1) n"

fun strncpy_at :: "carr \<Rightarrow> carr \<Rightarrow> nat \<Rightarrow> nat \<Rightarrow> carr" where
  "strncpy_at s t i 0 = s"
| "strncpy_at s t i (Suc n) =
     (if t i \<noteq> 0 then strncpy_at (s(i := t i)) t (i + 1) n
      else strncpy_pad (s(i := t i)) (i + 1) n)"

definition strncpy :: "carr \<Rightarrow> carr \<Rightarrow> int \<Rightarrow> carr" where
  "strncpy s t n = strncpy_at s t 0 (nat n)"

fun safestrcpy_at :: "carr \<Rightarrow> carr \<Rightarrow> nat \<Rightarrow> nat \<Rightarrow> carr" where
  "safestrcpy_at s t i 0 = s(i := 0)"
| "safestrcpy_at s t i (Suc n) =
     (if t i \<noteq> 0 then safestrcpy_at (s(i := t i)) t (i + 1) n
      else (s(i := t i))(i + 1 := 0))"

definition safestrcpy :: "carr \<Rightarrow> carr \<Rightarrow> int \<Rightarrow> carr" where
  "safestrcpy s t n = (if n \<le> 0 then s else safestrcpy_at s t 0 (nat (n - 1)))"

partial_function (option) strlen_from :: "carr \<Rightarrow> nat \<Rightarrow> nat option" where
  "strlen_from s n = (if s n = 0 then Some n else strlen_from s (n + 1))"

definition strlen :: "carr \<Rightarrow> nat option" where
  "strlen s = strlen_from s 0"

lemma strlen_from_cstr:
  assumes "is_cstr p xs" and "n \<le> length xs"
  shows "strlen_from p n = Some (length xs)"
  using assms(2)
proof (induction "length xs - n" arbitrary: n)
  case 0
  with assms(1) show ?case by (subst strlen_from.simps) (auto simp: is_cstr_def)
next
  case (Suc k)
  then have "n < length xs" by simp
  moreover from this have "p n \<noteq> 0" using assms(1) by (auto simp: is_cstr_def)
  ultimately show ?case
    using Suc.hyps(1)[of "n + 1"] Suc.hyps(2) by (subst strlen_from.simps) simp
qed

lemma strlen_cstr: "is_cstr p xs \<Longrightarrow> strlen p = Some (length xs)"
  by (simp add: strlen_def strlen_from_cstr)

lemma strncpy_pad_apply: "strncpy_pad s i n x = (if i \<le> x \<and> x < i + n then 0 else s x)"
  by (induction n arbitrary: s i) auto

lemma strncpy_at_apply:
  assumes "is_cstr t xs" and "i \<le> length xs"
  shows "strncpy_at s t i n x =
     (if i \<le> x \<and> x < i + n then (if x < length xs then xs ! x else 0) else s x)"
  using assms(2)
proof (induction n arbitrary: i s)
  case 0
  then show ?case by auto
next
  case (Suc n)
  show ?case
  proof (cases "i < length xs")
    case True
    then have "t i \<noteq> 0" "t i = xs ! i" using assms(1) by (auto simp: is_cstr_def)
    moreover have "strncpy_at (s(i := t i)) t (i + 1) n x =
      (if i + 1 \<le> x \<and> x < i + 1 + n then (if x < length xs then xs ! x else 0)
       else (s(i := t i)) x)"
      using True by (intro Suc.IH) simp
    ultimately show ?thesis using True by (cases "x = i") simp_all
  next
    case False
    with Suc.prems have "i = length xs" by simp
    moreover from this have "t i = 0" using assms(1) by (auto simp: is_cstr_def)
    ultimately show ?thesis by (auto simp: strncpy_pad_apply)
  qed
qed

lemma safestrcpy_at_outside: "x < i \<or> i + n < x \<Longrightarrow> safestrcpy_at s t i n x = s x"
  by (induction n arbitrary: i s) auto

lemma safestrcpy_at_apply:
  assumes "is_cstr t xs" and "i \<le> length xs"
  shows "i \<le> x \<Longrightarrow> x < min (length xs) (i + n) \<Longrightarrow> safestrcpy_at s t i n x = xs ! x"
    and "safestrcpy_at s t i n (min (length xs) (i + n)) = 0"
  using assms(2)
proof (induction n arbitrary: i s)
  case (Suc n)
  {
    case 1
    then have i: "i < length xs" by simp
    then have ti: "t i \<noteq> 0" "t i = xs ! i" using assms(1) by (auto simp: is_cstr_def)
    show ?case
    proof (cases "x = i")
      case True
      then show ?thesis using ti by (simp add: safestrcpy_at_outside)
    next
      case False
      then show ?thesis using 1 i ti Suc.IH(1)[of "i + 1"] by simp
    qed
  next
    case 2
    show ?case
    proof (cases "i < length xs")
      case True
      then have "t i \<noteq> 0" using assms(1) by (auto simp: is_cstr_def)
      then show ?thesis using True Suc.IH(2)[of "i + 1"] by simp
    next
      case False
      then have "i = length xs" using 2 by simp
      moreover from this have "t i = 0" using assms(1) by (auto simp: is_cstr_def)
      ultimately show ?thesis by simp
    qed
  }
qed auto

lemma strncmp_at_eq_0_iff:
  "strncmp_at p q i n = 0 \<longleftrightarrow>
     (\<forall>k<n. (\<forall>j<k. p (i + j) \<noteq> 0) \<longrightarrow> p (i + k) = q (i + k))"
proof (induction n arbitrary: i)
  case 0
  then show ?case by simp
next
  case (Suc n)
  have split: "(\<forall>k<Suc n. (\<forall>j<k. p (i + j) \<noteq> 0) \<longrightarrow> p (i + k) = q (i + k)) \<longleftrightarrow>
      p i = q i \<and> (p i \<noteq> 0 \<longrightarrow>
        (\<forall>k<n. (\<forall>j<k. p (i + 1 + j) \<noteq> 0) \<longrightarrow> p (i + 1 + k) = q (i + 1 + k)))"
    by (auto simp: All_less_Suc2 simp del: All_less_Suc)
  show ?case
    unfolding split using Suc.IH[of "i + 1"] by (auto simp: word_uint_eq_iff)
qed

section \<open>Properties\<close>

text \<open>
  C28. \<^verbatim>\<open>memmove\<close> copies as if through a temporary buffer: whatever the overlap of the two
  ranges, afterwards byte \<open>i\<close> of the destination is what byte \<open>i\<close> of the source was before the
  call, and no byte outside the destination changes.
\<close>

theorem memmove_as_if_buffered:
  "memmove dst src n m = (\<lambda>x. if x \<in> {dst..<dst + n} then m (src + (x - dst)) else m x)"
  by (auto simp: memmove_apply fun_eq_iff)

text \<open>
  C29. \<^verbatim>\<open>safestrcpy\<close> always leaves a NUL-terminated string: the longest prefix of the source that
  leaves room for the NUL in \<open>n\<close> bytes. It writes nothing past those \<open>n\<close> bytes.
\<close>

theorem safestrcpy_terminated:
  assumes "is_cstr t xs" and "0 < n"
  shows "is_cstr (safestrcpy s t n) (take (nat n - 1) xs) \<and> (\<forall>x\<ge>nat n. safestrcpy s t n x = s x)"
proof -
  let ?k = "nat (n - 1)"
  have eq: "safestrcpy s t n = safestrcpy_at s t 0 ?k" using assms(2) by (simp add: safestrcpy_def)
  have "safestrcpy_at s t 0 ?k x = xs ! x \<and> xs ! x \<noteq> 0" if "x < min (length xs) ?k" for x
    using safestrcpy_at_apply(1)[OF assms(1), of 0 x ?k s] assms(1) that by (simp add: is_cstr_def)
  moreover have "safestrcpy_at s t 0 ?k (min (length xs) ?k) = 0"
    using safestrcpy_at_apply(2)[OF assms(1), of 0 s ?k] by simp
  moreover have "safestrcpy_at s t 0 ?k x = s x" if "nat n \<le> x" for x
    using that assms(2) by (intro safestrcpy_at_outside) auto
  ultimately show ?thesis using assms(2) by (simp add: eq is_cstr_def nat_diff_distrib)
qed

theorem safestrcpy_terminated_witness:
  "is_cstr (safestrcpy (\<lambda>_. 255) (\<lambda>i. if i < 3 then 97 else 0) 3) [97, 97] \<and>
   safestrcpy (\<lambda>_. 255) (\<lambda>i. if i < 3 then 97 else 0) 3 3 = 255"
  using safestrcpy_terminated[of "\<lambda>i. if i < 3 then 97 else 0" "[97, 97, 97]" 3 "\<lambda>_. 255"]
  by (simp add: is_cstr_def less_Suc_eq nth_Cons' numeral_3_eq_3)

end
