(* ===== verification/Riscv.thy ===== *)
theory Riscv
  imports Cmem
begin

text \<open>
  Address arithmetic of \<^verbatim>\<open>kernel/riscv.h\<close> and the memory map of
  \<^verbatim>\<open>kernel/memlayout.h\<close>. The macros are 64-bit word expressions, as the C compiler
  evaluates them; physical addresses and page-table indices leave as \<open>nat\<close>.
\<close>

unbundle bit_operations_syntax

section \<open>Pages\<close>

definition PGSIZE :: nat where "PGSIZE = 4096"

definition PGROUNDUP :: "u64 \<Rightarrow> u64" where
  "PGROUNDUP sz = (sz + of_nat PGSIZE - 1) AND NOT (of_nat PGSIZE - 1)"

definition PGROUNDDOWN :: "u64 \<Rightarrow> u64" where
  "PGROUNDDOWN a = a AND NOT (of_nat PGSIZE - 1)"

definition PTE_V :: u64 where "PTE_V = push_bit 0 1"
definition PTE_R :: u64 where "PTE_R = push_bit 1 1"
definition PTE_W :: u64 where "PTE_W = push_bit 2 1"
definition PTE_X :: u64 where "PTE_X = push_bit 3 1"
definition PTE_U :: u64 where "PTE_U = push_bit 4 1"

lemmas pte_bit_defs = PTE_V_def PTE_R_def PTE_W_def PTE_X_def PTE_U_def

definition PA2PTE :: "nat \<Rightarrow> u64" where
  "PA2PTE pa = push_bit 10 (drop_bit 12 (of_nat pa))"

definition PTE2PA :: "u64 \<Rightarrow> nat" where
  "PTE2PA pte = unat (push_bit 12 (drop_bit 10 pte))"

definition PTE_FLAGS :: "u64 \<Rightarrow> u64" where
  "PTE_FLAGS pte = pte AND 0x3FF"

definition PXSHIFT :: "nat \<Rightarrow> nat" where
  "PXSHIFT level = 12 + 9 * level"

definition PX :: "nat \<Rightarrow> u64 \<Rightarrow> nat" where
  "PX level va = unat (drop_bit (PXSHIFT level) va AND 0x1FF)"

definition MAXVA :: u64 where
  "MAXVA = push_bit (9 + 9 + 9 + 12 - 1) 1"

definition MAKE_SATP :: "nat \<Rightarrow> u64" where
  "MAKE_SATP pagetable = push_bit 60 8 OR drop_bit 12 (of_nat pagetable)"

section \<open>Memory map\<close>

definition UART0 :: nat where "UART0 = 0x10000000"
definition UART0_IRQ :: nat where "UART0_IRQ = 10"
definition VIRTIO0 :: nat where "VIRTIO0 = 0x10001000"
definition VIRTIO0_IRQ :: nat where "VIRTIO0_IRQ = 1"
definition PLIC :: nat where "PLIC = 0x0c000000"
definition KERNBASE :: nat where "KERNBASE = 0x80000000"
definition PHYSTOP :: nat where "PHYSTOP = KERNBASE + 128 * 1024 * 1024"

definition TRAMPOLINE :: u64 where "TRAMPOLINE = MAXVA - of_nat PGSIZE"
definition TRAPFRAME :: u64 where "TRAPFRAME = TRAMPOLINE - of_nat PGSIZE"

definition KSTACK :: "nat \<Rightarrow> u64" where
  "KSTACK p = TRAMPOLINE - (of_nat p + 1) * 2 * of_nat PGSIZE"

section \<open>The macros as arithmetic\<close>

lemma MAXVA_eq: "MAXVA = 274877906944"
  by (simp add: MAXVA_def push_bit_eq_mult)

lemma unat_MAXVA: "unat MAXVA = 274877906944"
  by (simp add: MAXVA_eq)

lemma unat_TRAPFRAME: "unat TRAPFRAME = 274877898752"
  by (simp add: TRAPFRAME_def TRAMPOLINE_def MAXVA_eq PGSIZE_def)

lemma unat_TRAMPOLINE: "unat TRAMPOLINE = 274877902848"
  by (simp add: TRAMPOLINE_def MAXVA_eq PGSIZE_def)

lemma mask12_eq: "(4095 :: u64) = mask 12"
  by (simp add: mask_eq_exp_minus_1)

lemma and_not_4095: "(a :: u64) AND NOT 4095 = push_bit 12 (drop_bit 12 a)"
  unfolding mask12_eq by (rule bit_eqI) (auto simp: bit_simps)

lemma PGROUNDDOWN_shift: "PGROUNDDOWN a = push_bit 12 (drop_bit 12 a)"
proof -
  have "(of_nat 4096 - 1 :: u64) = 4095" by simp
  then show ?thesis by (simp only: PGROUNDDOWN_def PGSIZE_def and_not_4095)
qed

lemma unat_drop_bit: "unat (drop_bit k (a :: u64)) = unat a div 2 ^ k"
  by (subst unat_drop_bit_eq) (simp add: drop_bit_eq_div)

lemma PGROUNDDOWN_unat: "unat (PGROUNDDOWN a) = unat a div 4096 * 4096"
proof -
  have "unat (push_bit 12 (drop_bit 12 a)) = take_bit 64 (push_bit 12 (unat a div 4096))"
    by (simp add: unsigned_push_bit_eq unat_drop_bit)
  also have "\<dots> = unat a div 4096 * 4096"
  proof -
    have "unat a div 4096 < 4503599627370496"
      using unat_lt_64[of a] by (intro less_mult_imp_div_less) simp
    then show ?thesis by (subst take_bit_nat_eq_self) (simp_all add: push_bit_eq_mult)
  qed
  finally show ?thesis by (simp only: PGROUNDDOWN_shift)
qed

lemma PGROUNDUP_eq_DOWN: "PGROUNDUP a = PGROUNDDOWN (a + 4095)"
  by (simp add: PGROUNDUP_def PGROUNDDOWN_def PGSIZE_def add.commute)

lemma PGROUNDUP_unat:
  assumes "unat a + 4095 < 18446744073709551616"
  shows "unat (PGROUNDUP a) = (unat a + 4095) div 4096 * 4096"
proof -
  have "unat (a + 4095) = unat a + 4095"
    using assms by (simp add: unat_word_ariths)
  then show ?thesis by (simp add: PGROUNDUP_eq_DOWN PGROUNDDOWN_unat)
qed

lemma round_up_ge: "(n :: nat) \<le> (n + 4095) div 4096 * 4096"
  using div_mult_mod_eq[of "n + 4095" 4096] mod_less_divisor[of 4096 "n + 4095"] by linarith

lemma PX_eq: "PX l va = unat va div 2 ^ (12 + 9 * l) mod 512"
proof -
  have "(0x1FF :: u64) = mask 9" by (simp add: mask_eq_exp_minus_1)
  then have "drop_bit (PXSHIFT l) va AND 0x1FF = take_bit 9 (drop_bit (PXSHIFT l) va)"
    by (simp add: take_bit_eq_mask)
  then have "PX l va = take_bit 9 (unat (drop_bit (PXSHIFT l) va))"
    by (simp add: PX_def unsigned_take_bit_eq)
  then show ?thesis
    by (simp add: unat_drop_bit take_bit_eq_mod PXSHIFT_def)
qed

lemma PX_lt: "PX l va < 512"
  by (simp add: PX_eq)

text \<open>
  Below \<open>MAXVA\<close> the three 9-bit indices determine the page: this is why distinct pages
  have distinct leaf entries.
\<close>

lemma page_of_PX:
  assumes "va < MAXVA"
  shows "unat va div 4096 = PX 2 va * 262144 + PX 1 va * 512 + PX 0 va"
proof -
  have "unat va < 274877906944"
    using assms unat_MAXVA by (metis word_less_nat_alt)
  moreover define k where "k = unat va div 4096"
  ultimately have k: "k < 67108864" by auto
  have "unat va div 2097152 = k div 512" and "unat va div 1073741824 = k div 512 div 512"
    by (simp_all add: k_def div_mult2_eq[symmetric])
  moreover have "k div 512 div 512 < 512"
    using k by (simp add: div_mult2_eq[symmetric] less_mult_imp_div_less)
  ultimately have "PX 2 va = k div 512 div 512" "PX 1 va = k div 512 mod 512" "PX 0 va = k mod 512"
    by (simp_all add: PX_eq k_def)
  then have "k = PX 2 va * 262144 + PX 1 va * 512 + PX 0 va"
    using div_mult_mod_eq[of k 512] div_mult_mod_eq[of "k div 512" 512] by linarith
  then show ?thesis by (simp add: k_def)
qed

lemma page_eq_iff_PX:
  assumes "va < MAXVA" and "va' < MAXVA"
  shows "unat va div 4096 = unat va' div 4096 \<longleftrightarrow>
     PX 2 va = PX 2 va' \<and> PX 1 va = PX 1 va' \<and> PX 0 va = PX 0 va'"
proof
  assume eq: "unat va div 4096 = unat va' div 4096"
  have digits: "a = a' \<and> b = b' \<and> c = c'"
    if "a * 262144 + b * 512 + c = a' * 262144 + b' * 512 + c'"
      and "b < 512" "c < 512" "b' < 512" "c' < 512" for a b c a' b' c' :: nat
  proof -
    have digit: "x = x' \<and> y = y'" if "x + 512 * y = x' + 512 * y'" "x < 512" "x' < 512"
      for x y x' y' :: nat
    proof -
      have "x = (x + 512 * y) mod 512" and "x' = (x' + 512 * y') mod 512"
        using that(2,3) by simp_all
      then have "x = x'" using that(1) by simp
      then show ?thesis using that(1) by simp
    qed
    from that have "c = c' \<and> b + 512 * a = b' + 512 * a'" by (intro digit) simp_all
    moreover from this that have "b = b' \<and> a = a'" by (intro digit) simp_all
    ultimately show ?thesis by simp
  qed
  show "PX 2 va = PX 2 va' \<and> PX 1 va = PX 1 va' \<and> PX 0 va = PX 0 va'"
    by (rule digits) (use eq page_of_PX[OF assms(1)] page_of_PX[OF assms(2)] in
        \<open>simp_all add: PX_lt\<close>)
qed (use page_of_PX[OF assms(1)] page_of_PX[OF assms(2)] in simp)

section \<open>Page-table entries\<close>

lemma PTE2PA_aligned: "4096 dvd PTE2PA pte"
proof -
  have "take_bit 12 (PTE2PA pte) = 0"
    by (rule bit_eqI) (auto simp: PTE2PA_def bit_simps)
  then show ?thesis by (simp add: take_bit_eq_mod dvd_eq_mod_eq_0)
qed

lemma PTE2PA_lt: "PTE2PA pte < 18446744073709551616"
  by (simp add: PTE2PA_def)

lemma no_high_bits: "(f :: u64) < 1024 \<Longrightarrow> 10 \<le> n \<Longrightarrow> \<not> bit f n"
proof -
  assume "f < 1024" and "10 \<le> n"
  then have "unat f < 2 ^ 10" by (simp add: word_less_nat_alt)
  then have "take_bit 10 (unat f) = unat f" by (simp add: take_bit_nat_eq_self_iff)
  then have "\<not> bit (unat f) n"
    using \<open>10 \<le> n\<close> by (metis bit_take_bit_iff not_less)
  then show "\<not> bit f n"
    using bit_imp_le_length[of f n] by (auto simp: bit_simps)
qed

lemma PTE2PA_PA2PTE:
  assumes "4096 dvd pa" and "pa < 18446744073709551616" and "f < 1024"
  shows "PTE2PA (PA2PTE pa OR f) = pa"
proof -
  have low: "\<not> bit (of_nat pa :: u64) n" if "n < 12" for n
  proof -
    from assms(1) obtain k where "pa = 4096 * k" by blast
    then have "(of_nat pa :: u64) = push_bit 12 (of_nat k)"
      by (simp add: push_bit_eq_mult)
    with that show ?thesis by (auto simp: bit_simps)
  qed
  have "push_bit 12 (drop_bit 10 (PA2PTE pa OR f)) = (of_nat pa :: u64)"
  proof (rule bit_word_eqI)
    fix n assume "n < LENGTH(64)"
    then show "bit (push_bit 12 (drop_bit 10 (PA2PTE pa OR f))) n = bit (of_nat pa :: u64) n"
      using low[of n] no_high_bits[OF assms(3), of "n - 2"]
      by (cases "12 \<le> n") (auto simp: PA2PTE_def bit_simps)
  qed
  then show ?thesis
    using assms(2) by (simp add: PTE2PA_def unat_of_nat_64)
qed

lemma PTE_FLAGS_PA2PTE:
  assumes "f < 1024"
  shows "PTE_FLAGS (PA2PTE pa OR f) = f"
proof (rule bit_word_eqI)
  fix n assume "n < LENGTH(64)"
  have "PTE_FLAGS (PA2PTE pa OR f) = take_bit 10 (PA2PTE pa OR f)"
    by (simp add: PTE_FLAGS_def take_bit_eq_mask mask_eq_exp_minus_1)
  then show "bit (PTE_FLAGS (PA2PTE pa OR f)) n = bit f n"
    using \<open>n < LENGTH(64)\<close> no_high_bits[OF assms, of n]
    by (auto simp: PA2PTE_def bit_simps)
qed

lemma PA2PTE_low: "n < 10 \<Longrightarrow> \<not> bit (PA2PTE pa) n"
  by (simp add: PA2PTE_def bit_simps)

text \<open>The tests \<^verbatim>\<open>*pte & PTE_x\<close> of the C code read one bit.\<close>

lemma bit_PTE:
  "bit PTE_V n \<longleftrightarrow> n = 0" "bit PTE_R n \<longleftrightarrow> n = 1" "bit PTE_W n \<longleftrightarrow> n = 2"
  "bit PTE_X n \<longleftrightarrow> n = 3" "bit PTE_U n \<longleftrightarrow> n = 4"
  unfolding pte_bit_defs by (auto simp only: bit_push_bit_iff bit_1_iff possible_bit_word) simp_all

lemma and_bit_eq_0:
  assumes "\<And>n. bit (f :: u64) n \<longleftrightarrow> n = k"
  shows "x AND f = 0 \<longleftrightarrow> \<not> bit x k"
proof
  assume "x AND f = 0"
  then have "\<not> bit (x AND f) k" by simp
  then show "\<not> bit x k" by (simp add: bit_and_iff assms)
next
  assume "\<not> bit x k"
  then show "x AND f = 0" by (intro bit_eqI) (auto simp: bit_and_iff assms)
qed

lemmas and_PTE_eq_0 =
  and_bit_eq_0[OF bit_PTE(1)] and_bit_eq_0[OF bit_PTE(2)] and_bit_eq_0[OF bit_PTE(3)]
  and_bit_eq_0[OF bit_PTE(4)] and_bit_eq_0[OF bit_PTE(5)]

end
