(* ===== verification/Spinlock.thy ===== *)
theory Spinlock
  imports Riscv
begin

text \<open>
  \<^verbatim>\<open>kernel/spinlock.c\<close>, \<^verbatim>\<open>kernel/spinlock.h\<close>, the per-hart interrupt bit of
  \<^verbatim>\<open>kernel/riscv.h\<close> and the current-CPU functions of \<^verbatim>\<open>kernel/proc.c\<close>.

  \<open>lockst\<close> is the part of the machine the lock code reads and writes: which hart is
  executing (\<open>tp\<close>), the SIE bit of every hart, the \<^verbatim>\<open>cpus\<close> array and every spinlock of
  the kernel, named by \<open>lockid\<close> instead of by address. The kernel state of the other
  theories extends the record \<open>kernel\<close>, whose one field is this part. \<open>acquire\<close>
  and \<open>release\<close> are the whole C functions as seen by the executing hart; \<open>None\<close> is a
  panic or an endless spin. The last section interleaves the instructions of \<^verbatim>\<open>acquire\<close>
  and \<^verbatim>\<open>release\<close> on all harts and proves mutual exclusion.
\<close>

section \<open>State\<close>

datatype lockid =
    KmemLock | PidLock | WaitLock | ProcLock nat | TicksLock | ConsLock | PrLock | TxLock
  | FtableLock | ItableLock | BcacheLock | LogLock | VdiskLock | PipeLock nat
  | InodeLk nat | BufLk nat

record spinlock =
  locked :: bool
  lname :: string
  lcpu :: "nat option"

record cpu =
  cproc :: "nat option"
  noff :: nat
  intena :: bool

record lockst =
  tp :: nat
  sie :: "nat \<Rightarrow> bool"
  cpus :: "nat \<Rightarrow> cpu"
  locks :: "lockid \<Rightarrow> spinlock"

record kernel =
  lk :: lockst

section \<open>Interrupt bit and current CPU\<close>

definition intr_on :: "lockst \<Rightarrow> lockst" where
  "intr_on L = L\<lparr>sie := (sie L)(tp L := True)\<rparr>"

definition intr_off :: "lockst \<Rightarrow> lockst" where
  "intr_off L = L\<lparr>sie := (sie L)(tp L := False)\<rparr>"

definition intr_get :: "lockst \<Rightarrow> bool" where
  "intr_get L = sie L (tp L)"

definition cpuid :: "lockst \<Rightarrow> nat" where
  "cpuid L = tp L"

definition mycpu :: "lockst \<Rightarrow> cpu" where
  "mycpu L = cpus L (cpuid L)"

definition set_mycpu :: "cpu \<Rightarrow> lockst \<Rightarrow> lockst" where
  "set_mycpu c L = L\<lparr>cpus := (cpus L)(cpuid L := c)\<rparr>"

section \<open>push\_off, pop\_off, acquire, release\<close>

definition push_off :: "lockst \<Rightarrow> lockst" where
  "push_off L =
     (let old = intr_get L;
          L = intr_off L;
          L = (if noff (mycpu L) = 0 then set_mycpu ((mycpu L)\<lparr>intena := old\<rparr>) L else L)
      in set_mycpu ((mycpu L)\<lparr>noff := noff (mycpu L) + 1\<rparr>) L)"

definition pop_off :: "lockst \<Rightarrow> lockst option" where
  "pop_off L =
     (if intr_get L then None
      else if noff (mycpu L) < 1 then None
      else let L = set_mycpu ((mycpu L)\<lparr>noff := noff (mycpu L) - 1\<rparr>) L
           in Some (if noff (mycpu L) = 0 \<and> intena (mycpu L) then intr_on L else L))"

definition initlock :: "lockid \<Rightarrow> string \<Rightarrow> lockst \<Rightarrow> lockst" where
  "initlock l name L =
     L\<lparr>locks := (locks L)(l := \<lparr>locked = False, lname = name, lcpu = None\<rparr>)\<rparr>"

definition holding :: "lockid \<Rightarrow> lockst \<Rightarrow> bool" where
  "holding l L \<longleftrightarrow> locked (locks L l) \<and> lcpu (locks L l) = Some (cpuid L)"

definition acquire_lk :: "lockid \<Rightarrow> lockst \<Rightarrow> lockst option" where
  "acquire_lk l L =
     (let L = push_off L
      in if holding l L then None
         else if locked (locks L l) then None
         else Some (L\<lparr>locks := (locks L)
                (l := (locks L l)\<lparr>locked := True, lcpu := Some (cpuid L)\<rparr>)\<rparr>))"

definition release_lk :: "lockid \<Rightarrow> lockst \<Rightarrow> lockst option" where
  "release_lk l L =
     (if \<not> holding l L then None
      else let L = L\<lparr>locks := (locks L)(l := (locks L l)\<lparr>lcpu := None\<rparr>)\<rparr>;
               L = L\<lparr>locks := (locks L)(l := (locks L l)\<lparr>locked := False\<rparr>)\<rparr>
           in pop_off L)"

definition acquire :: "lockid \<Rightarrow> 'z kernel_scheme \<Rightarrow> 'z kernel_scheme option" where
  "acquire l s = map_option (\<lambda>L. s\<lparr>lk := L\<rparr>) (acquire_lk l (lk s))"

definition release :: "lockid \<Rightarrow> 'z kernel_scheme \<Rightarrow> 'z kernel_scheme option" where
  "release l s = map_option (\<lambda>L. s\<lparr>lk := L\<rparr>) (release_lk l (lk s))"

definition myproc :: "'z kernel_scheme \<Rightarrow> (nat option \<times> 'z kernel_scheme) option" where
  "myproc s =
     (let L = push_off (lk s);
          p = cproc (mycpu L)
      in map_option (\<lambda>L. (p, s\<lparr>lk := L\<rparr>)) (pop_off L))"

lemmas cpu_defs = intr_on_def intr_off_def intr_get_def cpuid_def mycpu_def set_mycpu_def

section \<open>Effect of a balanced critical section\<close>

text \<open>
  \<open>taken l L\<close> is the lock state inside a critical section of \<open>l\<close> entered from
  \<open>L\<close>, \<open>settle L\<close> the state after leaving it: everything is back except \<open>intena\<close>,
  which an outermost \<^verbatim>\<open>push_off\<close> overwrites with the current interrupt bit.
\<close>

definition settle :: "lockst \<Rightarrow> lockst" where
  "settle L = (if noff (mycpu L) = 0
      then set_mycpu ((mycpu L)\<lparr>intena := intr_get L\<rparr>) L else L)"

definition taken :: "lockid \<Rightarrow> lockst \<Rightarrow> lockst" where
  "taken l L = (let L = push_off L in L\<lparr>locks := (locks L)
      (l := (locks L l)\<lparr>locked := True, lcpu := Some (cpuid L)\<rparr>)\<rparr>)"

text \<open>
  The interrupt discipline of the executing hart: while \<^verbatim>\<open>noff\<close> is positive interrupts
  are off. It is what makes \<^verbatim>\<open>pop_off\<close> leave the interrupt bit as it found it.
\<close>

definition hart_ok :: "lockst \<Rightarrow> bool" where
  "hart_ok L \<longleftrightarrow> (0 < noff (mycpu L) \<longrightarrow> \<not> intr_get L)"

definition lock_free :: "lockid \<Rightarrow> lockst \<Rightarrow> bool" where
  "lock_free l L \<longleftrightarrow> \<not> locked (locks L l) \<and> lcpu (locks L l) = None"

lemma push_off_fields [simp]:
  "tp (push_off L) = tp L" "locks (push_off L) = locks L"
  "noff (mycpu (push_off L)) = Suc (noff (mycpu L))"
  "cproc (mycpu (push_off L)) = cproc (mycpu L)"
  "intr_get (push_off L) = False"
  by (simp_all add: push_off_def cpu_defs Let_def)

lemma pop_off_push_off: "hart_ok L \<Longrightarrow> pop_off (push_off L) = Some (settle L)"
  by (auto simp: pop_off_def push_off_def settle_def hart_ok_def cpu_defs Let_def fun_eq_iff
      intro!: lockst.equality cpu.equality)

lemma settle_fields [simp]:
  "tp (settle L) = tp L" "sie (settle L) = sie L" "locks (settle L) = locks L"
  "noff (mycpu (settle L)) = noff (mycpu L)" "cproc (mycpu (settle L)) = cproc (mycpu L)"
  "intr_get (settle L) = intr_get L" "hart_ok (settle L) = hart_ok L" "cpuid (settle L) = cpuid L"
  by (auto simp: settle_def hart_ok_def cpu_defs)

lemma settle_settle [simp]: "settle (settle L) = settle L"
  by (auto simp: settle_def cpu_defs fun_eq_iff intro!: lockst.equality cpu.equality)

lemma lock_free_settle [simp]: "lock_free l (settle L) = lock_free l L"
  by (simp add: lock_free_def)

lemma holding_settle [simp]: "holding l (settle L) = holding l L"
  by (simp add: holding_def)

lemma cproc_settle [simp]: "cproc (cpus (settle L) h) = cproc (cpus L h)"
  by (simp add: settle_def cpu_defs)

lemma taken_fields [simp]:
  "tp (taken l L) = tp L" "cproc (mycpu (taken l L)) = cproc (mycpu L)"
  "noff (mycpu (taken l L)) = Suc (noff (mycpu L))" "intr_get (taken l L) = False"
  "hart_ok (taken l L)" "holding l (taken l L)" "cpuid (taken l L) = cpuid L"
  by (simp_all add: taken_def push_off_def cpu_defs Let_def hart_ok_def holding_def)

lemma taken_locks: "locks (taken l L) =
    (locks L)(l := (locks L l)\<lparr>locked := True, lcpu := Some (cpuid L)\<rparr>)"
  by (simp add: taken_def Let_def cpuid_def)

lemma lock_free_taken [simp]: "l' \<noteq> l \<Longrightarrow> lock_free l' (taken l L) = lock_free l' L"
  by (simp add: lock_free_def taken_locks)

lemma holding_taken [simp]: "l' \<noteq> l \<Longrightarrow> holding l' (taken l L) = holding l' L"
  by (simp add: holding_def taken_locks)

lemma cproc_taken [simp]: "cproc (cpus (taken l L) h) = cproc (cpus L h)"
  by (simp add: taken_def push_off_def cpu_defs Let_def)

lemma acquire_lk_free [lock_simps]:
  "lock_free l L \<Longrightarrow> acquire_lk l L = Some (taken l L)"
  by (simp add: acquire_lk_def taken_def lock_free_def holding_def Let_def)

lemma release_lk_taken [lock_simps]:
  assumes "hart_ok L" and "lock_free l L"
  shows "release_lk l (taken l L) = Some (settle L)"
proof -
  have "(locks L l)\<lparr>lcpu := None, locked := False\<rparr> = locks L l"
    using assms(2) by (simp add: lock_free_def)
  then have "(taken l L)\<lparr>locks := (locks (taken l L))
      (l := (locks (taken l L) l)\<lparr>lcpu := None, locked := False\<rparr>)\<rparr> = push_off L"
    by (simp add: taken_def Let_def fun_upd_triv)
  then show ?thesis
    using assms(1) by (simp add: release_lk_def Let_def pop_off_push_off[symmetric] fun_upd_upd)
qed

text \<open>The two lemmas every operation with one critical section uses.\<close>

lemma acquire_free [lock_simps]:
  "lock_free l (lk s) \<Longrightarrow> acquire l s = Some (s\<lparr>lk := taken l (lk s)\<rparr>)"
  by (simp add: acquire_def acquire_lk_free)

lemma release_taken [lock_simps]:
  "lk s = taken l L \<Longrightarrow> hart_ok L \<Longrightarrow> lock_free l L \<Longrightarrow> release l s = Some (s\<lparr>lk := settle L\<rparr>)"
  by (simp add: release_def release_lk_taken)

lemma myproc_eq [lock_simps]:
  "hart_ok (lk s) \<Longrightarrow> myproc s = Some (cproc (mycpu (lk s)), s\<lparr>lk := settle (lk s)\<rparr>)"
  by (simp add: myproc_def Let_def pop_off_push_off)

text \<open>A hart that already holds the lock panics in \<^verbatim>\<open>acquire\<close>; one that does not panics in
  \<^verbatim>\<open>release\<close>.\<close>

lemma acquire_held: "holding l (lk s) \<Longrightarrow> acquire l s = None"
  by (simp add: acquire_def acquire_lk_def Let_def holding_def cpuid_def)

lemma release_not_held: "\<not> holding l (lk s) \<Longrightarrow> release l s = None"
  by (simp add: release_def release_lk_def)

lemma push_off_settle [simp]: "push_off (settle L) = push_off L"
  by (auto simp: push_off_def settle_def cpu_defs Let_def fun_eq_iff
      intro!: lockst.equality cpu.equality)

lemma taken_settle [simp]: "taken l (settle L) = taken l L"
  by (simp add: taken_def)

text \<open>Locks need not be released in the reverse order (\<^verbatim>\<open>sleep\<close> does not).\<close>

lemma release_lk_crossed [lock_simps]:
  assumes "l \<noteq> l'" and "hart_ok L" and "lock_free l L"
  shows "release_lk l (taken l' (taken l L)) = Some (taken l' L)"
proof -
  have free: "(locks L l)\<lparr>lcpu := None, locked := False\<rparr> = locks L l"
    using assms(3) by (simp add: lock_free_def)
  have "holding l (taken l' (taken l L))" using assms(1) by simp
  moreover have "(taken l' (taken l L))\<lparr>locks := (locks (taken l' (taken l L)))
      (l := (locks (taken l' (taken l L)) l)\<lparr>lcpu := None, locked := False\<rparr>)\<rparr>
      = push_off (taken l' L)"
    using assms(1) free
    by (simp add: taken_def push_off_def cpu_defs Let_def fun_upd_twist fun_upd_triv)
  moreover have "pop_off (push_off (taken l' L)) = Some (settle (taken l' L))"
    by (rule pop_off_push_off) simp
  moreover have "settle (taken l' L) = taken l' L"
    by (simp add: settle_def)
  ultimately show ?thesis by (simp add: release_lk_def Let_def fun_upd_upd)
qed

section \<open>Interleaving: mutual exclusion\<close>

text \<open>
  One lock, any number of harts. The program counter of a hart names the points between
  the shared-memory accesses of \<^verbatim>\<open>acquire\<close> (the \<^verbatim>\<open>holding\<close> check, the atomic swap, the
  store to \<^verbatim>\<open>lk->cpu\<close>) and of \<^verbatim>\<open>release\<close> (the \<^verbatim>\<open>holding\<close> check and the store to
  \<^verbatim>\<open>lk->cpu\<close>, then the atomic store to \<^verbatim>\<open>lk->locked\<close>). A failed check is the panic.
\<close>

datatype spin_pc = Outside | Spinning | Swapped | Inside | Clearing | Panicked

record spin =
  slock :: spinlock
  spc :: "nat \<Rightarrow> spin_pc"

definition spin_init :: spin where
  "spin_init = \<lparr>slock = \<lparr>locked = False, lname = [], lcpu = None\<rparr>, spc = (\<lambda>_. Outside)\<rparr>"

definition spin_holding :: "spin \<Rightarrow> nat \<Rightarrow> bool" where
  "spin_holding s h \<longleftrightarrow> locked (slock s) \<and> lcpu (slock s) = Some h"

inductive spin_step :: "spin \<Rightarrow> spin \<Rightarrow> bool" where
  acquire_enter: "spc s h = Outside \<Longrightarrow> \<not> spin_holding s h \<Longrightarrow>
     spin_step s (s\<lparr>spc := (spc s)(h := Spinning)\<rparr>)"
| acquire_panic: "spc s h = Outside \<Longrightarrow> spin_holding s h \<Longrightarrow>
     spin_step s (s\<lparr>spc := (spc s)(h := Panicked)\<rparr>)"
| swap_fails: "spc s h = Spinning \<Longrightarrow> locked (slock s) \<Longrightarrow>
     spin_step s (s\<lparr>slock := (slock s)\<lparr>locked := True\<rparr>\<rparr>)"
| swap_wins: "spc s h = Spinning \<Longrightarrow> \<not> locked (slock s) \<Longrightarrow>
     spin_step s (s\<lparr>slock := (slock s)\<lparr>locked := True\<rparr>, spc := (spc s)(h := Swapped)\<rparr>)"
| store_cpu: "spc s h = Swapped \<Longrightarrow>
     spin_step s (s\<lparr>slock := (slock s)\<lparr>lcpu := Some h\<rparr>, spc := (spc s)(h := Inside)\<rparr>)"
| release_enter: "spc s h = Inside \<Longrightarrow> spin_holding s h \<Longrightarrow>
     spin_step s (s\<lparr>slock := (slock s)\<lparr>lcpu := None\<rparr>, spc := (spc s)(h := Clearing)\<rparr>)"
| release_panic: "spc s h = Inside \<Longrightarrow> \<not> spin_holding s h \<Longrightarrow>
     spin_step s (s\<lparr>spc := (spc s)(h := Panicked)\<rparr>)"
| unlock: "spc s h = Clearing \<Longrightarrow>
     spin_step s (s\<lparr>slock := (slock s)\<lparr>locked := False\<rparr>, spc := (spc s)(h := Outside)\<rparr>)"

inductive spin_reachable :: "spin \<Rightarrow> bool" where
  start: "spin_reachable spin_init"
| step: "spin_reachable s \<Longrightarrow> spin_step s t \<Longrightarrow> spin_reachable t"

definition owner :: "spin \<Rightarrow> nat \<Rightarrow> bool" where
  "owner s h \<longleftrightarrow> spc s h \<in> {Swapped, Inside, Clearing}"

definition spin_inv :: "spin \<Rightarrow> bool" where
  "spin_inv s \<longleftrightarrow>
     (\<forall>h. owner s h \<longrightarrow> locked (slock s)) \<and>
     (\<forall>h h'. owner s h \<longrightarrow> owner s h' \<longrightarrow> h = h') \<and>
     (\<forall>h. spc s h = Inside \<longleftrightarrow> lcpu (slock s) = Some h) \<and>
     (\<forall>h. spc s h \<noteq> Panicked)"

lemma spin_invD:
  assumes "spin_inv s"
  shows "owner s h \<Longrightarrow> locked (slock s)"
    and "owner s h \<Longrightarrow> owner s h' \<Longrightarrow> h = h'"
    and "spc s h = Inside \<longleftrightarrow> lcpu (slock s) = Some h"
    and "spc s h \<noteq> Panicked"
  using assms unfolding spin_inv_def by blast+

text \<open>\<^verbatim>\<open>holding\<close> answers correctly at every point of every interleaving.\<close>

lemma spin_holding_iff: "spin_inv s \<Longrightarrow> spin_holding s h \<longleftrightarrow> spc s h = Inside"
  using spin_invD(1)[of s h] spin_invD(3)[of s h] by (auto simp: spin_holding_def owner_def)

lemma owner_upd:
  "owner (s\<lparr>spc := (spc s)(h := c)\<rparr>) h' \<longleftrightarrow>
     (if h' = h then c \<in> {Swapped, Inside, Clearing} else owner s h')"
  "owner (s\<lparr>slock := k, spc := (spc s)(h := c)\<rparr>) h' \<longleftrightarrow>
     (if h' = h then c \<in> {Swapped, Inside, Clearing} else owner s h')"
  "owner (s\<lparr>slock := k\<rparr>) h' \<longleftrightarrow> owner s h'"
  by (simp_all add: owner_def)

lemma not_Inside_other:
  "spin_inv s \<Longrightarrow> owner s h \<Longrightarrow> h' \<noteq> h \<Longrightarrow> spc s h' \<noteq> Inside \<and> lcpu (slock s) \<noteq> Some h'"
  using spin_invD(2)[of s h h'] spin_invD(3)[of s h'] by (auto simp: owner_def)

lemma spin_step_inv:
  assumes "spin_step s t" and inv: "spin_inv s"
  shows "spin_inv t"
  using assms(1)
proof cases
  case (acquire_enter h)
  then have "lcpu (slock s) \<noteq> Some h" using spin_invD(3)[OF inv, of h] by simp
  then show ?thesis
    using acquire_enter spin_invD[OF inv] by (auto simp: spin_inv_def owner_upd)
next
  case (acquire_panic h)
  then show ?thesis using spin_holding_iff[OF inv] by simp
next
  case (swap_fails h)
  then show ?thesis
    using spin_invD[OF inv] by (auto simp: spin_inv_def owner_upd)
next
  case (swap_wins h)
  then have "\<not> owner s h'" for h' using spin_invD(1)[OF inv] by blast
  moreover have "lcpu (slock s) \<noteq> Some h"
    using swap_wins spin_invD(3)[OF inv, of h] by simp
  ultimately show ?thesis
    using swap_wins spin_invD(3,4)[OF inv] by (auto simp: spin_inv_def owner_upd)
next
  case (store_cpu h)
  then have "owner s h" by (simp add: owner_def)
  then show ?thesis
    using store_cpu spin_invD[OF inv] not_Inside_other[OF inv, of h]
    by (auto simp: spin_inv_def owner_upd)
next
  case (release_enter h)
  then have "owner s h" by (simp add: owner_def)
  then show ?thesis
    using release_enter spin_invD[OF inv] not_Inside_other[OF inv, of h]
    by (auto simp: spin_inv_def owner_upd)
next
  case (release_panic h)
  then show ?thesis using spin_holding_iff[OF inv] by simp
next
  case (unlock h)
  then have "owner s h" by (simp add: owner_def)
  then have others: "\<not> owner s h'" if "h' \<noteq> h" for h'
    using spin_invD(2)[OF inv, of h h'] that by blast
  have "lcpu (slock s) = None"
    using unlock not_Inside_other[OF inv \<open>owner s h\<close>] spin_invD(3)[OF inv, of h]
    by (cases "lcpu (slock s)") auto
  then show ?thesis
    using unlock others spin_invD(3,4)[OF inv]
    by (auto simp: spin_inv_def owner_upd split: if_splits)
qed

lemma spin_reachable_inv: "spin_reachable s \<Longrightarrow> spin_inv s"
proof (induction rule: spin_reachable.induct)
  case start
  show ?case by (simp add: spin_inv_def spin_init_def owner_def)
next
  case (step s t)
  then show ?case by (blast intro: spin_step_inv)
qed

section \<open>Properties\<close>

text \<open>
  C30. Mutual exclusion. In every interleaving of \<^verbatim>\<open>acquire\<close> and \<^verbatim>\<open>release\<close> on any number of harts
  no two harts are inside the critical section, \<^verbatim>\<open>holding\<close> is true exactly for the hart that is
  inside, and no hart panics.
\<close>

theorem spin_mutual_exclusion:
  assumes "spin_reachable s"
  shows "(spc s h = Inside \<and> spc s h' = Inside \<longrightarrow> h = h') \<and> (spin_holding s h \<longleftrightarrow> spc s h = Inside)
    \<and> spc s h \<noteq> Panicked"
  using spin_invD[OF spin_reachable_inv[OF assms]] spin_holding_iff[OF spin_reachable_inv[OF assms]]
  by (auto simp: owner_def)

definition spin_example :: spin where
  "spin_example = \<lparr>slock = \<lparr>locked = True, lname = [], lcpu = Some 0\<rparr>,
     spc = (\<lambda>_. Outside)(0 := Inside, 1 := Spinning)\<rparr>"

lemma spin_example_reachable: "spin_reachable spin_example"
proof -
  let ?a = "spin_init\<lparr>spc := (spc spin_init)(0 := Spinning)\<rparr>"
  let ?b = "?a\<lparr>slock := (slock ?a)\<lparr>locked := True\<rparr>, spc := (spc ?a)(0 := Swapped)\<rparr>"
  let ?c = "?b\<lparr>slock := (slock ?b)\<lparr>lcpu := Some 0\<rparr>, spc := (spc ?b)(0 := Inside)\<rparr>"
  let ?d = "?c\<lparr>spc := (spc ?c)(1 := Spinning)\<rparr>"
  have "spin_reachable ?a"
    by (rule spin_reachable.step[OF spin_reachable.start acquire_enter]) (simp_all add: spin_init_def spin_holding_def)
  then have "spin_reachable ?b" by (rule spin_reachable.step[OF _ swap_wins]) (simp_all add: spin_init_def)
  then have "spin_reachable ?c" by (rule spin_reachable.step[OF _ store_cpu]) simp
  then have "spin_reachable ?d"
    by (rule spin_reachable.step[OF _ acquire_enter]) (simp_all add: spin_init_def spin_holding_def)
  moreover have "?d = spin_example" by (simp add: spin_init_def spin_example_def)
  ultimately show ?thesis by simp
qed

theorem spin_mutual_exclusion_witness:
  "spc spin_example 0 = Inside \<and> spc spin_example 1 = Spinning \<and> spin_holding spin_example 0
   \<and> \<not> spin_holding spin_example 1"
  using spin_mutual_exclusion[OF spin_example_reachable, of 0 0]
    spin_mutual_exclusion[OF spin_example_reachable, of 1 1]
  by (simp add: spin_example_def)

text \<open>
  C31. A critical section restores the interrupt state. \<^verbatim>\<open>acquire\<close> of a free lock succeeds, the hart
  then holds the lock with interrupts off, and the matching \<^verbatim>\<open>release\<close> frees the lock and gives the
  interrupt bit and the nesting depth back as they were; a second \<^verbatim>\<open>acquire\<close> inside panics.
\<close>

theorem acquire_release_restores:
  assumes "lock_free l (lk s)" and "hart_ok (lk s)"
  shows "\<exists>s1 s2. acquire l s = Some s1 \<and> holding l (lk s1) \<and> \<not> intr_get (lk s1)
    \<and> acquire l s1 = None \<and> release l s1 = Some s2 \<and> lock_free l (lk s2)
    \<and> intr_get (lk s2) = intr_get (lk s) \<and> noff (mycpu (lk s2)) = noff (mycpu (lk s))
    \<and> release l s2 = None"
proof -
  have "release l (s\<lparr>lk := settle (lk s)\<rparr>) = None"
    using assms(1) by (intro release_not_held) (simp add: holding_def lock_free_def)
  then show ?thesis
    using assms acquire_held[of l "s\<lparr>lk := taken l (lk s)\<rparr>"] by (simp add: lock_simps)
qed

text \<open>\<open>idle_lk p\<close>: hart 0 runs \<open>p\<close> with interrupts on, and every lock is free.\<close>

definition idle_lk :: "nat option \<Rightarrow> lockst" where
  "idle_lk p = \<lparr>tp = 0, sie = (\<lambda>_. True), cpus = (\<lambda>h. \<lparr>cproc = (if h = 0 then p else None), noff = 0, intena = False\<rparr>),
     locks = (\<lambda>_. \<lparr>locked = False, lname = [], lcpu = None\<rparr>)\<rparr>"

lemma idle_lk_simps [simp]: "lock_free l (idle_lk p)" "hart_ok (idle_lk p)" "noff (mycpu (idle_lk p)) = 0"
  "cproc (mycpu (idle_lk p)) = p" "intr_get (idle_lk p)"
  by (simp_all add: idle_lk_def lock_free_def hart_ok_def cpu_defs)

theorem acquire_release_restores_witness:
  "\<exists>s1 s2. acquire KmemLock \<lparr>lk = idle_lk (Some 1)\<rparr> = Some s1 \<and> \<not> intr_get (lk s1)
    \<and> release KmemLock s1 = Some s2 \<and> intr_get (lk s2)"
  using acquire_release_restores[of KmemLock "\<lparr>lk = idle_lk (Some 1)\<rparr>"] by force

end
