(* ===== verification/Kalloc.thy ===== *)
theory Kalloc
  imports Spinlock
begin

text \<open>
  The physical page allocator, \<^verbatim>\<open>kernel/kalloc.c\<close>. The free list is intrusive: the first
  eight bytes of a free page hold the address of the next one, in the same byte memory the
  rest of the kernel uses, so a client that writes into a page it has freed would corrupt
  the list here too. \<open>kend\<close> is the linker symbol \<^verbatim>\<open>end\<close>.

  \<open>flist\<close> abstracts the linked pages to a list; \<open>kmem_inv\<close> says the list holds
  valid pages without repetition. The locale \<open>page_pool\<close> states what the clients of the
  allocator rely on and is interpreted on \<open>kalloc\<close> and \<open>kfree\<close>.
\<close>

record kmem = kernel +
  mem :: memory
  freelist :: nat
  kend :: nat

section \<open>The operations\<close>

definition is_valid_pa :: "nat \<Rightarrow> 'z kmem_scheme \<Rightarrow> bool" where
  "is_valid_pa pa s \<longleftrightarrow> pa mod PGSIZE = 0 \<and> kend s \<le> pa \<and> pa < PHYSTOP"

definition freelist_push :: "nat \<Rightarrow> 'z kmem_scheme \<Rightarrow> 'z kmem_scheme" where
  "freelist_push r s =
     (let s = s\<lparr>mem := store64 r (of_nat (freelist s)) (mem s)\<rparr> in s\<lparr>freelist := r\<rparr>)"

definition freelist_pop :: "'z kmem_scheme \<Rightarrow> nat \<times> 'z kmem_scheme" where
  "freelist_pop s =
     (let r = freelist s
      in (r, if r \<noteq> 0 then s\<lparr>freelist := unat (load64 (mem s) r)\<rparr> else s))"

definition kfree :: "nat \<Rightarrow> 'z kmem_scheme \<Rightarrow> 'z kmem_scheme option" where
  "kfree pa s =
     (if \<not> is_valid_pa pa s then None
      else do {
        let s = s\<lparr>mem := memset pa 1 PGSIZE (mem s)\<rparr>;
        s \<leftarrow> acquire KmemLock s;
        let s = freelist_push pa s;
        release KmemLock s
      })"

definition kalloc :: "'z kmem_scheme \<Rightarrow> (nat \<times> 'z kmem_scheme) option" where
  "kalloc s = do {
     s \<leftarrow> acquire KmemLock s;
     let (r, s) = freelist_pop s;
     s \<leftarrow> release KmemLock s;
     Some (r, if r \<noteq> 0 then s\<lparr>mem := memset r 5 PGSIZE (mem s)\<rparr> else s)
   }"

function freerange_loop :: "nat \<Rightarrow> nat \<Rightarrow> 'z kmem_scheme \<Rightarrow> 'z kmem_scheme option" where
  "freerange_loop p pa_end s =
     (if p + PGSIZE \<le> pa_end
      then (case kfree p s of None \<Rightarrow> None | Some s' \<Rightarrow> freerange_loop (p + PGSIZE) pa_end s')
      else Some s)"
  by pat_completeness auto
termination
  by (relation "measure (\<lambda>(p, e, s). e - p)") (auto simp: PGSIZE_def)

declare freerange_loop.simps [simp del]

definition freerange :: "nat \<Rightarrow> nat \<Rightarrow> 'z kmem_scheme \<Rightarrow> 'z kmem_scheme option" where
  "freerange pa_start pa_end s = freerange_loop (unat (PGROUNDUP (of_nat pa_start))) pa_end s"

definition kinit :: "'z kmem_scheme \<Rightarrow> 'z kmem_scheme option" where
  "kinit s = (let s = s\<lparr>lk := initlock KmemLock ''kmem'' (lk s)\<rparr> in freerange (kend s) PHYSTOP s)"

section \<open>The linked free list\<close>

fun flist :: "memory \<Rightarrow> nat \<Rightarrow> nat list \<Rightarrow> bool" where
  "flist m r [] \<longleftrightarrow> r = 0"
| "flist m r (x # xs) \<longleftrightarrow> r = x \<and> x \<noteq> 0 \<and> flist m (unat (load64 m x)) xs"

definition page :: "nat \<Rightarrow> nat set" where
  "page pa = {pa ..< pa + PGSIZE}"

definition kmem_inv :: "'z kmem_scheme \<Rightarrow> nat list \<Rightarrow> bool" where
  "kmem_inv s xs \<longleftrightarrow> flist (mem s) (freelist s) xs \<and> distinct xs
     \<and> (\<forall>x\<in>set xs. is_valid_pa x s) \<and> 0 < kend s"

lemma flist_unique: "flist m r xs \<Longrightarrow> flist m r ys \<Longrightarrow> xs = ys"
proof (induction xs arbitrary: r ys)
  case Nil
  then show ?case by (cases ys) auto
next
  case (Cons x xs)
  then show ?case by (cases ys) auto
qed

lemma flist_cong:
  "(\<And>x i. x \<in> set xs \<Longrightarrow> i < 8 \<Longrightarrow> m (x + i) = m' (x + i)) \<Longrightarrow> flist m r xs = flist m' r xs"
proof (induction xs arbitrary: r)
  case (Cons x xs)
  have "load64 m x = load64 m' x" by (rule load64_cong) (simp add: Cons.prems)
  moreover have "flist m (unat (load64 m x)) xs = flist m' (unat (load64 m x)) xs"
    by (rule Cons.IH) (simp add: Cons.prems)
  ultimately show ?case by simp
qed simp

lemma page_disjoint:
  assumes "a mod PGSIZE = 0" and "b mod PGSIZE = 0" and "a \<noteq> b"
  shows "page a \<inter> page b = {}"
proof -
  obtain i j where "a = PGSIZE * i" "b = PGSIZE * j"
    using assms(1,2) by (metis mod_eq_0_iff_dvd dvdE)
  with assms(3) have "i < j \<or> j < i" by auto
  then have "PGSIZE * i + PGSIZE \<le> PGSIZE * j \<or> PGSIZE * j + PGSIZE \<le> PGSIZE * i"
    by (metis Suc_leI add.commute mult_Suc_right mult_le_mono2)
  then show ?thesis using \<open>a = PGSIZE * i\<close> \<open>b = PGSIZE * j\<close> by (auto simp: page_def)
qed

lemma is_valid_pa_cong [simp]:
  "is_valid_pa pa (s\<lparr>lk := L\<rparr>) = is_valid_pa pa s"
  "is_valid_pa pa (s\<lparr>mem := m\<rparr>) = is_valid_pa pa s"
  "is_valid_pa pa (s\<lparr>freelist := f\<rparr>) = is_valid_pa pa s"
  by (simp_all add: is_valid_pa_def)

lemma kmem_inv_lk [simp]: "kmem_inv (s\<lparr>lk := L\<rparr>) xs = kmem_inv s xs"
  by (simp add: kmem_inv_def)

lemma kmem_inv_valid: "kmem_inv s xs \<Longrightarrow> x \<in> set xs \<Longrightarrow> is_valid_pa x s \<and> 0 < x"
  by (auto simp: kmem_inv_def is_valid_pa_def)

lemma kmem_inv_freelist: "kmem_inv s xs \<Longrightarrow> freelist s = (case xs of [] \<Rightarrow> 0 | x # _ \<Rightarrow> x)"
  by (cases xs) (auto simp: kmem_inv_def)

lemma is_valid_pa_bound: "is_valid_pa pa s \<Longrightarrow> pa < 18446744073709551616"
  by (simp add: is_valid_pa_def PHYSTOP_def KERNBASE_def)

lemma kmem_inv_freelist_bound: "kmem_inv s xs \<Longrightarrow> freelist s < 18446744073709551616"
  using kmem_inv_freelist[of s xs] is_valid_pa_bound[of "freelist s" s]
  by (cases xs) (auto simp: kmem_inv_def)

text \<open>Writing outside the free pages keeps the invariant.\<close>

lemma kmem_inv_mem:
  assumes "kmem_inv s xs" and "\<And>x i. x \<in> set xs \<Longrightarrow> i \<in> page x \<Longrightarrow> m i = mem s i"
  shows "kmem_inv (s\<lparr>mem := m\<rparr>) xs"
proof -
  have "flist m (freelist s) xs = flist (mem s) (freelist s) xs"
    by (rule flist_cong) (simp add: assms(2) page_def PGSIZE_def)
  then show ?thesis using assms(1) by (simp add: kmem_inv_def)
qed

section \<open>What the operations do\<close>

lemma kalloc_eq:
  assumes "hart_ok (lk s)" and "lock_free KmemLock (lk s)"
  shows "kalloc s = Some (freelist s,
    if freelist s = 0 then s\<lparr>lk := settle (lk s)\<rparr>
    else s\<lparr>lk := settle (lk s), freelist := unat (load64 (mem s) (freelist s)),
           mem := memset (freelist s) 5 PGSIZE (mem s)\<rparr>)"
  using assms by (simp add: kalloc_def freelist_pop_def lock_simps Let_def)

lemma kfree_eq:
  assumes "hart_ok (lk s)" and "lock_free KmemLock (lk s)" and "is_valid_pa pa s"
  shows "kfree pa s = Some (s\<lparr>lk := settle (lk s),
    mem := store64 pa (of_nat (freelist s)) (memset pa 1 PGSIZE (mem s)), freelist := pa\<rparr>)"
  using assms by (simp add: kfree_def freelist_push_def lock_simps Let_def)

lemma kalloc_empty:
  assumes "hart_ok (lk s)" "lock_free KmemLock (lk s)" "kmem_inv s []"
  shows "kalloc s = Some (0, s\<lparr>lk := settle (lk s)\<rparr>)"
  using assms kmem_inv_freelist[OF assms(3)] by (simp add: kalloc_eq)

lemma kalloc_Cons:
  assumes "hart_ok (lk s)" "lock_free KmemLock (lk s)" "kmem_inv s (x # xs)"
  shows "kalloc s = Some (x, s\<lparr>lk := settle (lk s), freelist := (case xs of [] \<Rightarrow> 0 | y # _ \<Rightarrow> y),
           mem := memset x 5 PGSIZE (mem s)\<rparr>)"
proof -
  have "freelist s = x" "x \<noteq> 0" "flist (mem s) (unat (load64 (mem s) x)) xs"
    using assms(3) by (auto simp: kmem_inv_def)
  moreover have "unat (load64 (mem s) x) = (case xs of [] \<Rightarrow> 0 | y # _ \<Rightarrow> y)"
    using \<open>flist (mem s) (unat (load64 (mem s) x)) xs\<close> by (cases xs) auto
  ultimately show ?thesis using assms(1,2) by (simp add: kalloc_eq)
qed

lemma kmem_inv_after_kalloc:
  assumes "kmem_inv s (x # xs)" "\<And>i. i \<notin> page x \<Longrightarrow> m i = mem s i"
  shows "kmem_inv (s\<lparr>lk := L, freelist := (case xs of [] \<Rightarrow> 0 | y # _ \<Rightarrow> y), mem := m\<rparr>) xs"
proof -
  have fl: "flist (mem s) (unat (load64 (mem s) x)) xs" and d: "distinct (x # xs)"
    and v: "\<forall>y\<in>set (x # xs). is_valid_pa y s" "0 < kend s"
    using assms(1) by (auto simp: kmem_inv_def)
  have "(case xs of [] \<Rightarrow> 0 | y # _ \<Rightarrow> y) = unat (load64 (mem s) x)"
    using fl by (cases xs) auto
  moreover have "m i = mem s i" if "y \<in> set xs" "i \<in> page y" for y i
    using page_disjoint[of x y] v d that assms(2)[of i] by (auto simp: is_valid_pa_def)
  then have "flist m r xs = flist (mem s) r xs" for r
    by (intro flist_cong) (simp add: page_def PGSIZE_def)
  ultimately show ?thesis using fl d v by (simp add: kmem_inv_def)
qed

lemma kmem_inv_after_kfree:
  assumes "kmem_inv s xs" "is_valid_pa pa s" "pa \<notin> set xs"
  shows "kmem_inv (s\<lparr>lk := L, mem := store64 pa (of_nat (freelist s)) (memset pa 1 PGSIZE (mem s)),
           freelist := pa\<rparr>) (pa # xs)"
proof -
  let ?m = "store64 pa (of_nat (freelist s)) (memset pa 1 PGSIZE (mem s))"
  have inv: "flist (mem s) (freelist s) xs" "\<forall>y\<in>set xs. is_valid_pa y s" "distinct xs" "0 < kend s"
    using assms(1) by (auto simp: kmem_inv_def)
  have "?m i = mem s i" if "y \<in> set xs" "i \<in> page y" for y i
  proof -
    have "i \<notin> page pa"
      using page_disjoint[of pa y] inv(2) assms(2,3) that by (auto simp: is_valid_pa_def)
    then show ?thesis by (auto simp: page_def PGSIZE_def memset_apply store64_def)
  qed
  then have "flist ?m r xs = flist (mem s) r xs" for r
    by (intro flist_cong) (simp add: page_def PGSIZE_def)
  moreover have "freelist s < 18446744073709551616"
    by (rule kmem_inv_freelist_bound[OF assms(1)])
  then have "unat (load64 ?m pa) = freelist s"
    by (simp add: mem_simps unat_of_nat_64)
  ultimately show ?thesis
    using inv assms(2,3) by (auto simp: kmem_inv_def is_valid_pa_def)
qed

section \<open>The interface of the allocator\<close>

locale page_pool =
  fixes alloc :: "'s \<Rightarrow> (nat \<times> 's) option"
    and dealloc :: "nat \<Rightarrow> 's \<Rightarrow> 's option"
    and pool :: "'s \<Rightarrow> nat list \<Rightarrow> bool"
    and bytes :: "'s \<Rightarrow> memory"
    and owned :: "nat \<Rightarrow> 's \<Rightarrow> bool"
  assumes alloc_none: "pool s [] \<Longrightarrow> \<exists>s'. alloc s = Some (0, s') \<and> pool s' [] \<and> bytes s' = bytes s"
    and alloc_some: "pool s (x # xs) \<Longrightarrow> \<exists>s'. alloc s = Some (x, s') \<and> pool s' xs \<and> owned x s'
      \<and> (\<forall>i. i \<notin> page x \<longrightarrow> bytes s' i = bytes s i)"
    and dealloc_ok: "pool s xs \<Longrightarrow> owned x s \<Longrightarrow> x \<notin> set xs \<Longrightarrow>
      \<exists>s'. dealloc x s = Some s' \<and> pool s' (x # xs) \<and> (\<forall>i. i \<notin> page x \<longrightarrow> bytes s' i = bytes s i)"
    and pool_distinct: "pool s xs \<Longrightarrow> distinct xs \<and> 0 \<notin> set xs"
begin

fun alloc_many :: "nat \<Rightarrow> 's \<Rightarrow> (nat list \<times> 's) option" where
  "alloc_many 0 s = Some ([], s)"
| "alloc_many (Suc n) s =
     (case alloc s of None \<Rightarrow> None
      | Some (p, s) \<Rightarrow> (case alloc_many n s of None \<Rightarrow> None | Some (ps, s) \<Rightarrow> Some (p # ps, s)))"

text \<open>Pages handed out by successive calls are the pool's, in its order, hence distinct.\<close>

lemma alloc_many_pool:
  "pool s xs \<Longrightarrow> n \<le> length xs \<Longrightarrow>
     \<exists>s'. alloc_many n s = Some (take n xs, s') \<and> pool s' (drop n xs)"
proof (induction n arbitrary: s xs)
  case 0
  then show ?case by simp
next
  case (Suc n)
  then obtain x ys where xs: "xs = x # ys" by (cases xs) auto
  with Suc.prems obtain s' where "alloc s = Some (x, s')" "pool s' ys"
    using alloc_some[of s x ys] by blast
  then show ?case using Suc.IH[of s' ys] Suc.prems xs by auto
qed

lemma alloc_many_distinct:
  assumes "pool s xs" and "n \<le> length xs" and "alloc_many n s = Some (ps, s')"
  shows "distinct ps \<and> 0 \<notin> set ps \<and> length ps = n"
  using alloc_many_pool[OF assms(1,2)] assms pool_distinct[OF assms(1)]
    distinct_take[of xs n] set_take_subset[of n xs] by auto

text \<open>Freeing what was just allocated makes it the next page handed out.\<close>

lemma alloc_dealloc:
  assumes "pool s (x # xs)"
  shows "\<exists>s1 s2. alloc s = Some (x, s1) \<and> dealloc x s1 = Some s2 \<and> pool s2 (x # xs)"
proof -
  obtain s1 where s1: "alloc s = Some (x, s1)" "pool s1 xs" "owned x s1"
    using alloc_some[OF assms] by blast
  moreover have "x \<notin> set xs" using pool_distinct[OF assms] by simp
  ultimately show ?thesis using dealloc_ok[of s1 xs x] by blast
qed

end

definition kpool :: "'z kmem_scheme \<Rightarrow> nat list \<Rightarrow> bool" where
  "kpool s xs \<longleftrightarrow> hart_ok (lk s) \<and> lock_free KmemLock (lk s) \<and> kmem_inv s xs"

interpretation kmem_pool: page_pool kalloc kfree kpool mem is_valid_pa
proof (unfold_locales, goal_cases)
  case (1 s)
  then show ?case by (auto simp: kpool_def kalloc_empty)
next
  case (2 s x xs)
  then have "kmem_inv s (x # xs)" by (simp add: kpool_def)
  then have "is_valid_pa x s" by (simp add: kmem_inv_def)
  moreover have "kmem_inv (s\<lparr>lk := settle (lk s), freelist := (case xs of [] \<Rightarrow> 0 | y # _ \<Rightarrow> y),
           mem := memset x 5 PGSIZE (mem s)\<rparr>) xs"
    by (rule kmem_inv_after_kalloc[OF \<open>kmem_inv s (x # xs)\<close>]) (auto simp: memset_apply page_def)
  ultimately show ?case
    using 2 by (auto simp: kpool_def kalloc_Cons memset_apply page_def)
next
  case (3 s xs x)
  then show ?case
    using kmem_inv_after_kfree[of s xs x "settle (lk s)"]
    by (auto simp: kpool_def kfree_eq memset_apply store64_def page_def PGSIZE_def)
next
  case (4 s xs)
  then show ?case by (auto simp: kpool_def kmem_inv_def is_valid_pa_def)
qed

section \<open>Initialisation\<close>

definition page_range :: "nat \<Rightarrow> nat \<Rightarrow> nat list" where
  "page_range p e = map (\<lambda>k. p + PGSIZE * k) [0..<(e - p) div PGSIZE]"

lemma page_range_Cons:
  assumes "p + PGSIZE \<le> e"
  shows "page_range p e = p # page_range (p + PGSIZE) e"
proof -
  have "(e - p) div PGSIZE = Suc ((e - (p + PGSIZE)) div PGSIZE)"
    using assms by (simp add: PGSIZE_def le_div_geq)
  moreover have "map (\<lambda>k. p + PGSIZE * k) [1..<Suc n] = map (\<lambda>k. p + PGSIZE + PGSIZE * k) [0..<n]" for n
    by (simp add: map_Suc_upt[symmetric] del: upt_Suc)
  ultimately show ?thesis
    by (simp add: page_range_def upt_conv_Cons del: upt_Suc)
qed

lemma page_range_Nil: "\<not> p + PGSIZE \<le> e \<Longrightarrow> page_range p e = []"
  by (simp add: page_range_def PGSIZE_def)

lemma freerange_loop_pool:
  assumes "kpool s xs" and "p mod PGSIZE = 0" and "kend s \<le> p" and "e \<le> PHYSTOP"
    and "\<And>x. x \<in> set xs \<Longrightarrow> x < p"
  shows "\<exists>s'. freerange_loop p e s = Some s' \<and> kpool s' (rev (page_range p e) @ xs)"
  using assms
proof (induction "e - p" arbitrary: p s xs rule: less_induct)
  case less
  show ?case
  proof (cases "p + PGSIZE \<le> e")
    case False
    then show ?thesis
      using less.prems by (subst freerange_loop.simps) (simp add: page_range_Nil)
  next
    case True
    have valid: "is_valid_pa p s"
      using less.prems True by (simp add: is_valid_pa_def PGSIZE_def)
    moreover have "p \<notin> set xs" using less.prems(5) by blast
    ultimately obtain s1 where s1: "kfree p s = Some s1" "kpool s1 (p # xs)"
      using kmem_pool.dealloc_ok[OF less.prems(1)] by blast
    have kend: "kend s1 = kend s"
      using s1(1) valid less.prems(1) by (auto simp: kpool_def kfree_eq)
    have "\<exists>s'. freerange_loop (p + PGSIZE) e s1 = Some s'
        \<and> kpool s' (rev (page_range (p + PGSIZE) e) @ p # xs)"
      using less.prems s1(2) kend True
      by (intro less.hyps) (force simp: PGSIZE_def)+
    then show ?thesis
      using True s1(1) by (subst freerange_loop.simps) (simp add: page_range_Cons)
  qed
qed

text \<open>
  After \<^verbatim>\<open>kinit\<close> the pool holds exactly the whole pages between \<^verbatim>\<open>end\<close> and \<^verbatim>\<open>PHYSTOP\<close>.
\<close>

lemma kinit_pool:
  assumes "hart_ok (lk s)" and "0 < kend s" and "kend s < PHYSTOP" and "freelist s = 0"
  shows "\<exists>s'. kinit s = Some s' \<and>
     kpool s' (rev (page_range ((kend s + 4095) div 4096 * 4096) PHYSTOP))"
proof -
  let ?s = "s\<lparr>lk := initlock KmemLock ''kmem'' (lk s)\<rparr>"
  let ?p = "unat (PGROUNDUP (of_nat (kend s)))"
  have lt: "kend s < 2281701376" using assms(3) by (simp add: PHYSTOP_def KERNBASE_def)
  then have p: "?p = (kend s + 4095) div 4096 * 4096"
    by (subst PGROUNDUP_unat) (simp_all add: unat_of_nat_64)
  have "kpool ?s []"
    using assms by (simp add: kpool_def kmem_inv_def initlock_def lock_free_def hart_ok_def cpu_defs)
  moreover have "kend ?s \<le> ?p" unfolding p using round_up_ge[of "kend s"] by simp
  ultimately have "\<exists>s'. freerange_loop ?p PHYSTOP ?s = Some s' \<and> kpool s' (rev (page_range ?p PHYSTOP) @ [])"
    unfolding p by (intro freerange_loop_pool) (simp_all add: PGSIZE_def)
  then show ?thesis by (simp add: kinit_def freerange_def p)
qed

section \<open>Properties\<close>

lemma set_page_range:
  "p mod PGSIZE = 0 \<Longrightarrow> set (page_range p e) = {pa. pa mod PGSIZE = 0 \<and> p \<le> pa \<and> pa + PGSIZE \<le> e}"
proof (intro set_eqI iffI)
  fix pa assume p: "p mod PGSIZE = 0" and "pa \<in> {pa. pa mod PGSIZE = 0 \<and> p \<le> pa \<and> pa + PGSIZE \<le> e}"
  then have pa: "pa mod PGSIZE = 0" "p \<le> pa" "pa + PGSIZE \<le> e" by simp_all
  then have eq: "pa = p + PGSIZE * ((pa - p) div PGSIZE)"
    using p by (metis add_diff_cancel_left' dvd_mult_div_cancel dvd_diff_nat le_add_diff_inverse mod_0_imp_dvd)
  have "(pa - p) div PGSIZE < (e - p) div PGSIZE"
    using pa le_div_geq[of PGSIZE "e - p"] div_le_mono[of "pa - p" "e - p - PGSIZE" PGSIZE] by (simp add: PGSIZE_def)
  then show "pa \<in> set (page_range p e)" using eq by (auto simp: page_range_def)
next
  fix pa assume p: "p mod PGSIZE = 0" and "pa \<in> set (page_range p e)"
  then obtain k where k: "pa = p + PGSIZE * k" "k < (e - p) div PGSIZE"
    unfolding page_range_def by (metis (no_types, lifting) atLeastLessThan_iff imageE list.set_map set_upt)
  then have "PGSIZE * Suc k \<le> PGSIZE * ((e - p) div PGSIZE)" by (intro mult_le_mono2) simp
  also have "\<dots> \<le> e - p" by simp
  finally show "pa \<in> {pa. pa mod PGSIZE = 0 \<and> p \<le> pa \<and> pa + PGSIZE \<le> e}"
    using p k by (auto simp: PGSIZE_def)
qed

text \<open>
  C32. The allocator owns all free memory. \<^verbatim>\<open>kinit\<close> returns, and afterwards successive calls of
  \<^verbatim>\<open>kalloc\<close> hand out every whole page between \<^verbatim>\<open>end\<close> and \<^verbatim>\<open>PHYSTOP\<close> exactly once; the call after
  the last page returns 0.
\<close>

theorem kinit_owns_all_pages:
  assumes "hart_ok (lk s)" and "0 < kend s" and "kend s < PHYSTOP" and "freelist s = 0"
  shows "\<exists>s1 s2 s3 ps. kinit s = Some s1 \<and> kmem_pool.alloc_many (length ps) s1 = Some (ps, s2)
    \<and> distinct ps \<and> set ps = {pa. pa mod PGSIZE = 0 \<and> kend s \<le> pa \<and> pa + PGSIZE \<le> PHYSTOP}
    \<and> kalloc s2 = Some (0, s3)"
proof -
  let ?e = "(kend s + 4095) div 4096 * 4096"
  let ?ps = "rev (page_range ?e PHYSTOP)"
  obtain s1 where s1: "kinit s = Some s1" "kpool s1 ?ps" using kinit_pool[OF assms] by blast
  obtain s2 where s2: "kmem_pool.alloc_many (length ?ps) s1 = Some (?ps, s2)" "kpool s2 []"
    using kmem_pool.alloc_many_pool[OF s1(2), of "length ?ps"] by auto
  obtain s3 where "kalloc s2 = Some (0, s3)" using kmem_pool.alloc_none[OF s2(2)] by blast
  moreover have "distinct ?ps" using kmem_pool.pool_distinct[OF s1(2)] by simp
  moreover have "set ?ps = {pa. pa mod PGSIZE = 0 \<and> kend s \<le> pa \<and> pa + PGSIZE \<le> PHYSTOP}"
  proof -
    have "?e \<le> pa \<longleftrightarrow> kend s \<le> pa" if "pa mod 4096 = 0" for pa
    proof -
      have "pa = 4096 * (pa div 4096)" using that by auto
      moreover have "(kend s + 4095) div 4096 \<le> pa div 4096 \<longleftrightarrow> kend s \<le> 4096 * (pa div 4096)"
        using less_Suc_eq_le div_less_iff_less_mult[of 4096 "kend s + 4095" "Suc (pa div 4096)"] by auto
      moreover have "(kend s + 4095) div 4096 * 4096 \<le> 4096 * (pa div 4096) \<longleftrightarrow> (kend s + 4095) div 4096 \<le> pa div 4096"
        by (simp add: mult.commute)
      ultimately show ?thesis by metis
    qed
    then show ?thesis using set_page_range[of ?e PHYSTOP] by (auto simp: PGSIZE_def)
  qed
  ultimately show ?thesis using s1(1) s2(1) by blast
qed

definition kmem_boot :: kmem where
  "kmem_boot = \<lparr>lk = idle_lk None, mem = (\<lambda>_. 0), freelist = 0, kend = 0x80022000\<rparr>"

theorem kinit_owns_all_pages_witness:
  "\<exists>s1 s2 s3 ps. kinit kmem_boot = Some s1 \<and> kmem_pool.alloc_many (length ps) s1 = Some (ps, s2)
    \<and> 0x80023000 \<in> set ps \<and> 0x80021000 \<notin> set ps \<and> kalloc s2 = Some (0, s3)"
proof -
  obtain s1 s2 s3 ps where *: "kinit kmem_boot = Some s1" "kmem_pool.alloc_many (length ps) s1 = Some (ps, s2)"
    "set ps = {pa. pa mod PGSIZE = 0 \<and> kend kmem_boot \<le> pa \<and> pa + PGSIZE \<le> PHYSTOP}" "kalloc s2 = Some (0, s3)"
    using kinit_owns_all_pages[of kmem_boot] by (auto simp: kmem_boot_def PHYSTOP_def KERNBASE_def)
  moreover from this(3) have "0x80023000 \<in> set ps" "0x80021000 \<notin> set ps"
    by (simp_all add: kmem_boot_def PHYSTOP_def KERNBASE_def PGSIZE_def)
  ultimately show ?thesis by blast
qed

end
