(* ===== verification/ProcTable.thy ===== *)
theory ProcTable
  imports Kalloc
begin

text \<open>
  The process table of \<^verbatim>\<open>kernel/proc.h\<close> and the part of \<^verbatim>\<open>kernel/proc.c\<close> that only needs
  the table and its locks: \<^verbatim>\<open>procinit\<close>, \<^verbatim>\<open>allocpid\<close>, \<^verbatim>\<open>wakeup\<close>, \<^verbatim>\<open>sleep\<close>, \<^verbatim>\<open>sched\<close>,
  \<^verbatim>\<open>yield\<close>, the body of \<^verbatim>\<open>scheduler\<close>, \<^verbatim>\<open>kkill\<close>, \<^verbatim>\<open>setkilled\<close>, \<^verbatim>\<open>killed\<close>.

  A pointer to a table entry is its index. Wait channels, addresses in the source, are the
  constructors of \<open>chan\<close>, one for each object some code sleeps on.

  A context switch leaves one thread of control and enters another, so a function that
  calls \<^verbatim>\<open>swtch\<close> is split there: \<open>f_out\<close> runs up to the switch, \<open>f_in\<close> from its
  return on, with the local variables that live across it as arguments.
\<close>

section \<open>State\<close>

datatype procstate = UNUSED | USED | SLEEPING | RUNNABLE | RUNNING | ZOMBIE

datatype chan =
    ChanProc nat | ChanLog | ChanTicks | ChanConsR | ChanTx
  | ChanPipeRead nat | ChanPipeWrite nat | ChanBufLock nat | ChanInodeLock nat
  | ChanDiskFree | ChanBuf nat

record kcontext =
  ctx_ra :: u64
  ctx_sp :: u64
  ctx_s :: "nat \<Rightarrow> u64"

record proc =
  pstate :: procstate
  pchan :: "chan option"
  pkilled :: bool
  xstate :: int
  pid :: int
  pending_sig :: int
  sig_handler :: int
  parent :: "nat option"
  kstack :: u64
  psz :: u64
  pagetable :: nat
  trapframe :: nat
  pcontext :: kcontext
  ofile :: "nat \<Rightarrow> nat option"
  cwd :: "nat option"
  pname :: carr

record ptable = kmem +
  procs :: "nat \<Rightarrow> proc"
  nextpid :: int
  initproc :: "nat option"

definition upd_proc :: "nat \<Rightarrow> (proc \<Rightarrow> proc) \<Rightarrow> 'z ptable_scheme \<Rightarrow> 'z ptable_scheme" where
  "upd_proc p f s = s\<lparr>procs := (procs s)(p := f (procs s p))\<rparr>"

definition set_cproc :: "nat option \<Rightarrow> 'z kernel_scheme \<Rightarrow> 'z kernel_scheme" where
  "set_cproc p s = s\<lparr>lk := set_mycpu ((mycpu (lk s))\<lparr>cproc := p\<rparr>) (lk s)\<rparr>"

definition set_intena :: "bool \<Rightarrow> 'z kernel_scheme \<Rightarrow> 'z kernel_scheme" where
  "set_intena b s = s\<lparr>lk := set_mycpu ((mycpu (lk s))\<lparr>intena := b\<rparr>) (lk s)\<rparr>"

section \<open>Operations\<close>

definition procinit :: "'z ptable_scheme \<Rightarrow> 'z ptable_scheme" where
  "procinit s =
     (let s = s\<lparr>lk := initlock PidLock ''nextpid'' (lk s)\<rparr>;
          s = s\<lparr>lk := initlock WaitLock ''wait_lock'' (lk s)\<rparr>
      in fold (\<lambda>p s. upd_proc p (\<lambda>x. x\<lparr>pstate := UNUSED, kstack := KSTACK p\<rparr>)
                 (s\<lparr>lk := initlock (ProcLock p) ''proc'' (lk s)\<rparr>)) [0..<NPROC] s)"

definition allocpid :: "'z ptable_scheme \<Rightarrow> (int \<times> 'z ptable_scheme) option" where
  "allocpid s = do {
     s \<leftarrow> acquire PidLock s;
     let pid = nextpid s;
     let s = s\<lparr>nextpid := nextpid s + 1\<rparr>;
     s \<leftarrow> release PidLock s;
     Some (pid, s)
   }"

fun wakeup_from :: "chan option \<Rightarrow> nat list \<Rightarrow> 'z ptable_scheme \<Rightarrow> 'z ptable_scheme option" where
  "wakeup_from c [] s = Some s"
| "wakeup_from c (p # ps) s = do {
     (me, s) \<leftarrow> myproc s;
     s \<leftarrow> (if Some p \<noteq> me then do {
            s \<leftarrow> acquire (ProcLock p) s;
            let s = (if pstate (procs s p) = SLEEPING \<and> pchan (procs s p) = c
                     then upd_proc p (\<lambda>x. x\<lparr>pstate := RUNNABLE\<rparr>) s else s);
            release (ProcLock p) s
          } else Some s);
     wakeup_from c ps s
   }"

definition wakeup :: "chan option \<Rightarrow> 'z ptable_scheme \<Rightarrow> 'z ptable_scheme option" where
  "wakeup c s = wakeup_from c [0..<NPROC] s"

definition setkilled :: "nat \<Rightarrow> 'z ptable_scheme \<Rightarrow> 'z ptable_scheme option" where
  "setkilled p s = do {
     s \<leftarrow> acquire (ProcLock p) s;
     let s = upd_proc p (\<lambda>x. x\<lparr>pkilled := True\<rparr>) s;
     release (ProcLock p) s
   }"

definition killed :: "nat \<Rightarrow> 'z ptable_scheme \<Rightarrow> (bool \<times> 'z ptable_scheme) option" where
  "killed p s = do {
     s \<leftarrow> acquire (ProcLock p) s;
     let k = pkilled (procs s p);
     s \<leftarrow> release (ProcLock p) s;
     Some (k, s)
   }"

fun kkill_from :: "int \<Rightarrow> nat list \<Rightarrow> 'z ptable_scheme \<Rightarrow> (int \<times> 'z ptable_scheme) option" where
  "kkill_from k [] s = Some (-1, s)"
| "kkill_from k (p # ps) s = do {
     s \<leftarrow> acquire (ProcLock p) s;
     if pid (procs s p) = k then do {
       let s = upd_proc p (\<lambda>x. x\<lparr>pkilled := True\<rparr>) s;
       let s = (if pstate (procs s p) = SLEEPING
                then upd_proc p (\<lambda>x. x\<lparr>pstate := RUNNABLE\<rparr>) s else s);
       s \<leftarrow> release (ProcLock p) s;
       Some (0, s)
     } else do {
       s \<leftarrow> release (ProcLock p) s;
       kkill_from k ps s
     }
   }"

definition kkill :: "int \<Rightarrow> 'z ptable_scheme \<Rightarrow> (int \<times> 'z ptable_scheme) option" where
  "kkill k s = kkill_from k [0..<NPROC] s"

section \<open>Context switches\<close>

text \<open>
  \<open>sched_out\<close> is \<^verbatim>\<open>sched()\<close> up to \<^verbatim>\<open>swtch\<close>, returning the saved \<^verbatim>\<open>intena\<close>; a process
  with no current process (\<^verbatim>\<open>myproc() == 0\<close>) would dereference null.
\<close>

definition sched_out :: "'z ptable_scheme \<Rightarrow> (bool \<times> 'z ptable_scheme) option" where
  "sched_out s = do {
     (me, s) \<leftarrow> myproc s;
     p \<leftarrow> me;
     if \<not> holding (ProcLock p) (lk s) then None
     else if noff (mycpu (lk s)) \<noteq> 1 then None
     else if pstate (procs s p) = RUNNING then None
     else if intr_get (lk s) then None
     else Some (intena (mycpu (lk s)), s)
   }"

definition sched_in :: "bool \<Rightarrow> 'z ptable_scheme \<Rightarrow> 'z ptable_scheme" where
  "sched_in ie s = set_intena ie s"

definition yield_out :: "'z ptable_scheme \<Rightarrow> (bool \<times> 'z ptable_scheme) option" where
  "yield_out s = do {
     (me, s) \<leftarrow> myproc s;
     p \<leftarrow> me;
     s \<leftarrow> acquire (ProcLock p) s;
     let s = upd_proc p (\<lambda>x. x\<lparr>pstate := RUNNABLE\<rparr>) s;
     sched_out s
   }"

definition yield_in :: "nat \<Rightarrow> bool \<Rightarrow> 'z ptable_scheme \<Rightarrow> 'z ptable_scheme option" where
  "yield_in p ie s = release (ProcLock p) (sched_in ie s)"

definition sleep_out :: "chan option \<Rightarrow> lockid \<Rightarrow> 'z ptable_scheme \<Rightarrow> (bool \<times> 'z ptable_scheme) option" where
  "sleep_out c l s = do {
     (me, s) \<leftarrow> myproc s;
     p \<leftarrow> me;
     s \<leftarrow> acquire (ProcLock p) s;
     s \<leftarrow> release l s;
     let s = upd_proc p (\<lambda>x. x\<lparr>pchan := c\<rparr>) s;
     let s = upd_proc p (\<lambda>x. x\<lparr>pstate := SLEEPING\<rparr>) s;
     sched_out s
   }"

definition sleep_in :: "nat \<Rightarrow> lockid \<Rightarrow> bool \<Rightarrow> 'z ptable_scheme \<Rightarrow> 'z ptable_scheme option" where
  "sleep_in p l ie s = do {
     let s = sched_in ie s;
     let s = upd_proc p (\<lambda>x. x\<lparr>pchan := None\<rparr>) s;
     s \<leftarrow> release (ProcLock p) s;
     acquire l s
   }"

text \<open>
  The scheduler's side: \<open>dispatch\<close> is the loop body of \<^verbatim>\<open>scheduler()\<close> for entry \<open>p\<close> up
  to \<^verbatim>\<open>swtch\<close>, its result telling whether the switch happens; \<open>reschedule\<close> is the rest
  of the body, after the process switched back.
\<close>

definition scheduler_start :: "'z ptable_scheme \<Rightarrow> 'z ptable_scheme" where
  "scheduler_start s = set_cproc None s"

definition scheduler_round :: "'z ptable_scheme \<Rightarrow> 'z ptable_scheme" where
  "scheduler_round s = s\<lparr>lk := intr_off (intr_on (lk s))\<rparr>"

definition dispatch :: "nat \<Rightarrow> 'z ptable_scheme \<Rightarrow> (bool \<times> 'z ptable_scheme) option" where
  "dispatch p s = do {
     s \<leftarrow> acquire (ProcLock p) s;
     if pstate (procs s p) = RUNNABLE then do {
       let s = upd_proc p (\<lambda>x. x\<lparr>pstate := RUNNING\<rparr>) s;
       let s = set_cproc (Some p) s;
       Some (True, s)
     } else do {
       s \<leftarrow> release (ProcLock p) s;
       Some (False, s)
     }
   }"

definition reschedule :: "nat \<Rightarrow> 'z ptable_scheme \<Rightarrow> 'z ptable_scheme option" where
  "reschedule p s = do {
     let s = set_cproc None s;
     release (ProcLock p) s
   }"

section \<open>Facts about the table operations\<close>

lemma procs_upd_proc [simp]:
  "procs (upd_proc p f s) = (procs s)(p := f (procs s p))"
  "lk (upd_proc p f s) = lk s" "mem (upd_proc p f s) = mem s"
  "freelist (upd_proc p f s) = freelist s" "kend (upd_proc p f s) = kend s"
  "nextpid (upd_proc p f s) = nextpid s" "initproc (upd_proc p f s) = initproc s"
  "ptable.more (upd_proc p f s) = ptable.more s"
  by (simp_all add: upd_proc_def)

text \<open>Updates of the lock part are moved innermost, so that states compare syntactically.\<close>

lemma lk_innermost [lock_simps]:
  "(procs_update f s)\<lparr>lk := L\<rparr> = procs_update f (s\<lparr>lk := L\<rparr>)"
  "(nextpid_update g s)\<lparr>lk := L\<rparr> = nextpid_update g (s\<lparr>lk := L\<rparr>)"
  "(initproc_update h s)\<lparr>lk := L\<rparr> = initproc_update h (s\<lparr>lk := L\<rparr>)"
  "(upd_proc p k s)\<lparr>lk := L\<rparr> = upd_proc p k (s\<lparr>lk := L\<rparr>)"
  by (simp_all add: upd_proc_def)

text \<open>
  The lock condition under which a table operation runs to its end: the executing hart's
  interrupt discipline holds and the locks it takes are free.
\<close>

definition plocks_free :: "'z ptable_scheme \<Rightarrow> bool" where
  "plocks_free s \<longleftrightarrow> hart_ok (lk s) \<and> (\<forall>p<NPROC. lock_free (ProcLock p) (lk s))"

lemma plocks_freeD: "plocks_free s \<Longrightarrow> hart_ok (lk s)"
  "plocks_free s \<Longrightarrow> p < NPROC \<Longrightarrow> lock_free (ProcLock p) (lk s)"
  by (simp_all add: plocks_free_def)

lemma allocpid_eq:
  assumes "hart_ok (lk s)" "lock_free PidLock (lk s)"
  shows "allocpid s = Some (nextpid s, s\<lparr>lk := settle (lk s), nextpid := nextpid s + 1\<rparr>)"
  using assms by (simp add: allocpid_def lock_simps Let_def)

lemma setkilled_eq:
  assumes "hart_ok (lk s)" "lock_free (ProcLock p) (lk s)"
  shows "setkilled p s = Some (upd_proc p (\<lambda>x. x\<lparr>pkilled := True\<rparr>) (s\<lparr>lk := settle (lk s)\<rparr>))"
  using assms by (simp add: setkilled_def lock_simps Let_def upd_proc_def)

lemma killed_eq:
  assumes "hart_ok (lk s)" "lock_free (ProcLock p) (lk s)"
  shows "killed p s = Some (pkilled (procs s p), s\<lparr>lk := settle (lk s)\<rparr>)"
  using assms by (simp add: killed_def lock_simps Let_def)

definition woken :: "chan option \<Rightarrow> nat option \<Rightarrow> nat set \<Rightarrow> (nat \<Rightarrow> proc) \<Rightarrow> nat \<Rightarrow> proc" where
  "woken c me A ps p =
     (if p \<in> A \<and> Some p \<noteq> me \<and> pstate (ps p) = SLEEPING \<and> pchan (ps p) = c
      then (ps p)\<lparr>pstate := RUNNABLE\<rparr> else ps p)"

lemma wakeup_from_eq:
  assumes "hart_ok (lk s)"
    and "\<And>p. p \<in> set xs \<Longrightarrow> Some p \<noteq> cproc (mycpu (lk s)) \<Longrightarrow> lock_free (ProcLock p) (lk s)"
    and "distinct xs" and "xs \<noteq> []"
  shows "wakeup_from c xs s = Some (s\<lparr>lk := settle (lk s),
     procs := woken c (cproc (mycpu (lk s))) (set xs) (procs s)\<rparr>)"
  using assms
proof (induction xs arbitrary: s)
  case (Cons p ps)
  let ?me = "cproc (mycpu (lk s))"
  let ?t = "s\<lparr>lk := settle (lk s), procs := woken c ?me {p} (procs s)\<rparr>"
  have step: "wakeup_from c (p # ps) s = wakeup_from c ps ?t"
  proof (cases "Some p = ?me")
    case True
    then have "woken c ?me {p} (procs s) = procs s" by (auto simp: woken_def fun_eq_iff)
    then show ?thesis using True Cons.prems(1) by (simp add: lock_simps)
  next
    case False
    then have "lock_free (ProcLock p) (lk s)" using Cons.prems(2) by simp
    moreover have "woken c ?me {p} (procs s) =
       (if pstate (procs s p) = SLEEPING \<and> pchan (procs s p) = c
        then (procs s)(p := (procs s p)\<lparr>pstate := RUNNABLE\<rparr>) else procs s)"
      using False by (auto simp: woken_def fun_eq_iff)
    ultimately show ?thesis
      using False Cons.prems(1) by (simp add: lock_simps Let_def upd_proc_def)
  qed
  show ?case
  proof (cases "ps = []")
    case True
    with step show ?thesis by simp
  next
    case False
    have "wakeup_from c ps ?t = Some (?t\<lparr>lk := settle (lk ?t),
        procs := woken c (cproc (mycpu (lk ?t))) (set ps) (procs ?t)\<rparr>)"
      using Cons.prems False by (intro Cons.IH) simp_all
    moreover have "woken c ?me (set ps) (woken c ?me {p} (procs s)) = woken c ?me (set (p # ps)) (procs s)"
      using Cons.prems(3) by (auto simp: woken_def fun_eq_iff)
    ultimately show ?thesis using step by simp
  qed
qed simp

lemma wakeup_eq:
  assumes "hart_ok (lk s)"
    and "\<And>p. p < NPROC \<Longrightarrow> Some p \<noteq> cproc (mycpu (lk s)) \<Longrightarrow> lock_free (ProcLock p) (lk s)"
  shows "wakeup c s = Some (s\<lparr>lk := settle (lk s),
     procs := woken c (cproc (mycpu (lk s))) {..<NPROC} (procs s)\<rparr>)"
  unfolding wakeup_def using assms
  by (subst wakeup_from_eq) (auto simp: NPROC_def atLeast0LessThan)

text \<open>\<^verbatim>\<open>kkill\<close> acts on the first entry with the pid and on no other.\<close>

definition kill_proc :: "proc \<Rightarrow> proc" where
  "kill_proc x = x\<lparr>pkilled := True,
     pstate := (if pstate x = SLEEPING then RUNNABLE else pstate x)\<rparr>"

lemma kkill_from_eq:
  assumes "hart_ok (lk s)" and "\<And>p. p \<in> set xs \<Longrightarrow> lock_free (ProcLock p) (lk s)" and "xs \<noteq> []"
  shows "kkill_from k xs s =
    (case find (\<lambda>p. pid (procs s p) = k) xs of
       None \<Rightarrow> Some (-1, s\<lparr>lk := settle (lk s)\<rparr>)
     | Some p \<Rightarrow> Some (0, upd_proc p kill_proc (s\<lparr>lk := settle (lk s)\<rparr>)))"
  using assms
proof (induction xs arbitrary: s)
  case (Cons p ps)
  then have free: "lock_free (ProcLock p) (lk s)" by simp
  show ?case
  proof (cases "pid (procs s p) = k")
    case True
    then show ?thesis
      using Cons.prems(1) free
      by (simp add: lock_simps Let_def upd_proc_def kill_proc_def)
  next
    case False
    then have "kkill_from k (p # ps) s = kkill_from k ps (s\<lparr>lk := settle (lk s)\<rparr>)"
      using Cons.prems(1) free by (simp add: lock_simps Let_def)
    then show ?thesis
      using Cons.prems False Cons.IH[of "s\<lparr>lk := settle (lk s)\<rparr>"]
      by (cases "ps = []") (simp_all split: option.split)
  qed
qed simp

lemma kkill_eq:
  assumes "plocks_free s"
  shows "kkill k s =
    (case find (\<lambda>p. pid (procs s p) = k) [0..<NPROC] of
       None \<Rightarrow> Some (-1, s\<lparr>lk := settle (lk s)\<rparr>)
     | Some p \<Rightarrow> Some (0, upd_proc p kill_proc (s\<lparr>lk := settle (lk s)\<rparr>)))"
  unfolding kkill_def
  by (rule kkill_from_eq) (use assms in \<open>auto simp: plocks_free_def NPROC_def\<close>)

section \<open>Going to sleep\<close>

lemma settle_taken [simp]: "settle (taken l L) = taken l L"
  by (simp add: settle_def)

lemma taken_intena: "noff (mycpu L) = 0 \<Longrightarrow> intena (mycpu (taken l L)) = intr_get L"
  by (simp add: taken_def push_off_def cpu_defs Let_def)

text \<open>
  \<^verbatim>\<open>sleep\<close> called with exactly one spinlock \<open>l\<close> held gives \<open>l\<close> up and leaves the
  process asleep on its channel, holding its own lock for the scheduler to release.
\<close>

lemma sleep_out_eq:
  assumes lk: "lk s = taken l L" and L: "hart_ok L" "noff (mycpu L) = 0" "cproc (mycpu L) = Some p"
    and free: "lock_free l L" "lock_free (ProcLock p) L" "l \<noteq> ProcLock p"
  shows "sleep_out c l s = Some (intr_get L,
    upd_proc p (\<lambda>x. x\<lparr>pchan := c, pstate := SLEEPING\<rparr>) (s\<lparr>lk := taken (ProcLock p) L\<rparr>))"
proof -
  have rel: "release l (s\<lparr>lk := taken (ProcLock p) (taken l L)\<rparr>) = Some (s\<lparr>lk := taken (ProcLock p) L\<rparr>)"
    using release_lk_crossed[OF free(3) L(1) free(1)] by (simp add: release_def)
  have "myproc s = Some (Some p, s)" using lk L(3) by (simp add: lock_simps)
  moreover have "acquire (ProcLock p) s = Some (s\<lparr>lk := taken (ProcLock p) (taken l L)\<rparr>)"
    using lk free by (simp add: lock_simps)
  ultimately have "sleep_out c l s = sched_out
      (upd_proc p (\<lambda>x. x\<lparr>pchan := c, pstate := SLEEPING\<rparr>) (s\<lparr>lk := taken (ProcLock p) L\<rparr>))"
    using rel by (simp add: sleep_out_def Let_def upd_proc_def)
  then show ?thesis
    using L free by (simp add: sched_out_def lock_simps upd_proc_def taken_intena)
qed

section \<open>A zeroed entry\<close>

definition proc0 :: proc where
  "proc0 = \<lparr>pstate = UNUSED, pchan = None, pkilled = False, xstate = 0, pid = 0, pending_sig = 0, sig_handler = 0,
     parent = None, kstack = 0, psz = 0, pagetable = 0, trapframe = 0,
     pcontext = \<lparr>ctx_ra = 0, ctx_sp = 0, ctx_s = (\<lambda>_. 0)\<rparr>, ofile = (\<lambda>_. None), cwd = None, pname = (\<lambda>_. 0)\<rparr>"

end
