(* ===== verification/Vm.thy ===== *)
theory Vm
  imports ProcTable
begin

text \<open>
  Page tables and user memory, \<^verbatim>\<open>kernel/vm.c\<close>, with \<^verbatim>\<open>proc_mapstacks\<close>,
  \<^verbatim>\<open>proc_pagetable\<close> and \<^verbatim>\<open>proc_freepagetable\<close> of \<^verbatim>\<open>kernel/proc.c\<close>.

  Page tables live in the byte memory of the allocator: an entry is a 64-bit load, a
  page-table page comes from \<^verbatim>\<open>kalloc\<close>, and \<^verbatim>\<open>freewalk\<close> gives it back. Loops whose end
  depends on machine arithmetic or on what memory holds are partial functions in the option
  monad, so that not returning is \<open>None\<close> like a panic.

  Kernel objects outside the allocated pages (stack variables, table fields) are values: a
  copy to user space takes the source bytes as a list, a copy from user space returns the
  bytes it wrote to its kernel destination.

  \<open>etext\<close> and \<open>trampoline\<close> are symbols the linker script defines.
\<close>

unbundle bit_operations_syntax

record kvm = ptable +
  kernel_pagetable :: nat
  etext :: nat
  trampoline :: nat
  satp :: "nat \<Rightarrow> u64"

section \<open>Walking and mapping\<close>

fun walk_from :: "nat \<Rightarrow> nat \<Rightarrow> u64 \<Rightarrow> bool \<Rightarrow> 'z kmem_scheme \<Rightarrow> (nat \<times> 'z kmem_scheme) option" where
  "walk_from 0 pt va alloc s = Some (pt + 8 * PX 0 va, s)"
| "walk_from (Suc l) pt va alloc s =
     (let a = pt + 8 * PX (Suc l) va;
          pte = load64 (mem s) a
      in if pte AND PTE_V \<noteq> 0 then walk_from l (PTE2PA pte) va alloc s
         else if \<not> alloc then Some (0, s)
         else do {
           (pg, s) \<leftarrow> kalloc s;
           if pg = 0 then Some (0, s)
           else do {
             let s = s\<lparr>mem := memset pg 0 PGSIZE (mem s)\<rparr>;
             let s = s\<lparr>mem := store64 a (PA2PTE pg OR PTE_V) (mem s)\<rparr>;
             walk_from l pg va alloc s
           }
         })"

definition walk :: "nat \<Rightarrow> u64 \<Rightarrow> bool \<Rightarrow> 'z kmem_scheme \<Rightarrow> (nat \<times> 'z kmem_scheme) option" where
  "walk pt va alloc s = (if MAXVA \<le> va then None else walk_from 2 pt va alloc s)"

definition walkaddr :: "nat \<Rightarrow> u64 \<Rightarrow> 'z kmem_scheme \<Rightarrow> (nat \<times> 'z kmem_scheme) option" where
  "walkaddr pt va s =
     (if MAXVA \<le> va then Some (0, s)
      else do {
        (pte, s) \<leftarrow> walk pt va False s;
        if pte = 0 then Some (0, s)
        else if load64 (mem s) pte AND PTE_V = 0 then Some (0, s)
        else if load64 (mem s) pte AND PTE_U = 0 then Some (0, s)
        else Some (PTE2PA (load64 (mem s) pte), s)
      })"

partial_function (option) mappages_loop ::
  "nat \<Rightarrow> u64 \<Rightarrow> u64 \<Rightarrow> nat \<Rightarrow> u64 \<Rightarrow> 'z kmem_scheme \<Rightarrow> (int \<times> 'z kmem_scheme) option" where
  "mappages_loop pt a lst pa perm s = do {
     (pte, s) \<leftarrow> walk pt a True s;
     if pte = 0 then Some (-1, s)
     else if load64 (mem s) pte AND PTE_V \<noteq> 0 then None
     else let s = s\<lparr>mem := store64 pte (PA2PTE pa OR perm OR PTE_V) (mem s)\<rparr>
          in if a = lst then Some (0, s)
             else mappages_loop pt (a + of_nat PGSIZE) lst (pa + PGSIZE) perm s
   }"

definition mappages ::
  "nat \<Rightarrow> u64 \<Rightarrow> u64 \<Rightarrow> nat \<Rightarrow> u64 \<Rightarrow> 'z kmem_scheme \<Rightarrow> (int \<times> 'z kmem_scheme) option" where
  "mappages pt va sz pa perm s =
     (if va mod of_nat PGSIZE \<noteq> 0 then None
      else if sz mod of_nat PGSIZE \<noteq> 0 then None
      else if sz = 0 then None
      else mappages_loop pt va (va + sz - of_nat PGSIZE) pa perm s)"

definition ismapped :: "nat \<Rightarrow> u64 \<Rightarrow> 'z kmem_scheme \<Rightarrow> (bool \<times> 'z kmem_scheme) option" where
  "ismapped pt va s = do {
     (pte, s) \<leftarrow> walk pt va False s;
     if pte = 0 then Some (False, s)
     else if load64 (mem s) pte AND PTE_V \<noteq> 0 then Some (True, s)
     else Some (False, s)
   }"

section \<open>The kernel page table\<close>

definition kvmmap :: "nat \<Rightarrow> u64 \<Rightarrow> nat \<Rightarrow> u64 \<Rightarrow> u64 \<Rightarrow> 'z kmem_scheme \<Rightarrow> 'z kmem_scheme option" where
  "kvmmap pt va pa sz perm s = do {
     (r, s) \<leftarrow> mappages pt va sz pa perm s;
     if r \<noteq> 0 then None else Some s
   }"

fun proc_mapstacks_from :: "nat \<Rightarrow> nat list \<Rightarrow> 'z kmem_scheme \<Rightarrow> 'z kmem_scheme option" where
  "proc_mapstacks_from pt [] s = Some s"
| "proc_mapstacks_from pt (p # ps) s = do {
     (pa, s) \<leftarrow> kalloc s;
     if pa = 0 then None
     else do {
       s \<leftarrow> kvmmap pt (KSTACK p) pa (of_nat PGSIZE) (PTE_R OR PTE_W) s;
       proc_mapstacks_from pt ps s
     }
   }"

definition proc_mapstacks :: "nat \<Rightarrow> 'z kmem_scheme \<Rightarrow> 'z kmem_scheme option" where
  "proc_mapstacks pt s = proc_mapstacks_from pt [0..<NPROC] s"

definition kvmmake :: "'z kvm_scheme \<Rightarrow> (nat \<times> 'z kvm_scheme) option" where
  "kvmmake s = do {
     (pt, s) \<leftarrow> kalloc s;
     let s = s\<lparr>mem := memset pt 0 PGSIZE (mem s)\<rparr>;
     s \<leftarrow> kvmmap pt (of_nat UART0) UART0 (of_nat PGSIZE) (PTE_R OR PTE_W) s;
     s \<leftarrow> kvmmap pt (of_nat VIRTIO0) VIRTIO0 (of_nat PGSIZE) (PTE_R OR PTE_W) s;
     s \<leftarrow> kvmmap pt (of_nat PLIC) PLIC 0x4000000 (PTE_R OR PTE_W) s;
     s \<leftarrow> kvmmap pt (of_nat KERNBASE) KERNBASE (of_nat (etext s) - of_nat KERNBASE) (PTE_R OR PTE_X) s;
     s \<leftarrow> kvmmap pt (of_nat (etext s)) (etext s) (of_nat PHYSTOP - of_nat (etext s)) (PTE_R OR PTE_W) s;
     s \<leftarrow> kvmmap pt TRAMPOLINE (trampoline s) (of_nat PGSIZE) (PTE_R OR PTE_X) s;
     s \<leftarrow> proc_mapstacks pt s;
     Some (pt, s)
   }"

definition kvminit :: "'z kvm_scheme \<Rightarrow> 'z kvm_scheme option" where
  "kvminit s = do {
     (pt, s) \<leftarrow> kvmmake s;
     Some (s\<lparr>kernel_pagetable := pt\<rparr>)
   }"

definition kvminithart :: "'z kvm_scheme \<Rightarrow> 'z kvm_scheme" where
  "kvminithart s = s\<lparr>satp := (satp s)(cpuid (lk s) := MAKE_SATP (kernel_pagetable s))\<rparr>"

section \<open>User address spaces\<close>

definition uvmcreate :: "'z kmem_scheme \<Rightarrow> (nat \<times> 'z kmem_scheme) option" where
  "uvmcreate s = do {
     (pt, s) \<leftarrow> kalloc s;
     if pt = 0 then Some (0, s)
     else Some (pt, s\<lparr>mem := memset pt 0 PGSIZE (mem s)\<rparr>)
   }"

partial_function (option) uvmunmap_loop ::
  "nat \<Rightarrow> u64 \<Rightarrow> u64 \<Rightarrow> bool \<Rightarrow> 'z kmem_scheme \<Rightarrow> 'z kmem_scheme option" where
  "uvmunmap_loop pt a e do_free s =
     (if a < e then do {
        (pte, s) \<leftarrow> walk pt a False s;
        if pte = 0 then uvmunmap_loop pt (a + of_nat PGSIZE) e do_free s
        else if load64 (mem s) pte AND PTE_V = 0
        then uvmunmap_loop pt (a + of_nat PGSIZE) e do_free s
        else do {
          s \<leftarrow> (if do_free then kfree (PTE2PA (load64 (mem s) pte)) s else Some s);
          uvmunmap_loop pt (a + of_nat PGSIZE) e do_free (s\<lparr>mem := store64 pte 0 (mem s)\<rparr>)
        }
      } else Some s)"

definition uvmunmap :: "nat \<Rightarrow> u64 \<Rightarrow> u64 \<Rightarrow> bool \<Rightarrow> 'z kmem_scheme \<Rightarrow> 'z kmem_scheme option" where
  "uvmunmap pt va npages do_free s =
     (if va mod of_nat PGSIZE \<noteq> 0 then None
      else uvmunmap_loop pt va (va + npages * of_nat PGSIZE) do_free s)"

definition uvmdealloc :: "nat \<Rightarrow> u64 \<Rightarrow> u64 \<Rightarrow> 'z kmem_scheme \<Rightarrow> (u64 \<times> 'z kmem_scheme) option" where
  "uvmdealloc pt oldsz newsz s =
     (if oldsz \<le> newsz then Some (oldsz, s)
      else do {
        s \<leftarrow> (if PGROUNDUP newsz < PGROUNDUP oldsz
             then let npages = c_int ((PGROUNDUP oldsz - PGROUNDUP newsz) div of_nat PGSIZE)
                  in uvmunmap pt (PGROUNDUP newsz) (to_u64 npages) True s
             else Some s);
        Some (newsz, s)
      })"

partial_function (option) uvmalloc_loop ::
  "nat \<Rightarrow> u64 \<Rightarrow> u64 \<Rightarrow> u64 \<Rightarrow> u64 \<Rightarrow> 'z kmem_scheme \<Rightarrow> (u64 \<times> 'z kmem_scheme) option" where
  "uvmalloc_loop pt a oldsz newsz xperm s =
     (if a < newsz then do {
        (pg, s) \<leftarrow> kalloc s;
        if pg = 0 then do {
          (_, s) \<leftarrow> uvmdealloc pt a oldsz s;
          Some (0, s)
        } else do {
          (r, s) \<leftarrow> mappages pt a (of_nat PGSIZE) pg (PTE_R OR PTE_U OR xperm)
                     (s\<lparr>mem := memset pg 0 PGSIZE (mem s)\<rparr>);
          if r \<noteq> 0 then do {
            s \<leftarrow> kfree pg s;
            (_, s) \<leftarrow> uvmdealloc pt a oldsz s;
            Some (0, s)
          } else uvmalloc_loop pt (a + of_nat PGSIZE) oldsz newsz xperm s
        }
      } else Some (newsz, s))"

definition uvmalloc :: "nat \<Rightarrow> u64 \<Rightarrow> u64 \<Rightarrow> u64 \<Rightarrow> 'z kmem_scheme \<Rightarrow> (u64 \<times> 'z kmem_scheme) option" where
  "uvmalloc pt oldsz newsz xperm s =
     (if newsz < oldsz then Some (oldsz, s)
      else let oldsz = PGROUNDUP oldsz in uvmalloc_loop pt oldsz oldsz newsz xperm s)"

text \<open>\<open>freewalk_from pt i\<close> is the loop of \<^verbatim>\<open>freewalk(pt)\<close> from entry \<open>i\<close> on.\<close>

partial_function (option) freewalk_from :: "nat \<Rightarrow> nat \<Rightarrow> 'z kmem_scheme \<Rightarrow> 'z kmem_scheme option" where
  "freewalk_from pt i s =
     (if i < 512 then
        (let pte = load64 (mem s) (pt + 8 * i)
         in if pte AND PTE_V \<noteq> 0 \<and> pte AND (PTE_R OR PTE_W OR PTE_X) = 0 then do {
              s \<leftarrow> freewalk_from (PTE2PA pte) 0 s;
              freewalk_from pt (i + 1) (s\<lparr>mem := store64 (pt + 8 * i) 0 (mem s)\<rparr>)
            } else if pte AND PTE_V \<noteq> 0 then None
            else freewalk_from pt (i + 1) s)
      else kfree pt s)"

definition freewalk :: "nat \<Rightarrow> 'z kmem_scheme \<Rightarrow> 'z kmem_scheme option" where
  "freewalk pt s = freewalk_from pt 0 s"

definition uvmfree :: "nat \<Rightarrow> u64 \<Rightarrow> 'z kmem_scheme \<Rightarrow> 'z kmem_scheme option" where
  "uvmfree pt sz s = do {
     s \<leftarrow> (if 0 < sz then uvmunmap pt 0 (PGROUNDUP sz div of_nat PGSIZE) True s else Some s);
     freewalk pt s
   }"

text \<open>\<open>uvmcopy_loop\<close> is the loop with the error exit at the label \<^verbatim>\<open>err\<close>.\<close>

definition uvmcopy_err :: "nat \<Rightarrow> u64 \<Rightarrow> 'z kmem_scheme \<Rightarrow> (int \<times> 'z kmem_scheme) option" where
  "uvmcopy_err new i s = do {
     s \<leftarrow> uvmunmap new 0 (i div of_nat PGSIZE) True s;
     Some (-1, s)
   }"

partial_function (option) uvmcopy_loop ::
  "nat \<Rightarrow> nat \<Rightarrow> u64 \<Rightarrow> u64 \<Rightarrow> 'z kmem_scheme \<Rightarrow> (int \<times> 'z kmem_scheme) option" where
  "uvmcopy_loop old new i sz s =
     (if i < sz then do {
        (pte, s) \<leftarrow> walk old i False s;
        if pte = 0 then uvmcopy_loop old new (i + of_nat PGSIZE) sz s
        else if load64 (mem s) pte AND PTE_V = 0
        then uvmcopy_loop old new (i + of_nat PGSIZE) sz s
        else let pa = PTE2PA (load64 (mem s) pte);
                 flags = PTE_FLAGS (load64 (mem s) pte)
             in do {
               (pg, s) \<leftarrow> kalloc s;
               if pg = 0 then uvmcopy_err new i s
               else do {
                 (r, s) \<leftarrow> mappages new i (of_nat PGSIZE) pg flags
                            (s\<lparr>mem := memmove pg pa PGSIZE (mem s)\<rparr>);
                 if r \<noteq> 0 then do {
                   s \<leftarrow> kfree pg s;
                   uvmcopy_err new i s
                 } else uvmcopy_loop old new (i + of_nat PGSIZE) sz s
               }
             }
      } else Some (0, s))"

definition uvmcopy :: "nat \<Rightarrow> nat \<Rightarrow> u64 \<Rightarrow> 'z kmem_scheme \<Rightarrow> (int \<times> 'z kmem_scheme) option" where
  "uvmcopy old new sz s = uvmcopy_loop old new 0 sz s"

definition uvmclear :: "nat \<Rightarrow> u64 \<Rightarrow> 'z kmem_scheme \<Rightarrow> 'z kmem_scheme option" where
  "uvmclear pt va s = do {
     (pte, s) \<leftarrow> walk pt va False s;
     if pte = 0 then None
     else Some (s\<lparr>mem := store64 pte (load64 (mem s) pte AND NOT PTE_U) (mem s)\<rparr>)
   }"

definition proc_pagetable :: "nat \<Rightarrow> 'z kvm_scheme \<Rightarrow> (nat \<times> 'z kvm_scheme) option" where
  "proc_pagetable p s = do {
     (pt, s) \<leftarrow> uvmcreate s;
     if pt = 0 then Some (0, s)
     else do {
       (r, s) \<leftarrow> mappages pt TRAMPOLINE (of_nat PGSIZE) (trampoline s) (PTE_R OR PTE_X) s;
       if r < 0 then do {
         s \<leftarrow> uvmfree pt 0 s;
         Some (0, s)
       } else do {
         (r, s) \<leftarrow> mappages pt TRAPFRAME (of_nat PGSIZE) (trapframe (procs s p)) (PTE_R OR PTE_W) s;
         if r < 0 then do {
           s \<leftarrow> uvmunmap pt TRAMPOLINE 1 False s;
           s \<leftarrow> uvmfree pt 0 s;
           Some (0, s)
         } else Some (pt, s)
       }
     }
   }"

definition proc_freepagetable :: "nat \<Rightarrow> u64 \<Rightarrow> 'z kmem_scheme \<Rightarrow> 'z kmem_scheme option" where
  "proc_freepagetable pt sz s = do {
     s \<leftarrow> uvmunmap pt TRAMPOLINE 1 False s;
     s \<leftarrow> uvmunmap pt TRAPFRAME 1 False s;
     uvmfree pt sz s
   }"

section \<open>Copies between user and kernel\<close>

text \<open>A null current process would be dereferenced, hence \<open>p \<leftarrow> me\<close>.\<close>

definition vmfault :: "nat \<Rightarrow> u64 \<Rightarrow> bool \<Rightarrow> 'z ptable_scheme \<Rightarrow> (nat \<times> 'z ptable_scheme) option" where
  "vmfault pt va read s = do {
     (me, s) \<leftarrow> myproc s;
     p \<leftarrow> me;
     if psz (procs s p) \<le> va then Some (0, s)
     else do {
       let va = PGROUNDDOWN va;
       (b, s) \<leftarrow> ismapped pt va s;
       if b then Some (0, s)
       else do {
         (pg, s) \<leftarrow> kalloc s;
         if pg = 0 then Some (0, s)
         else do {
           let s = s\<lparr>mem := memset pg 0 PGSIZE (mem s)\<rparr>;
           (r, s) \<leftarrow> mappages (pagetable (procs s p)) va (of_nat PGSIZE) pg (PTE_W OR PTE_U OR PTE_R) s;
           if r \<noteq> 0 then do {
             s \<leftarrow> kfree pg s;
             Some (0, s)
           } else Some (pg, s)
         }
       }
     }
   }"

definition mem_put :: "nat \<Rightarrow> u8 list \<Rightarrow> memory \<Rightarrow> memory" where
  "mem_put a bs m = (\<lambda>x. if a \<le> x \<and> x < a + length bs then bs ! (x - a) else m x)"

definition mem_get :: "memory \<Rightarrow> nat \<Rightarrow> nat \<Rightarrow> u8 list" where
  "mem_get m a n = map m [a..<a + n]"

definition page_room :: "u64 \<Rightarrow> nat" where
  "page_room va = unat (of_nat PGSIZE - (va - PGROUNDDOWN va))"

lemma page_room_eq: "page_room va = 4096 - unat va mod 4096"
proof -
  have le: "unat va div 4096 * 4096 \<le> unat va" by simp
  then have "PGROUNDDOWN va \<le> va" by (simp add: word_le_nat_alt PGROUNDDOWN_unat)
  then have "unat (va - PGROUNDDOWN va) = unat va - unat va div 4096 * 4096"
    by (simp add: unat_sub PGROUNDDOWN_unat)
  then have off: "unat (va - PGROUNDDOWN va) = unat va mod 4096"
    by (simp add: minus_div_mult_eq_mod)
  have "va - PGROUNDDOWN va \<le> 4096"
    using off by (simp add: word_le_nat_alt)
  then show ?thesis
    using off by (simp add: page_room_def PGSIZE_def unat_sub)
qed

lemma page_room_pos [simp]: "0 < page_room va" "page_room va \<noteq> 0"
  by (simp_all add: page_room_eq)

function copyout :: "nat \<Rightarrow> u64 \<Rightarrow> u8 list \<Rightarrow> 'z ptable_scheme \<Rightarrow> (int \<times> 'z ptable_scheme) option" where
  "copyout pt dstva src s =
     (if src \<noteq> [] then
        (let va0 = PGROUNDDOWN dstva
         in if MAXVA \<le> va0 then Some (-1, s)
            else do {
              (pa0, s) \<leftarrow> walkaddr pt va0 s;
              (pa0, s) \<leftarrow> (if pa0 = 0 then vmfault pt va0 False s else Some (pa0, s));
              if pa0 = 0 then Some (-1, s)
              else do {
                (pte, s) \<leftarrow> walk pt va0 False s;
                if load64 (mem s) pte AND PTE_W = 0 then Some (-1, s)
                else let n = min (page_room dstva) (length src);
                         s = s\<lparr>mem := mem_put (pa0 + unat (dstva - va0)) (take n src) (mem s)\<rparr>
                     in copyout pt (va0 + of_nat PGSIZE) (drop n src) s
              }
            })
      else Some (0, s))"
  by pat_completeness auto
termination
  by (relation "measure (\<lambda>(pt, va, src, s). length src)") auto

declare copyout.simps [simp del]

function copyin :: "nat \<Rightarrow> u64 \<Rightarrow> nat \<Rightarrow> 'z ptable_scheme \<Rightarrow> (int \<times> u8 list \<times> 'z ptable_scheme) option" where
  "copyin pt srcva len s =
     (if len > 0 then
        (let va0 = PGROUNDDOWN srcva
         in do {
              (pa0, s) \<leftarrow> walkaddr pt va0 s;
              (pa0, s) \<leftarrow> (if pa0 = 0 then vmfault pt va0 False s else Some (pa0, s));
              if pa0 = 0 then Some (-1, [], s)
              else let n = min (page_room srcva) len;
                       bs = mem_get (mem s) (pa0 + unat (srcva - va0)) n
                   in do {
                     (r, rest, s) \<leftarrow> copyin pt (va0 + of_nat PGSIZE) (len - n) s;
                     Some (r, bs @ rest, s)
                   }
            })
      else Some (0, [], s))"
  by pat_completeness auto
termination
  by (relation "measure (\<lambda>(pt, va, len, s). len)") auto

declare copyin.simps [simp del]

fun copyinstr_page :: "memory \<Rightarrow> nat \<Rightarrow> nat \<Rightarrow> u8 list \<times> bool" where
  "copyinstr_page m p 0 = ([], False)"
| "copyinstr_page m p (Suc n) =
     (if m p = 0 then ([0], True)
      else let (bs, got_null) = copyinstr_page m (p + 1) n in (m p # bs, got_null))"

lemma copyinstr_page_length: "\<not> snd (copyinstr_page m p n) \<Longrightarrow> length (fst (copyinstr_page m p n)) = n"
  by (induction n arbitrary: p) (auto simp: split_beta Let_def split: if_splits)

function copyinstr :: "nat \<Rightarrow> u64 \<Rightarrow> nat \<Rightarrow> 'z kmem_scheme \<Rightarrow> (int \<times> u8 list \<times> 'z kmem_scheme) option" where
  "copyinstr pt srcva mx s =
     (if mx > 0 then
        (let va0 = PGROUNDDOWN srcva
         in do {
              (pa0, s) \<leftarrow> walkaddr pt va0 s;
              if pa0 = 0 then Some (-1, [], s)
              else let n = min (page_room srcva) mx;
                       r = copyinstr_page (mem s) (pa0 + unat (srcva - va0)) n
                   in if snd r then Some (0, fst r, s)
                      else do {
                        (v, rest, s) \<leftarrow> copyinstr pt (va0 + of_nat PGSIZE) (mx - length (fst r)) s;
                        Some (v, fst r @ rest, s)
                      }
            })
      else Some (-1, [], s))"
  by pat_completeness auto
termination
  by (relation "measure (\<lambda>(pt, va, mx, s). mx)") (auto simp: copyinstr_page_length)

declare copyinstr.simps [simp del]

section \<open>Copies whose other end the caller chooses\<close>

text \<open>
  The pairs (\<^verbatim>\<open>user_dst\<close>, \<^verbatim>\<open>dst\<close>) and (\<^verbatim>\<open>user_src\<close>, \<^verbatim>\<open>src\<close>) of the source. A kernel
  destination is an address of the byte memory (\<open>KernDst\<close>) or an object outside it
  (\<open>KernObj\<close>), whose new bytes the caller gets from the function that copies.
\<close>

datatype cdst = UserDst u64 | KernDst nat | KernObj

datatype csrc = UserSrc u64 | KernSrc "u8 list"

fun cdst_add :: "cdst \<Rightarrow> nat \<Rightarrow> cdst" where
  "cdst_add (UserDst va) m = UserDst (va + of_nat m)"
| "cdst_add (KernDst a) m = KernDst (a + m)"
| "cdst_add KernObj m = KernObj"

fun csrc_add :: "csrc \<Rightarrow> nat \<Rightarrow> csrc" where
  "csrc_add (UserSrc va) m = UserSrc (va + of_nat m)"
| "csrc_add (KernSrc bs) m = KernSrc (drop m bs)"

definition either_copyout :: "cdst \<Rightarrow> u8 list \<Rightarrow> 'z ptable_scheme \<Rightarrow> (int \<times> 'z ptable_scheme) option" where
  "either_copyout dst src s = do {
     (me, s) \<leftarrow> myproc s;
     (case dst of
        UserDst va \<Rightarrow> do { p \<leftarrow> me; copyout (pagetable (procs s p)) va src s }
      | KernDst a \<Rightarrow> Some (0, s\<lparr>mem := mem_put a src (mem s)\<rparr>)
      | KernObj \<Rightarrow> Some (0, s))
   }"

definition either_copyin :: "csrc \<Rightarrow> nat \<Rightarrow> 'z ptable_scheme \<Rightarrow> (int \<times> u8 list \<times> 'z ptable_scheme) option" where
  "either_copyin src len s = do {
     (me, s) \<leftarrow> myproc s;
     (case src of
        UserSrc va \<Rightarrow> do { p \<leftarrow> me; copyin (pagetable (procs s p)) va len s }
      | KernSrc bs \<Rightarrow> Some (0, take len bs, s))
   }"

end
