(* ===== verification/VmFacts.thy ===== *)
theory VmFacts
  imports Vm
begin

text \<open>
  What \<^verbatim>\<open>kernel/vm.c\<close> does to the translation an address space stands for.

  \<open>tpage m root P\<close> is the page-table page reached from \<open>root\<close> by the index path
  \<open>P\<close> (last index first), \<open>leaf m root va\<close> the leaf entry of \<open>va\<close> (\<open>0\<close> where no leaf
  table exists). \<open>pt_wf\<close> says the tables form a tree: pages reached by different paths
  differ, and none of them is on the free list. The lemmas show that \<^verbatim>\<open>walk\<close> with
  allocation grows the tree and keeps every leaf, that \<^verbatim>\<open>mappages\<close> changes exactly one
  leaf, and, for user pages, what a byte at a virtual address is after \<^verbatim>\<open>copyout\<close>.
\<close>

unbundle bit_operations_syntax

section \<open>The tree of page-table pages\<close>

fun tpage :: "memory \<Rightarrow> nat \<Rightarrow> nat list \<Rightarrow> nat option" where
  "tpage m root [] = Some root"
| "tpage m root (i # P) =
     (case tpage m root P of None \<Rightarrow> None
      | Some pt \<Rightarrow> if bit (load64 m (pt + 8 * i)) 0 then Some (PTE2PA (load64 m (pt + 8 * i))) else None)"

definition tpath :: "nat list \<Rightarrow> bool" where
  "tpath P \<longleftrightarrow> length P \<le> 2 \<and> (\<forall>i\<in>set P. i < 512)"

definition tables :: "memory \<Rightarrow> nat \<Rightarrow> nat set" where
  "tables m root = {pg. \<exists>P. tpath P \<and> tpage m root P = Some pg}"

definition pt_wf :: "memory \<Rightarrow> nat set \<Rightarrow> nat \<Rightarrow> bool" where
  "pt_wf m F root \<longleftrightarrow>
     (\<forall>pg\<in>tables m root. pg mod PGSIZE = 0 \<and> 0 < pg \<and> pg \<notin> F)
     \<and> (\<forall>P Q pg. tpath P \<longrightarrow> tpath Q \<longrightarrow> tpage m root P = Some pg \<longrightarrow> tpage m root Q = Some pg \<longrightarrow> P = Q)"

definition leaf_path :: "u64 \<Rightarrow> nat list" where
  "leaf_path va = [PX 1 va, PX 2 va]"

definition leaf :: "memory \<Rightarrow> nat \<Rightarrow> u64 \<Rightarrow> u64" where
  "leaf m root va =
     (case tpage m root (leaf_path va) of None \<Rightarrow> 0 | Some pg \<Rightarrow> load64 m (pg + 8 * PX 0 va))"

lemma tpath_simps [simp]: "tpath []" "tpath (leaf_path va)"
  "tpath (i # P) \<longleftrightarrow> length P < 2 \<and> i < 512 \<and> tpath P" "length (leaf_path va) = 2"
  by (auto simp: tpath_def leaf_path_def PX_lt)

lemma tablesI: "tpath P \<Longrightarrow> tpage m root P = Some pg \<Longrightarrow> pg \<in> tables m root"
  by (auto simp: tables_def)

lemma pt_wfD:
  assumes "pt_wf m F root" "tpath P" "tpage m root P = Some pg"
  shows "pg mod PGSIZE = 0" "0 < pg" "pg \<notin> F"
    "tpath Q \<Longrightarrow> tpage m root Q = Some pg \<Longrightarrow> P = Q"
  using assms tablesI[OF assms(2,3)] by (auto simp: pt_wf_def)

text \<open>An entry lies inside its page, and entries of one page do not overlap.\<close>

lemma entry_in_page: "i < 512 \<Longrightarrow> k < 8 \<Longrightarrow> pt + 8 * i + k \<in> page pt"
  by (auto simp: page_def PGSIZE_def)

lemma load64_page_cong:
  "(\<And>x. x \<in> page pt \<Longrightarrow> m' x = m x) \<Longrightarrow> i < 512 \<Longrightarrow> load64 m' (pt + 8 * i) = load64 m (pt + 8 * i)"
  by (rule load64_cong) (simp add: entry_in_page)

lemma tpage_cong:
  assumes "\<And>pg x. pg \<in> tables m root \<Longrightarrow> x \<in> page pg \<Longrightarrow> m' x = m x"
  shows "tpath P \<Longrightarrow> tpage m' root P = tpage m root P"
proof (induction P)
  case (Cons i P)
  then have IH: "tpage m' root P = tpage m root P" and i: "i < 512" and P: "tpath P" by auto
  show ?case
  proof (cases "tpage m root P")
    case (Some pt)
    then have "load64 m' (pt + 8 * i) = load64 m (pt + 8 * i)"
      using assms tablesI[OF P Some] i by (intro load64_page_cong) auto
    with IH Some show ?thesis by simp
  qed (use IH in simp)
qed simp

lemma tables_cong:
  assumes "\<And>pg x. pg \<in> tables m root \<Longrightarrow> x \<in> page pg \<Longrightarrow> m' x = m x"
  shows "tables m' root = tables m root"
  using tpage_cong[OF assms] by (auto simp: tables_def)

lemma pt_wf_cong:
  assumes "\<And>pg x. pg \<in> tables m root \<Longrightarrow> x \<in> page pg \<Longrightarrow> m' x = m x"
  shows "pt_wf m' F root = pt_wf m F root"
  using tpage_cong[OF assms] tables_cong[OF assms] by (auto simp: pt_wf_def)

lemma leaf_cong:
  assumes "\<And>pg x. pg \<in> tables m root \<Longrightarrow> x \<in> page pg \<Longrightarrow> m' x = m x"
  shows "leaf m' root va = leaf m root va"
proof -
  have eq: "tpage m' root (leaf_path va) = tpage m root (leaf_path va)"
    by (rule tpage_cong[OF assms]) simp_all
  show ?thesis
  proof (cases "tpage m root (leaf_path va)")
    case (Some pg)
    then have "pg \<in> tables m root" by (intro tablesI) simp_all
    then have "load64 m' (pg + 8 * PX 0 va) = load64 m (pg + 8 * PX 0 va)"
      by (intro load64_page_cong) (auto simp: assms PX_lt)
    with Some eq show ?thesis by (simp add: leaf_def)
  qed (use eq in \<open>simp add: leaf_def\<close>)
qed

subsection \<open>Adding one table page\<close>

text \<open>
  The situation of one allocating level of \<^verbatim>\<open>walk\<close>: page \<open>pg\<close> is zeroed, the invalid
  entry \<open>i\<close> of the table at path \<open>P\<close> now points to it, nothing else changed.
\<close>

definition adds_table :: "memory \<Rightarrow> memory \<Rightarrow> nat \<Rightarrow> nat list \<Rightarrow> nat \<Rightarrow> nat \<Rightarrow> nat \<Rightarrow> bool" where
  "adds_table m m' root P pt i pg \<longleftrightarrow>
     tpath P \<and> length P < 2 \<and> i < 512 \<and> tpage m root P = Some pt \<and> \<not> bit (load64 m (pt + 8 * i)) 0
     \<and> pg \<notin> tables m root \<and> pg mod PGSIZE = 0 \<and> 0 < pg \<and> pg < 18446744073709551616
     \<and> m' = store64 (pt + 8 * i) (PA2PTE pg OR PTE_V) (memset pg 0 PGSIZE m)"


lemma new_entry_bit: "bit (PA2PTE pg OR PTE_V OR f) 0" "bit (PA2PTE pg OR PTE_V) 0"
  by (simp_all add: bit_or_iff bit_PTE)

lemma PTE2PA_table:
  "pg mod PGSIZE = 0 \<Longrightarrow> pg < 18446744073709551616 \<Longrightarrow> PTE2PA (PA2PTE pg OR PTE_V) = pg"
  by (rule PTE2PA_PA2PTE) (simp_all add: PGSIZE_def mod_eq_0_iff_dvd PTE_V_def)

lemma adds_table_other_page:
  assumes "adds_table m m' root P pt i pg" "q mod PGSIZE = 0" "pt mod PGSIZE = 0" "q \<noteq> pt" "q \<noteq> pg"
    "x \<in> page q"
  shows "m' x = m x"
proof -
  have "x \<notin> page pt" "x \<notin> page pg"
    using page_disjoint[of q pt] page_disjoint[of q pg] assms by (auto simp: adds_table_def)
  then show ?thesis
    using assms(1) by (auto simp: adds_table_def store64_def memset_apply page_def PGSIZE_def)
qed

lemma adds_table_entries:
  assumes "adds_table m m' root P pt i pg" and "pt mod PGSIZE = 0"
  shows "load64 m' (pt + 8 * i) = PA2PTE pg OR PTE_V"
    and "j < 512 \<Longrightarrow> j \<noteq> i \<Longrightarrow> load64 m' (pt + 8 * j) = load64 m (pt + 8 * j)"
    and "j < 512 \<Longrightarrow> load64 m' (pg + 8 * j) = 0"
proof -
  have a: "i < 512" "pg \<noteq> pt" "pg mod PGSIZE = 0"
    and m': "m' = store64 (pt + 8 * i) (PA2PTE pg OR PTE_V) (memset pg 0 PGSIZE m)"
    using assms(1) tablesI[of P m root pt] by (auto simp: adds_table_def)
  have "page pt \<inter> page pg = {}" using page_disjoint[OF assms(2) a(3)] a(2) by blast
  then have "pt \<notin> page pg" and "pg \<notin> page pt" by (auto simp: page_def PGSIZE_def)
  then have sep: "pt + 4096 \<le> pg \<or> pg + 4096 \<le> pt" by (auto simp: page_def PGSIZE_def)
  show "load64 m' (pt + 8 * i) = PA2PTE pg OR PTE_V" by (simp add: m' mem_simps)
  show "load64 m' (pt + 8 * j) = load64 m (pt + 8 * j)" if "j < 512" "j \<noteq> i"
  proof -
    have "pt + 8 * j + 8 \<le> pt + 8 * i \<or> pt + 8 * i + 8 \<le> pt + 8 * j" using that by auto
    moreover have "pt + 8 * j + 8 \<le> pg \<or> pg + PGSIZE \<le> pt + 8 * j"
      using sep that(1) by (auto simp: PGSIZE_def)
    ultimately show ?thesis by (simp add: m' mem_simps)
  qed
  show "load64 m' (pg + 8 * j) = 0" if "j < 512"
  proof -
    have "pg + 8 * j + 8 \<le> pt + 8 * i \<or> pt + 8 * i + 8 \<le> pg + 8 * j"
      using sep that a(1) by auto
    then show ?thesis using that by (simp add: m' mem_simps load64_memset PGSIZE_def)
  qed
qed

lemma adds_table_tpage:
  assumes a: "adds_table m m' root P pt i pg" and wf: "pt_wf m F root"
  shows "tpath Q \<Longrightarrow> tpage m' root Q = (if Q = i # P then Some pg else tpage m root Q)"
proof (induction Q)
  case Nil
  then show ?case by simp
next
  case (Cons j R)
  then have R: "tpath R" and j: "j < 512"
    and IH: "tpage m' root R = (if R = i # P then Some pg else tpage m root R)" by auto
  have pt: "tpage m root P = Some pt" "tpath P" using a by (auto simp: adds_table_def)
  have al: "pt mod PGSIZE = 0" using pt_wfD(1)[OF wf pt(2,1)] .
  note ents = adds_table_entries[OF a al]
  show ?case
  proof (cases "R = i # P")
    case True
    have "tpage m root R = None" using True a by (simp add: adds_table_def)
    then show ?thesis using IH True ents(3)[OF j] by simp
  next
    case False
    show ?thesis
    proof (cases "tpage m root R")
      case None
      then show ?thesis using IH False pt by auto
    next
      case (Some q)
      have q: "q \<in> tables m root" "q mod PGSIZE = 0"
        using tablesI[OF R Some] pt_wfD(1)[OF wf R Some] .
      show ?thesis
      proof (cases "R = P")
        case True
        then have "q = pt" using Some pt by simp
        then show ?thesis
          using IH True Some ents(1) ents(2)[OF j] a
          by (cases "j = i") (auto simp: adds_table_def new_entry_bit PTE2PA_table)
      next
        case ne: False
        then have "q \<noteq> pt" using pt_wfD(4)[OF wf R Some pt(2)] pt(1) by auto
        moreover have "q \<noteq> pg" using a q(1) by (auto simp: adds_table_def)
        ultimately have "load64 m' (q + 8 * j) = load64 m (q + 8 * j)"
          using adds_table_other_page[OF a q(2) al] j by (intro load64_page_cong) auto
        then show ?thesis using IH False Some ne by simp
      qed
    qed
  qed
qed

lemma adds_table_tables:
  assumes a: "adds_table m m' root P pt i pg" and wf: "pt_wf m F root"
  shows "tables m' root = insert pg (tables m root)"
proof -
  have new: "tpath (i # P)" "tpage m root (i # P) = None" using a by (auto simp: adds_table_def)
  note eq = adds_table_tpage[OF a wf]
  show ?thesis
  proof (intro set_eqI iffI)
    fix q assume "q \<in> tables m' root"
    then obtain Q where "tpath Q" "tpage m' root Q = Some q" by (auto simp: tables_def)
    then show "q \<in> insert pg (tables m root)"
      using eq[of Q] by (auto simp: tables_def split: if_splits)
  next
    fix q assume "q \<in> insert pg (tables m root)"
    moreover have "pg \<in> tables m' root" using tablesI[OF new(1)] eq[OF new(1)] by metis
    moreover have "q \<in> tables m' root" if Q: "tpath Q" "tpage m root Q = Some q" for Q
    proof -
      have "Q \<noteq> i # P" using Q(2) new(2) by auto
      then show ?thesis using eq[OF Q(1)] Q by (intro tablesI) simp_all
    qed
    ultimately show "q \<in> tables m' root" by (auto simp: tables_def[of m])
  qed
qed

lemma adds_table_wf:
  assumes a: "adds_table m m' root P pt i pg" and wf: "pt_wf m F root"
    and "G \<subseteq> F" and "pg \<notin> G"
  shows "pt_wf m' G root"
proof -
  have none: "tpage m root (i # P) = None" using a by (auto simp: adds_table_def)
  have pg: "pg mod PGSIZE = 0" "0 < pg" "\<And>Q. tpath Q \<Longrightarrow> tpage m root Q \<noteq> Some pg"
    using a by (auto simp: adds_table_def tables_def)
  have "Q = R" if "tpath Q" "tpath R" "tpage m' root Q = Some q" "tpage m' root R = Some q" for Q R q
    using that adds_table_tpage[OF a wf] pg(3) wf
    by (auto simp: pt_wf_def split: if_splits)
  moreover have "q mod PGSIZE = 0 \<and> 0 < q \<and> q \<notin> G" if "q \<in> tables m' root" for q
    using that wf pg(1,2) assms(3,4) unfolding adds_table_tables[OF a wf] by (auto simp: pt_wf_def)
  ultimately show ?thesis unfolding pt_wf_def by blast
qed

lemma adds_table_leaf:
  assumes a: "adds_table m m' root P pt i pg" and wf: "pt_wf m F root"
  shows "leaf m' root va = leaf m root va"
proof -
  have pt: "tpage m root P = Some pt" "tpath P" "length P < 2" using a by (auto simp: adds_table_def)
  have al: "pt mod PGSIZE = 0" using pt_wfD(1)[OF wf pt(2,1)] .
  have eq: "tpage m' root (leaf_path va) = (if leaf_path va = i # P then Some pg else tpage m root (leaf_path va))"
    by (rule adds_table_tpage[OF a wf]) simp
  show ?thesis
  proof (cases "leaf_path va = i # P")
    case True
    have "tpage m root (i # P) = None" using a by (simp add: adds_table_def)
    then show ?thesis using True eq adds_table_entries(3)[OF a al PX_lt] by (simp add: leaf_def)
  next
    case False
    show ?thesis
    proof (cases "tpage m root (leaf_path va)")
      case (Some q)
      have q: "q mod PGSIZE = 0" "q \<in> tables m root"
        using pt_wfD(1)[OF wf _ Some] tablesI[OF _ Some] by simp_all
      have "q \<noteq> pt" using pt_wfD(4)[OF wf _ Some pt(2)] pt(1,3) by auto
      moreover have "q \<noteq> pg" using a q(2) by (auto simp: adds_table_def)
      ultimately have "load64 m' (q + 8 * PX 0 va) = load64 m (q + 8 * PX 0 va)"
        using adds_table_other_page[OF a q(1) al] by (intro load64_page_cong) (auto simp: PX_lt)
      then show ?thesis using eq False Some by (simp add: leaf_def)
    qed (use eq False in \<open>simp add: leaf_def\<close>)
  qed
qed

section \<open>walk\<close>

definition kframe :: "'z kmem_scheme \<Rightarrow> 'z kmem_scheme \<Rightarrow> bool" where
  "kframe s s' \<longleftrightarrow> kmem.more s' = kmem.more s \<and> kend s' = kend s
     \<and> (lk s' = lk s \<or> lk s' = settle (lk s))"

lemma kframe_refl [simp]: "kframe s s"
  by (simp add: kframe_def)

lemma kframe_trans: "kframe s t \<Longrightarrow> kframe t u \<Longrightarrow> kframe s u"
  by (auto simp: kframe_def)

text \<open>
  \<open>pt_ext root s xs s' xs'\<close>: from \<open>s\<close> with free pages \<open>xs\<close> to \<open>s'\<close> the tree at
  \<open>root\<close> only grew by free pages, and no byte outside the tree and the free pages
  changed.
\<close>

definition pages :: "nat set \<Rightarrow> nat set" where
  "pages A = (\<Union>p\<in>A. page p)"

definition pt_ext :: "nat \<Rightarrow> 'z kmem_scheme \<Rightarrow> nat list \<Rightarrow> 'z kmem_scheme \<Rightarrow> nat list \<Rightarrow> bool" where
  "pt_ext root s xs s' xs' \<longleftrightarrow>
     kpool s' xs' \<and> pt_wf (mem s') (set xs') root \<and> set xs' \<subseteq> set xs \<and> kframe s s'
     \<and> tables (mem s') root \<subseteq> tables (mem s) root \<union> (set xs - set xs')
     \<and> tables (mem s) root \<subseteq> tables (mem s') root
     \<and> (\<forall>x. x \<notin> pages (set xs) \<longrightarrow> x \<notin> pages (tables (mem s) root) \<longrightarrow> mem s' x = mem s x)"

lemma pt_ext_refl: "kpool s xs \<Longrightarrow> pt_wf (mem s) (set xs) root \<Longrightarrow> pt_ext root s xs s xs"
  by (simp add: pt_ext_def)

lemma pages_mono: "A \<subseteq> B \<Longrightarrow> pages A \<subseteq> pages B"
  by (auto simp: pages_def)

lemma pages_Un: "pages (A \<union> B) = pages A \<union> pages B"
  by (auto simp: pages_def)

lemma pt_ext_trans:
  assumes "pt_ext root s xs t ys" and "pt_ext root t ys u zs"
  shows "pt_ext root s xs u zs"
proof -
  have st: "set ys \<subseteq> set xs" "kframe s t" "tables (mem t) root \<subseteq> tables (mem s) root \<union> (set xs - set ys)"
    "tables (mem s) root \<subseteq> tables (mem t) root"
    "\<And>x. x \<notin> pages (set xs) \<Longrightarrow> x \<notin> pages (tables (mem s) root) \<Longrightarrow> mem t x = mem s x"
    using assms(1) by (auto simp: pt_ext_def)
  have tu: "kpool u zs" "pt_wf (mem u) (set zs) root" "set zs \<subseteq> set ys" "kframe t u"
    "tables (mem u) root \<subseteq> tables (mem t) root \<union> (set ys - set zs)"
    "tables (mem t) root \<subseteq> tables (mem u) root"
    "\<And>x. x \<notin> pages (set ys) \<Longrightarrow> x \<notin> pages (tables (mem t) root) \<Longrightarrow> mem u x = mem t x"
    using assms(2) by (auto simp: pt_ext_def)
  have "mem u x = mem s x" if x: "x \<notin> pages (set xs)" "x \<notin> pages (tables (mem s) root)" for x
  proof -
    have "pages (tables (mem t) root) \<subseteq> pages (tables (mem s) root) \<union> pages (set xs)"
      using pages_mono[OF st(3)] by (auto simp: pages_def)
    moreover have "pages (set ys) \<subseteq> pages (set xs)" using pages_mono[OF st(1)] .
    ultimately show ?thesis using x st(5) tu(7) by (metis UnE subsetD)
  qed
  then show ?thesis
    using st tu kframe_trans[OF st(2) tu(4)] unfolding pt_ext_def by blast
qed

definition vpath :: "u64 \<Rightarrow> nat \<Rightarrow> nat list" where
  "vpath va l = map (\<lambda>k. PX k va) [Suc l..<3]"

lemma vpath_simps: "l < 2 \<Longrightarrow> vpath va l = PX (Suc l) va # vpath va (Suc l)"
  "vpath va 2 = []" "vpath va 0 = leaf_path va"
  by (auto simp: vpath_def leaf_path_def upt_rec numeral_eq_Suc)

lemma tpath_vpath: "l \<le> 2 \<Longrightarrow> tpath (vpath va l)"
  by (auto simp: vpath_def tpath_def PX_lt)

definition leaf_addr :: "memory \<Rightarrow> nat \<Rightarrow> u64 \<Rightarrow> nat" where
  "leaf_addr m root va =
     (case tpage m root (leaf_path va) of None \<Rightarrow> 0 | Some pg \<Rightarrow> pg + 8 * PX 0 va)"

lemma tpage_None_extend: "l \<le> 2 \<Longrightarrow> tpage m root (vpath va l) = None \<Longrightarrow> tpage m root (leaf_path va) = None"
proof (induction l)
  case 0
  then show ?case by (simp add: vpath_simps)
next
  case (Suc l)
  then have "tpage m root (vpath va l) = None" by (simp add: vpath_simps(1))
  then show ?case using Suc by simp
qed

lemma walk_from_lookup:
  "l \<le> 2 \<Longrightarrow> tpage (mem s) root (vpath va l) = Some pt \<Longrightarrow>
     walk_from l pt va False s = Some (leaf_addr (mem s) root va, s)"
proof (induction l arbitrary: pt)
  case 0
  then show ?case by (simp add: leaf_addr_def vpath_simps)
next
  case (Suc l)
  let ?e = "load64 (mem s) (pt + 8 * PX (Suc l) va)"
  have tp: "tpage (mem s) root (vpath va l) = (if bit ?e 0 then Some (PTE2PA ?e) else None)"
    using Suc.prems by (simp add: vpath_simps(1))
  show ?case
  proof (cases "bit ?e 0")
    case True
    then show ?thesis using Suc tp by (simp add: and_PTE_eq_0)
  next
    case False
    then have "leaf_addr (mem s) root va = 0"
      using tp Suc.prems(1) tpage_None_extend[of l "mem s" root va] by (simp add: leaf_addr_def)
    then show ?thesis using False by (simp add: and_PTE_eq_0)
  qed
qed

text \<open>Without allocation \<^verbatim>\<open>walk\<close> is a lookup and changes nothing.\<close>

lemma walk_lookup [simp]:
  "va < MAXVA \<Longrightarrow> walk root va False s = Some (leaf_addr (mem s) root va, s)"
  by (simp add: walk_def walk_from_lookup vpath_simps leD)

lemma memset_memset [simp]: "memset a c n (memset a d n m) = memset a c n m"
  by (auto simp: memset_apply fun_eq_iff)

text \<open>One allocating level.\<close>

lemma pool_adds_table:
  assumes pool: "kpool s (pg # xs)" and wf: "pt_wf (mem s) (set (pg # xs)) root"
    and a: "adds_table (mem s) m' root P pt i pg"
  shows "pt_ext root s (pg # xs)
    (s\<lparr>lk := settle (lk s), freelist := (case xs of [] \<Rightarrow> 0 | y # _ \<Rightarrow> y), mem := m'\<rparr>) xs"
    (is "pt_ext _ _ _ ?s' _")
proof -
  let ?m5 = "memset pg 5 PGSIZE (mem s)"
  let ?s5 = "s\<lparr>lk := settle (lk s), freelist := (case xs of [] \<Rightarrow> 0 | y # _ \<Rightarrow> y), mem := ?m5\<rparr>"
  have inv: "kmem_inv s (pg # xs)" using pool by (simp add: kpool_def)
  have pt: "pt mod PGSIZE = 0" "pt \<notin> set (pg # xs)" "pt \<in> tables (mem s) root" "i < 512"
    using a wf tablesI[of P "mem s" root pt] by (auto simp: adds_table_def pt_wf_def)
  have m': "m' = store64 (pt + 8 * i) (PA2PTE pg OR PTE_V) (memset pg 0 PGSIZE (mem s))"
    using a by (simp add: adds_table_def)
  have out: "m' x = mem s x" if "x \<notin> page pg" "x \<notin> page pt" for x
    using that pt(4) by (auto simp: m' store64_def memset_apply page_def PGSIZE_def)
  have inv5: "kmem_inv ?s5 xs"
    by (rule kmem_inv_after_kalloc[OF inv]) (auto simp: memset_apply page_def)
  have "kmem_inv (?s5\<lparr>mem := m'\<rparr>) xs"
  proof (rule kmem_inv_mem[OF inv5])
    fix y x assume y: "y \<in> set xs" and x: "x \<in> page y"
    have "y mod PGSIZE = 0" "pg mod PGSIZE = 0" "y \<noteq> pg"
      using inv y by (auto simp: kmem_inv_def is_valid_pa_def)
    then have "x \<notin> page pg" "x \<notin> page pt"
      using page_disjoint[of y pg] page_disjoint[of y pt] x y pt(1,2) by auto
    then show "m' x = mem ?s5 x" using out by (auto simp: memset_apply page_def)
  qed
  then have "kpool ?s' xs" using pool by (simp add: kpool_def)
  moreover have "pg \<notin> set xs" using inv by (simp add: kmem_inv_def)
  ultimately show ?thesis
    using adds_table_wf[OF a wf, of "set xs"] adds_table_tables[OF a wf] out pt(3)
    by (auto simp: pt_ext_def kframe_def pages_def)
qed

lemma pt_ext_settle:
  "kpool s xs \<Longrightarrow> pt_wf (mem s) (set xs) root \<Longrightarrow> pt_ext root s xs (s\<lparr>lk := settle (lk s)\<rparr>) xs"
  by (simp add: pt_ext_def kframe_def kpool_def)

lemma walk_from_alloc:
  assumes "l \<le> 2" and "kpool s xs" and "pt_wf (mem s) (set xs) root"
    and "tpage (mem s) root (vpath va l) = Some pt"
  shows "\<exists>pte s' xs'. walk_from l pt va True s = Some (pte, s') \<and> pt_ext root s xs s' xs'
    \<and> (\<forall>v. leaf (mem s') root v = leaf (mem s) root v)
    \<and> (if pte = 0 then xs' = [] \<and> length xs < l else
         \<exists>pg. tpage (mem s') root (leaf_path va) = Some pg \<and> pte = pg + 8 * PX 0 va)"
  using assms
proof (induction l arbitrary: s xs pt)
  case 0
  then have "0 < pt" by (intro pt_wfD(2)[OF 0(3) _ 0(4)]) (simp add: tpath_vpath)
  then show ?case using 0 pt_ext_refl[OF 0(2,3)] by (auto simp: vpath_simps intro: exI[of _ xs])
next
  case (Suc l)
  let ?i = "PX (Suc l) va" and ?P = "vpath va (Suc l)"
  let ?e = "load64 (mem s) (pt + 8 * ?i)"
  have path: "vpath va l = ?i # ?P" using Suc.prems(1) by (simp add: vpath_simps(1))
  show ?case
  proof (cases "bit ?e 0")
    case True
    then have "tpage (mem s) root (vpath va l) = Some (PTE2PA ?e)"
      using Suc.prems by (simp add: path)
    then show ?thesis
      using Suc.IH[OF _ Suc.prems(2,3)] Suc.prems(1) True
      by (fastforce simp: and_PTE_eq_0 split: if_splits)
  next
    case False
    show ?thesis
    proof (cases xs)
      case Nil
      then have "walk_from (Suc l) pt va True s = Some (0, s\<lparr>lk := settle (lk s)\<rparr>)"
        using False Suc.prems(2) by (simp add: and_PTE_eq_0 kpool_def kalloc_empty)
      then show ?thesis using pt_ext_settle[OF Suc.prems(2,3)] Nil by auto
    next
      case (Cons pg ys)
      let ?m = "store64 (pt + 8 * ?i) (PA2PTE pg OR PTE_V) (memset pg 0 PGSIZE (mem s))"
      let ?t = "s\<lparr>lk := settle (lk s), freelist := (case ys of [] \<Rightarrow> 0 | y # _ \<Rightarrow> y), mem := ?m\<rparr>"
      have valid: "is_valid_pa pg s" "0 < pg"
        using Suc.prems(2) Cons kmem_inv_valid[of s "pg # ys" pg] by (simp_all add: kpool_def)
      have "length ?P < 2" using Suc.prems(1) by (simp add: vpath_def)
      then have a: "adds_table (mem s) ?m root ?P pt ?i pg"
        using Suc.prems False valid is_valid_pa_bound[of pg s] Cons
        by (auto simp: adds_table_def tpath_vpath PX_lt pt_wf_def is_valid_pa_def)
      have ext: "pt_ext root s xs ?t ys"
        using pool_adds_table[OF _ _ a, of ys] Suc.prems(2,3) Cons by simp
      have eq: "walk_from (Suc l) pt va True s = walk_from l pg va True ?t"
        using False Suc.prems(2) valid Cons
        by (simp add: and_PTE_eq_0 kpool_def kalloc_Cons[of s pg ys] Let_def)
      have "tpage (mem ?t) root (vpath va l) = Some pg"
        using adds_table_tpage[OF a Suc.prems(3), of "vpath va l"] tpath_vpath[of l va] Suc.prems(1)
        by (simp add: path del: tpage.simps)
      then obtain pte s' xs' where r: "walk_from l pg va True ?t = Some (pte, s')" "pt_ext root ?t ys s' xs'"
        "\<forall>v. leaf (mem s') root v = leaf (mem ?t) root v"
        "if pte = 0 then xs' = [] \<and> length ys < l else
         \<exists>pg. tpage (mem s') root (leaf_path va) = Some pg \<and> pte = pg + 8 * PX 0 va"
        using Suc.IH[of ?t ys pg] Suc.prems(1) ext by (auto simp: pt_ext_def)
      moreover have "leaf (mem ?t) root v = leaf (mem s) root v" for v
        using adds_table_leaf[OF a Suc.prems(3)] by simp
      ultimately show ?thesis
        using eq pt_ext_trans[OF ext r(2)] Cons by auto
    qed
  qed
qed

lemma walk_alloc:
  assumes "va < MAXVA" "kpool s xs" "pt_wf (mem s) (set xs) root"
  obtains pte s' xs' where "walk root va True s = Some (pte, s')" "pt_ext root s xs s' xs'"
    "\<And>v. leaf (mem s') root v = leaf (mem s) root v"
    "pte = 0 \<Longrightarrow> xs' = [] \<and> length xs < 2"
    "pte \<noteq> 0 \<Longrightarrow> \<exists>pg. tpage (mem s') root (leaf_path va) = Some pg \<and> pte = pg + 8 * PX 0 va"
proof -
  obtain pte s' xs' where r: "walk_from 2 root va True s = Some (pte, s')" "pt_ext root s xs s' xs'"
    "\<forall>v. leaf (mem s') root v = leaf (mem s) root v"
    "if pte = 0 then xs' = [] \<and> length xs < 2 else
       \<exists>pg. tpage (mem s') root (leaf_path va) = Some pg \<and> pte = pg + 8 * PX 0 va"
    using walk_from_alloc[of 2 s xs root va root] assms by (auto simp: vpath_simps)
  then show thesis using assms(1) by (intro that[of pte s' xs']) (auto simp: walk_def leD)
qed

section \<open>mappages\<close>

text \<open>Writing a leaf entry changes the translation of that page only.\<close>

lemma leaf_store_tpage:
  assumes "pt_wf m F root" and "tpage m root (leaf_path va) = Some pg"
    and m': "m' = store64 (pg + 8 * PX 0 va) v m"
  shows "tpath Q \<Longrightarrow> tpage m' root Q = tpage m root Q"
proof (induction Q)
  case (Cons j R)
  then have R: "tpath R" "length R < 2" "j < 512" "tpage m' root R = tpage m root R" by auto
  show ?case
  proof (cases "tpage m root R")
    case (Some q)
    then have "q \<noteq> pg" using pt_wfD(4)[OF assms(1) R(1) Some, of "leaf_path va"] assms(2) R(2) by auto
    moreover have "q mod PGSIZE = 0" "pg mod PGSIZE = 0"
      using pt_wfD(1)[OF assms(1)] Some R(1) assms(2) by (auto intro: tpath_simps)
    ultimately have "page q \<inter> page pg = {}" by (intro page_disjoint)
    then have "m' x = m x" if "x \<in> page q" for x
      using that PX_lt[of 0 va] by (auto simp: m' store64_def page_def PGSIZE_def)
    then have "load64 m' (q + 8 * j) = load64 m (q + 8 * j)" using R(3) by (intro load64_page_cong)
    then show ?thesis using R(4) Some by simp
  qed (use R(4) in simp)
qed simp

lemma leaf_store:
  assumes wf: "pt_wf m F root" and pg: "tpage m root (leaf_path va) = Some pg"
    and m': "m' = store64 (pg + 8 * PX 0 va) e m" and "va < MAXVA" "v < MAXVA"
  shows "leaf m' root v = (if unat v div 4096 = unat va div 4096 then e else leaf m root v)"
proof -
  note tp = leaf_store_tpage[OF wf pg m']
  have same: "unat v div 4096 = unat va div 4096 \<longleftrightarrow> leaf_path v = leaf_path va \<and> PX 0 v = PX 0 va"
    using page_eq_iff_PX[OF assms(5,4)] by (auto simp: leaf_path_def)
  show ?thesis
  proof (cases "tpage m root (leaf_path v)")
    case None
    then show ?thesis using tp[of "leaf_path v"] pg same by (auto simp: leaf_def)
  next
    case (Some q)
    have "load64 m' (q + 8 * PX 0 v) = (if leaf_path v = leaf_path va \<and> PX 0 v = PX 0 va then e else load64 m (q + 8 * PX 0 v))"
    proof (cases "leaf_path v = leaf_path va")
      case True
      then have "q = pg" using Some pg by simp
      moreover have "PX 0 v \<noteq> PX 0 va \<Longrightarrow>
          pg + 8 * PX 0 v + 8 \<le> pg + 8 * PX 0 va \<or> pg + 8 * PX 0 va + 8 \<le> pg + 8 * PX 0 v" by auto
      ultimately show ?thesis using True by (simp add: m' mem_simps)
    next
      case False
      then have "q \<noteq> pg" using pt_wfD(4)[OF wf _ Some, of "leaf_path va"] pg by auto
      then have "page q \<inter> page pg = {}"
        using pt_wfD(1)[OF wf _ Some] pt_wfD(1)[OF wf _ pg] by (intro page_disjoint) simp_all
      then have "m' x = m x" if "x \<in> page q" for x
        using that PX_lt[of 0 va] by (auto simp: m' store64_def page_def PGSIZE_def)
      then show ?thesis using False PX_lt[of 0 v] load64_page_cong[of q m' m "PX 0 v"] by simp
    qed
    then show ?thesis using Some tp[of "leaf_path v"] same by (simp add: leaf_def)
  qed
qed

lemma pt_ext_leaf_store:
  assumes "kpool s xs" and wf: "pt_wf (mem s) (set xs) root"
    and pg: "tpage (mem s) root (leaf_path va) = Some pg"
  shows "pt_ext root s xs (s\<lparr>mem := store64 (pg + 8 * PX 0 va) e (mem s)\<rparr>) xs"
proof -
  let ?m = "store64 (pg + 8 * PX 0 va) e (mem s)"
  note tp = leaf_store_tpage[OF wf pg refl, of _ e]
  have tb: "tables ?m root = tables (mem s) root" using tp by (auto simp: tables_def)
  then have wf': "pt_wf ?m (set xs) root" using wf tp by (auto simp: pt_wf_def)
  have pgt: "pg \<in> tables (mem s) root" "pg mod PGSIZE = 0" "pg \<notin> set xs"
    using tablesI[OF _ pg] pt_wfD[OF wf _ pg] by simp_all
  have out: "?m x = mem s x" if "x \<notin> page pg" for x
    using that PX_lt[of 0 va] by (auto simp: store64_def page_def PGSIZE_def)
  have "kmem_inv (s\<lparr>mem := ?m\<rparr>) xs"
  proof (rule kmem_inv_mem)
    show "kmem_inv s xs" using assms(1) by (simp add: kpool_def)
    fix y x assume y: "y \<in> set xs" and x: "x \<in> page y"
    then have "y mod PGSIZE = 0" "y \<noteq> pg"
      using assms(1) pgt(3) by (auto simp: kpool_def kmem_inv_def is_valid_pa_def)
    then have "x \<notin> page pg" using page_disjoint[of y pg] x pgt(2) by auto
    then show "?m x = mem s x" by (rule out)
  qed
  then show ?thesis
    using assms(1) wf' tb out pgt(1) by (auto simp: pt_ext_def kframe_def kpool_def pages_def)
qed

lemma mappages_page:
  assumes "va < MAXVA" and "va mod 4096 = 0" and "kpool s xs" and "pt_wf (mem s) (set xs) root"
    and free: "\<not> bit (leaf (mem s) root va) 0"
  obtains r s' xs' where "mappages root va 4096 pa perm s = Some (r, s')" "pt_ext root s xs s' xs'"
    "r = 0 \<or> r = -1 \<and> xs' = [] \<and> length xs < 2"
    "\<And>v. v < MAXVA \<Longrightarrow> leaf (mem s') root v =
       (if r = 0 \<and> unat v div 4096 = unat va div 4096 then PA2PTE pa OR perm OR PTE_V
        else leaf (mem s) root v)"
proof -
  obtain pte t ys where w: "walk root va True s = Some (pte, t)" "pt_ext root s xs t ys"
    "\<And>v. leaf (mem t) root v = leaf (mem s) root v" "pte = 0 \<Longrightarrow> ys = [] \<and> length xs < 2"
    "pte \<noteq> 0 \<Longrightarrow> \<exists>pg. tpage (mem t) root (leaf_path va) = Some pg \<and> pte = pg + 8 * PX 0 va"
    using walk_alloc[OF assms(1,3,4)] by blast
  have run: "mappages root va 4096 pa perm s = (if pte = 0 then Some (-1, t)
      else if bit (load64 (mem t) pte) 0 then None
      else Some (0, t\<lparr>mem := store64 pte (PA2PTE pa OR perm OR PTE_V) (mem t)\<rparr>))"
    using assms(2) w(1) by (simp add: mappages_def PGSIZE_def mappages_loop.simps and_PTE_eq_0)
  show thesis
  proof (cases "pte = 0")
    case True
    then show thesis using that[of "-1" t ys] run w by simp
  next
    case False
    then obtain pg where pg: "tpage (mem t) root (leaf_path va) = Some pg" "pte = pg + 8 * PX 0 va"
      using w(5) by blast
    then have "load64 (mem t) pte = leaf (mem s) root va" using w(3)[of va] by (simp add: leaf_def)
    then have "mappages root va 4096 pa perm s =
        Some (0, t\<lparr>mem := store64 pte (PA2PTE pa OR perm OR PTE_V) (mem t)\<rparr>)"
      using run False free by simp
    moreover have "kpool t ys" and wft: "pt_wf (mem t) (set ys) root" using w(2) by (simp_all add: pt_ext_def)
    then have "pt_ext root t ys (t\<lparr>mem := store64 pte (PA2PTE pa OR perm OR PTE_V) (mem t)\<rparr>) ys"
      using pt_ext_leaf_store[of t ys root va pg] pg by simp
    ultimately show thesis
      using that[OF _ pt_ext_trans[OF w(2)]] leaf_store[OF wft pg(1) refl assms(1)] pg(2) w(3) by auto
  qed
qed

end
