(* ===== verification/UserMem.thy ===== *)
theory UserMem
  imports VmFacts
begin

text \<open>
  User memory as the kernel sees it. \<open>vbyte m root va\<close> is the byte a user access to
  \<open>va\<close> would reach; \<open>uvm_wf\<close> adds to the tree invariant that user pages are mapped
  once, and are neither page tables nor free. Under it the page-fault handler
  \<^verbatim>\<open>vmfault\<close> adds a zero page, \<^verbatim>\<open>copyout\<close> changes exactly the addressed bytes, and
  \<^verbatim>\<open>copyin\<close> reads them back.
\<close>

unbundle bit_operations_syntax

definition upa :: "memory \<Rightarrow> nat \<Rightarrow> u64 \<Rightarrow> nat option" where
  "upa m root va =
     (let e = leaf m root va in if bit e 0 \<and> bit e 4 then Some (PTE2PA e) else None)"

definition vbyte :: "memory \<Rightarrow> nat \<Rightarrow> u64 \<Rightarrow> u8 option" where
  "vbyte m root va = map_option (\<lambda>pa. m (pa + unat va mod 4096)) (upa m root va)"

definition vpage :: "u64 \<Rightarrow> nat" where
  "vpage va = unat va div 4096"

definition upages :: "memory \<Rightarrow> nat \<Rightarrow> nat set" where
  "upages m root = {pa. \<exists>va<MAXVA. upa m root va = Some pa}"

definition uvm_wf :: "'z kmem_scheme \<Rightarrow> nat list \<Rightarrow> nat \<Rightarrow> bool" where
  "uvm_wf s xs root \<longleftrightarrow>
     kpool s xs \<and> pt_wf (mem s) (set xs) root
     \<and> 0 \<notin> upages (mem s) root \<and> upages (mem s) root \<inter> (set xs \<union> tables (mem s) root) = {}
     \<and> (\<forall>va va' pa. va < MAXVA \<longrightarrow> va' < MAXVA \<longrightarrow> upa (mem s) root va = Some pa \<longrightarrow>
          upa (mem s) root va' = Some pa \<longrightarrow> vpage va = vpage va')"

lemma uvm_wfD:
  assumes "uvm_wf s xs root"
  shows "kpool s xs" "pt_wf (mem s) (set xs) root"
    and "va < MAXVA \<Longrightarrow> upa (mem s) root va = Some pa \<Longrightarrow> 0 < pa \<and> pa \<notin> set xs \<and> pa \<notin> tables (mem s) root"
    and "va < MAXVA \<Longrightarrow> va' < MAXVA \<Longrightarrow> upa (mem s) root va = Some pa \<Longrightarrow>
       upa (mem s) root va' = Some pa \<Longrightarrow> vpage va = vpage va'"
proof -
  show "kpool s xs" "pt_wf (mem s) (set xs) root" using assms by (simp_all add: uvm_wf_def)
  assume va: "va < MAXVA" and pa: "upa (mem s) root va = Some pa"
  then have "pa \<in> upages (mem s) root" by (auto simp: upages_def)
  then show "0 < pa \<and> pa \<notin> set xs \<and> pa \<notin> tables (mem s) root"
    using assms unfolding uvm_wf_def by (cases "pa = 0") auto
  show "vpage va = vpage va'" if "va' < MAXVA" "upa (mem s) root va' = Some pa"
    using assms va pa that unfolding uvm_wf_def by blast
qed

lemma upa_aligned: "upa m root va = Some pa \<Longrightarrow> pa mod PGSIZE = 0"
  using PTE2PA_aligned[of "leaf m root va"]
  by (auto simp: upa_def Let_def PGSIZE_def mod_eq_0_iff_dvd split: if_splits)

lemma upa_leaf_cong: "leaf m' root va = leaf m root va \<Longrightarrow> upa m' root va = upa m root va"
  by (simp only: upa_def)

lemma free_aligned: "kpool s xs \<Longrightarrow> x \<in> set xs \<Longrightarrow> x mod PGSIZE = 0"
  by (auto simp: kpool_def kmem_inv_def is_valid_pa_def)

lemma offset_in_page: "pa + unat (va :: u64) mod 4096 \<in> page pa"
  by (simp add: page_def PGSIZE_def)

lemma leaf_page_cong:
  assumes "vpage va = vpage va'" "va < MAXVA" "va' < MAXVA"
  shows "leaf m root va = leaf m root va'"
  using page_eq_iff_PX[OF assms(2,3)] assms(1) by (simp add: vpage_def leaf_def leaf_path_def)

lemma vpage_PGROUNDDOWN [simp]: "vpage (PGROUNDDOWN va) = vpage va"
  by (simp add: vpage_def PGROUNDDOWN_unat)

section \<open>walkaddr\<close>

lemma walkaddr_eq:
  assumes "pt_wf (mem s) F root"
  shows "walkaddr root va s =
    Some (if MAXVA \<le> va then 0 else case upa (mem s) root va of None \<Rightarrow> 0 | Some pa \<Rightarrow> pa, s)"
proof (cases "MAXVA \<le> va")
  case False
  then have lt: "va < MAXVA" by simp
  show ?thesis
  proof (cases "tpage (mem s) root (leaf_path va)")
    case None
    then show ?thesis using lt by (simp add: walkaddr_def leaf_addr_def upa_def leaf_def leD)
  next
    case (Some pg)
    then have "0 < pg" using pt_wfD(2)[OF assms _ Some] by simp
    then show ?thesis using lt Some
      by (simp add: walkaddr_def leaf_addr_def upa_def leaf_def leD and_PTE_eq_0 Let_def)
  qed
qed (simp add: walkaddr_def)

lemma leaf_addr_load:
  assumes "pt_wf m F root" "bit (leaf m root va) 0"
  shows "leaf_addr m root va \<noteq> 0" "load64 m (leaf_addr m root va) = leaf m root va"
proof -
  obtain pg where pg: "tpage m root (leaf_path va) = Some pg"
    using assms(2) by (cases "tpage m root (leaf_path va)") (auto simp: leaf_def)
  then have "0 < pg" using pt_wfD(2)[OF assms(1) _ pg] by simp
  then show "leaf_addr m root va \<noteq> 0" "load64 m (leaf_addr m root va) = leaf m root va"
    using pg by (simp_all add: leaf_addr_def leaf_def)
qed

section \<open>Writes outside the tables\<close>

lemma pt_wf_free: "pt_wf m F root \<Longrightarrow> G \<inter> tables m root = {} \<Longrightarrow> pt_wf m G root"
  unfolding pt_wf_def by blast

lemma uvm_wf_other_bytes:
  assumes wf: "uvm_wf s xs root" and pool: "kpool s' ys"
    and same: "\<And>pg x. pg \<in> tables (mem s) root \<Longrightarrow> x \<in> page pg \<Longrightarrow> mem s' x = mem s x"
    and free: "set ys \<inter> (tables (mem s) root \<union> upages (mem s) root) = {}"
  shows "uvm_wf s' ys root" and "leaf (mem s') root va = leaf (mem s) root va"
proof -
  have lf: "leaf (mem s') root va = leaf (mem s) root va" for va by (rule leaf_cong) (rule same)
  then show "leaf (mem s') root va = leaf (mem s) root va" .
  have tb: "tables (mem s') root = tables (mem s) root" by (rule tables_cong) (rule same)
  have up: "upa (mem s') root va = upa (mem s) root va" for va using lf by (rule upa_leaf_cong)
  then have ups: "upages (mem s') root = upages (mem s) root" by (simp add: upages_def)
  have "pt_wf (mem s) (set ys) root"
    by (rule pt_wf_free[OF uvm_wfD(2)[OF wf]]) (use free in blast)
  then have "pt_wf (mem s') (set ys) root" using pt_wf_cong[OF same] by simp
  moreover have "upages (mem s) root \<inter> (set ys \<union> tables (mem s) root) = {}"
    using free wf unfolding uvm_wf_def by blast
  ultimately show "uvm_wf s' ys root"
    using wf pool unfolding uvm_wf_def up ups tb by blast
qed

lemma user_write:
  assumes wf: "uvm_wf s xs root" and pa: "upa (mem s) root va = Some pa" and va: "va < MAXVA"
    and len: "off + length bs \<le> 4096"
  defines "s' \<equiv> s\<lparr>mem := mem_put (pa + off) bs (mem s)\<rparr>"
  shows "uvm_wf s' xs root" and "leaf (mem s') root v = leaf (mem s) root v"
    and "v < MAXVA \<Longrightarrow> vbyte (mem s') root v =
       (if vpage v = vpage va \<and> off \<le> unat v mod 4096 \<and> unat v mod 4096 < off + length bs
        then Some (bs ! (unat v mod 4096 - off)) else vbyte (mem s) root v)"
proof -
  have al: "pa mod PGSIZE = 0" using upa_aligned[OF pa] .
  have own: "0 < pa" "pa \<notin> set xs" "pa \<notin> tables (mem s) root" using uvm_wfD(3)[OF wf va pa] by auto
  have out: "mem s' x = mem s x" if "x \<notin> page pa" for x
    using that len by (auto simp: s'_def mem_put_def page_def PGSIZE_def)
  have outp: "mem s' x = mem s x" if "q mod PGSIZE = 0" "q \<noteq> pa" "x \<in> page q" for q x
    using page_disjoint[OF that(1) al that(2)] that(3) by (intro out) auto
  have "kmem_inv (s\<lparr>mem := mem s'\<rparr>) xs"
  proof (rule kmem_inv_mem)
    show "kmem_inv s xs" using uvm_wfD(1)[OF wf] by (simp add: kpool_def)
    fix y x assume "y \<in> set xs" "x \<in> page y"
    then show "mem s' x = mem s x"
      using free_aligned[OF uvm_wfD(1)[OF wf]] own(2) by (intro outp[of y]) auto
  qed
  then have "kmem_inv s' xs" by (simp add: s'_def)
  then have pool: "kpool s' xs" using uvm_wfD(1)[OF wf] by (simp add: kpool_def s'_def)
  have same: "mem s' x = mem s x" if "pg \<in> tables (mem s) root" "x \<in> page pg" for pg x
  proof (rule outp)
    show "pg mod PGSIZE = 0" using that uvm_wfD(2)[OF wf] by (auto simp: pt_wf_def)
  qed (use that own in auto)
  have free: "set xs \<inter> (tables (mem s) root \<union> upages (mem s) root) = {}"
    using wf by (auto simp: uvm_wf_def pt_wf_def)
  note keep = uvm_wf_other_bytes[OF wf pool same free]
  show "uvm_wf s' xs root" by (rule keep(1))
  show lf: "leaf (mem s') root v = leaf (mem s) root v" for v by (rule keep(2))
  assume v: "v < MAXVA"
  have up: "upa (mem s') root v = upa (mem s) root v" using lf by (rule upa_leaf_cong)
  show "vbyte (mem s') root v =
       (if vpage v = vpage va \<and> off \<le> unat v mod 4096 \<and> unat v mod 4096 < off + length bs
        then Some (bs ! (unat v mod 4096 - off)) else vbyte (mem s) root v)"
  proof (cases "vpage v = vpage va")
    case True
    then have "upa (mem s) root v = Some pa"
      using pa leaf_page_cong[OF True v va, of "mem s" root] by (simp add: upa_def)
    then show ?thesis using True up by (auto simp: vbyte_def s'_def mem_put_def)
  next
    case False
    show ?thesis
    proof (cases "upa (mem s) root v")
      case (Some q)
      then have "q \<noteq> pa" using uvm_wfD(4)[OF wf v va] pa False by auto
      then have "mem s' (q + unat v mod 4096) = mem s (q + unat v mod 4096)"
        using outp[OF upa_aligned[OF Some]] offset_in_page by blast
      then show ?thesis using Some up False by (simp add: vbyte_def)
    qed (use up False in \<open>simp add: vbyte_def\<close>)
  qed
qed

section \<open>Taking, mapping and returning a page\<close>

lemma kframe_ptable:
  assumes "kframe s s'"
  shows "procs s' = procs s" "nextpid s' = nextpid s" "initproc s' = initproc s"
    "ptable.more s' = ptable.more s" "cproc (mycpu (lk s')) = cproc (mycpu (lk s))"
  using assms by (cases s; cases s'; auto simp: kframe_def)+

definition unowned :: "nat \<Rightarrow> 'z kmem_scheme \<Rightarrow> nat list \<Rightarrow> nat \<Rightarrow> bool" where
  "unowned pg s xs root \<longleftrightarrow> is_valid_pa pg s \<and> 0 < pg \<and> pg \<notin> set xs \<and> pg \<notin> tables (mem s) root
     \<and> pg \<notin> upages (mem s) root"

lemma vbyte_cong:
  assumes "leaf m' root v = leaf m root v"
    and "\<And>pa x. upa m root v = Some pa \<Longrightarrow> x \<in> page pa \<Longrightarrow> m' x = m x"
  shows "vbyte m' root v = vbyte m root v"
  using upa_leaf_cong[OF assms(1)] assms(2) offset_in_page
  by (cases "upa m root v") (simp_all add: vbyte_def)

lemma uvm_wf_other_page:
  assumes wf: "uvm_wf s xs root" and pool: "kpool s' ys"
    and out: "\<And>x. x \<notin> page pg \<Longrightarrow> mem s' x = mem s x"
    and pg: "pg mod PGSIZE = 0" "pg \<notin> tables (mem s) root" "pg \<notin> upages (mem s) root"
    and free: "set ys \<inter> (tables (mem s) root \<union> upages (mem s) root) = {}"
  shows "uvm_wf s' ys root" and "leaf (mem s') root v = leaf (mem s) root v"
    and "v < MAXVA \<Longrightarrow> vbyte (mem s') root v = vbyte (mem s) root v"
    and "tables (mem s') root = tables (mem s) root" "upages (mem s') root = upages (mem s) root"
proof -
  have outp: "mem s' x = mem s x" if "q mod PGSIZE = 0" "q \<noteq> pg" "x \<in> page q" for q x
    using page_disjoint[OF that(1) pg(1) that(2)] that(3) by (intro out) auto
  have same: "mem s' x = mem s x" if "q \<in> tables (mem s) root" "x \<in> page q" for q x
  proof (rule outp)
    show "q mod PGSIZE = 0" using that uvm_wfD(2)[OF wf] by (auto simp: pt_wf_def)
  qed (use that pg in auto)
  note keep = uvm_wf_other_bytes[OF wf pool same free]
  show "uvm_wf s' ys root" by (rule keep(1))
  show lf: "leaf (mem s') root v = leaf (mem s) root v" for v by (rule keep(2))
  show "tables (mem s') root = tables (mem s) root" by (rule tables_cong) (rule same)
  show "upages (mem s') root = upages (mem s) root"
    using upa_leaf_cong[OF lf] by (simp add: upages_def)
  assume v: "v < MAXVA"
  show "vbyte (mem s') root v = vbyte (mem s) root v"
  proof (rule vbyte_cong[OF lf])
    fix pa x assume pa: "upa (mem s) root v = Some pa" and x: "x \<in> page pa"
    have "pa \<in> upages (mem s) root" using pa v by (auto simp: upages_def)
    then show "mem s' x = mem s x" using outp[OF upa_aligned[OF pa] _ x] pg(3) by auto
  qed
qed

lemma take_page:
  fixes c :: int
  assumes wf: "uvm_wf s (pg # ys) root"
  defines "t \<equiv> s\<lparr>lk := settle (lk s), freelist := (case ys of [] \<Rightarrow> 0 | y # _ \<Rightarrow> y),
      mem := memset pg c PGSIZE (mem s)\<rparr>"
  shows "uvm_wf t ys root" "unowned pg t ys root" "kframe s t"
    and "leaf (mem t) root v = leaf (mem s) root v"
    and "v < MAXVA \<Longrightarrow> vbyte (mem t) root v = vbyte (mem s) root v"
proof -
  have pool: "kpool s (pg # ys)" by (rule uvm_wfD(1)[OF wf])
  then have inv: "kmem_inv s (pg # ys)" by (simp add: kpool_def)
  have out: "mem t x = mem s x" if "x \<notin> page pg" for x
    using that by (auto simp: t_def memset_apply page_def)
  have pg: "is_valid_pa pg s" "0 < pg" "pg \<notin> set ys"
    using inv kmem_inv_valid[OF inv, of pg] by (auto simp: kmem_inv_def)
  have own: "pg \<notin> tables (mem s) root" "pg \<notin> upages (mem s) root"
    using wf by (auto simp: uvm_wf_def pt_wf_def)
  have "kmem_inv t ys"
    unfolding t_def by (rule kmem_inv_after_kalloc[OF inv]) (auto simp: memset_apply page_def)
  then have pt: "kpool t ys" using pool by (simp add: kpool_def t_def)
  have al: "pg mod PGSIZE = 0" using pg(1) by (simp add: is_valid_pa_def)
  have free: "set ys \<inter> (tables (mem s) root \<union> upages (mem s) root) = {}"
    using wf unfolding uvm_wf_def pt_wf_def by auto
  note k = uvm_wf_other_page[OF wf pt out al own free]
  show "uvm_wf t ys root" by (rule k(1))
  show "leaf (mem t) root v = leaf (mem s) root v" by (rule k(2))
  show "vbyte (mem t) root v = vbyte (mem s) root v" if "v < MAXVA" by (rule k(3)[OF _ that])
  show "unowned pg t ys root" using pg own k(4,5) by (simp add: unowned_def t_def)
  show "kframe s t" by (simp add: kframe_def t_def)
qed

lemma return_page:
  assumes wf: "uvm_wf s xs root" and u: "unowned pg s xs root"
  obtains s' where "kfree pg s = Some s'" "uvm_wf s' (pg # xs) root" "kframe s s'"
    "\<And>v. leaf (mem s') root v = leaf (mem s) root v"
    "\<And>v. v < MAXVA \<Longrightarrow> vbyte (mem s') root v = vbyte (mem s) root v"
proof -
  have pool: "kpool s xs" by (rule uvm_wfD(1)[OF wf])
  have pg: "is_valid_pa pg s" "pg \<notin> set xs" "pg mod PGSIZE = 0" "pg \<notin> tables (mem s) root"
    "pg \<notin> upages (mem s) root" using u by (auto simp: unowned_def is_valid_pa_def)
  obtain t where t: "kfree pg s = Some t" "kpool t (pg # xs)" "\<And>x. x \<notin> page pg \<Longrightarrow> mem t x = mem s x"
    using kmem_pool.dealloc_ok[OF pool pg(1,2)] by blast
  have fr: "kframe s t" using t(1) pool pg(1) by (auto simp: kfree_eq kpool_def kframe_def)
  have free: "set (pg # xs) \<inter> (tables (mem s) root \<union> upages (mem s) root) = {}"
    using wf pg(4,5) unfolding uvm_wf_def pt_wf_def by auto
  note k = uvm_wf_other_page[OF wf t(2,3) pg(3,4,5) free]
  show thesis by (rule that[OF t(1) k(1) fr k(2,3)])
qed

lemma pt_ext_user_byte:
  assumes "pt_ext root s xs s' xs'" and "pa mod PGSIZE = 0" "pa \<notin> set xs" "pa \<notin> tables (mem s) root"
    and "kpool s xs" "pt_wf (mem s) (set xs) root" and "x \<in> page pa"
  shows "mem s' x = mem s x"
proof -
  have "x \<notin> page q" if "q \<in> set xs \<union> tables (mem s) root" for q
  proof -
    have "q mod PGSIZE = 0" using that free_aligned[OF assms(5)] assms(6) by (auto simp: pt_wf_def)
    moreover have "q \<noteq> pa" using that assms(3,4) by auto
    ultimately show ?thesis using page_disjoint[of q pa] assms(2,7) by auto
  qed
  then show ?thesis using assms(1) by (auto simp: pt_ext_def pages_def)
qed

lemma map_user_page:
  assumes wf: "uvm_wf s xs root" and pg: "unowned pg s xs root"
    and va: "va < MAXVA" "va mod 4096 = 0" and free: "\<not> bit (leaf (mem s) root va) 0"
    and perm: "perm OR PTE_V < 1024" "bit perm 4"
  obtains r s' xs' where "mappages root va 4096 pg perm s = Some (r, s')" "uvm_wf s' xs' root"
    "kframe s s'" "r = 0 \<or> r = -1 \<and> length xs < 2" "r \<noteq> 0 \<Longrightarrow> unowned pg s' xs' root"
    "\<And>v. v < MAXVA \<Longrightarrow> leaf (mem s') root v =
       (if r = 0 \<and> vpage v = vpage va then PA2PTE pg OR perm OR PTE_V else leaf (mem s) root v)"
    "\<And>v. v < MAXVA \<Longrightarrow> vbyte (mem s') root v =
       (if r = 0 \<and> vpage v = vpage va then Some (mem s (pg + unat v mod 4096))
        else vbyte (mem s) root v)"
proof -
  have pool: "kpool s xs" and ptwf: "pt_wf (mem s) (set xs) root" using uvm_wfD(1,2)[OF wf] .
  obtain r s' xs' where m: "mappages root va 4096 pg perm s = Some (r, s')" "pt_ext root s xs s' xs'"
    "r = 0 \<or> r = -1 \<and> xs' = [] \<and> length xs < 2"
    and lf: "\<And>v. v < MAXVA \<Longrightarrow> leaf (mem s') root v =
       (if r = 0 \<and> vpage v = vpage va then PA2PTE pg OR perm OR PTE_V else leaf (mem s) root v)"
    using mappages_page[OF va pool ptwf free, of pg perm] unfolding vpage_def by blast
  have ext: "kpool s' xs'" "pt_wf (mem s') (set xs') root" "set xs' \<subseteq> set xs" "kframe s s'"
    "tables (mem s') root \<subseteq> tables (mem s) root \<union> (set xs - set xs')"
    using m(2) by (auto simp: pt_ext_def)
  have own: "is_valid_pa pg s" "0 < pg" "pg \<notin> set xs" "pg \<notin> tables (mem s) root" "pg \<notin> upages (mem s) root"
    using pg by (auto simp: unowned_def)
  have al: "pg mod PGSIZE = 0" using own(1) by (simp add: is_valid_pa_def)
  let ?e = "PA2PTE pg OR perm OR PTE_V"
  have e: "PTE2PA ?e = pg" "bit ?e 0" "bit ?e 4"
    using PTE2PA_PA2PTE[of pg, OF _ is_valid_pa_bound[OF own(1)] perm(1)] al perm(2)
    by (simp_all add: PGSIZE_def mod_eq_0_iff_dvd bit_or_iff bit_PTE)
  have up: "upa (mem s') root v = (if r = 0 \<and> vpage v = vpage va then Some pg else upa (mem s) root v)"
    if "v < MAXVA" for v using lf[OF that] e by (auto simp: upa_def Let_def)
  have ups: "upages (mem s') root \<subseteq> insert pg (upages (mem s) root)"
    using up by (auto simp: upages_def split: if_splits)
  have wf': "uvm_wf s' xs' root"
    unfolding uvm_wf_def
  proof (intro conjI allI impI)
    show "0 \<notin> upages (mem s') root" using ups own(2) wf by (auto simp: uvm_wf_def)
    have "upages (mem s) root \<inter> (set xs \<union> tables (mem s) root) = {}" using wf by (simp add: uvm_wf_def)
    then show "upages (mem s') root \<inter> (set xs' \<union> tables (mem s') root) = {}"
      using ups ext(3,5) own(3,4) by blast
    fix v w pa assume v: "v < MAXVA" "w < MAXVA" "upa (mem s') root v = Some pa" "upa (mem s') root w = Some pa"
    have n: "upa (mem s) root u \<noteq> Some pg" if "u < MAXVA" for u
      using own(5) that unfolding upages_def by blast
    show "vpage v = vpage w"
      using v(3,4) n[OF v(1)] n[OF v(2)] uvm_wfD(4)[OF wf v(1,2), of pa]
      unfolding up[OF v(1)] up[OF v(2)]
      by (cases "r = 0 \<and> vpage v = vpage va"; cases "r = 0 \<and> vpage w = vpage va") simp_all
  qed (rule ext(1,2))+
  have vb: "vbyte (mem s') root v = (if r = 0 \<and> vpage v = vpage va then Some (mem s (pg + unat v mod 4096))
        else vbyte (mem s) root v)" if v: "v < MAXVA" for v
  proof (cases "r = 0 \<and> vpage v = vpage va")
    case True
    then show ?thesis
      using up[OF v] pt_ext_user_byte[OF m(2) al own(3,4) pool ptwf offset_in_page]
      by (simp add: vbyte_def)
  next
    case False
    then have "leaf (mem s') root v = leaf (mem s) root v" using lf[OF v] by auto
    then have "vbyte (mem s') root v = vbyte (mem s) root v"
      using pt_ext_user_byte[OF m(2) upa_aligned _ _ pool ptwf] uvm_wfD(3)[OF wf v]
      by (intro vbyte_cong) auto
    then show ?thesis using False by auto
  qed
  have un: "unowned pg s' xs' root" if "r \<noteq> 0"
  proof -
    have "upages (mem s') root = upages (mem s) root" using up that by (auto simp: upages_def)
    moreover have "is_valid_pa pg s'" using own(1) ext(4) by (simp add: is_valid_pa_def kframe_def)
    ultimately show ?thesis using own ext(3,5) by (auto simp: unowned_def)
  qed
  show thesis using that[OF m(1) wf' ext(4) _ un lf vb] m(3) by blast
qed

section \<open>Page faults\<close>

lemma PGROUNDDOWN_le: "PGROUNDDOWN va \<le> va"
  by (simp add: word_le_nat_alt PGROUNDDOWN_unat)

lemma PGROUNDDOWN_lt: "va < MAXVA \<Longrightarrow> PGROUNDDOWN va < MAXVA"
  using PGROUNDDOWN_le order_le_less_trans by blast

lemma PGROUNDDOWN_mod: "PGROUNDDOWN va mod 4096 = 0"
proof -
  have "unat (PGROUNDDOWN va mod 4096) = 0" by (simp add: unat_mod PGROUNDDOWN_unat)
  then show ?thesis by (simp add: unat_eq_0)
qed

lemma uvm_wf_settle [simp]: "uvm_wf (s\<lparr>lk := settle (lk s)\<rparr>) xs root = uvm_wf s xs root"
  by (simp add: uvm_wf_def kpool_def)

lemma fault_flags: "(PTE_W OR PTE_U OR PTE_R) OR PTE_V < 1024" "bit (PTE_W OR PTE_U OR PTE_R) 4"
  "bit ((PTE_W OR PTE_U OR PTE_R) OR PTE_V) 2"
  by (simp_all add: bit_or_iff bit_PTE) (simp_all add: pte_bit_defs push_bit_eq_mult)

text \<open>
  \<^verbatim>\<open>vmfault\<close> on the running process's page table: it either maps a fresh zero page,
  writable by the user, at the page of \<open>va\<close>, or returns \<open>0\<close>; no other byte changes.
\<close>

definition vmfault_post :: "nat \<Rightarrow> u64 \<Rightarrow> 'z kmem_scheme \<Rightarrow> nat \<Rightarrow> 'z kmem_scheme \<Rightarrow> bool" where
  "vmfault_post root va s r s' \<longleftrightarrow> kframe s s'
     \<and> (r \<noteq> 0 \<longrightarrow> upa (mem s') root va = Some r \<and> bit (leaf (mem s') root va) 2
          \<and> vbyte (mem s) root va = None)
     \<and> (\<forall>v<MAXVA. vbyte (mem s') root v =
          (if r \<noteq> 0 \<and> vpage v = vpage va then Some 0 else vbyte (mem s) root v))"

lemma vmfault_post_unchanged:
  "kframe s s' \<Longrightarrow> (\<And>v. v < MAXVA \<Longrightarrow> vbyte (mem s') root v = vbyte (mem s) root v) \<Longrightarrow>
     vmfault_post root va s 0 s'"
  by (simp add: vmfault_post_def)

text \<open>The part of \<^verbatim>\<open>vmfault\<close> that allocates, zeroes and maps.\<close>

definition fault_map :: "nat \<Rightarrow> u64 \<Rightarrow> 'z kmem_scheme \<Rightarrow> (nat \<times> 'z kmem_scheme) option" where
  "fault_map root va s = do {
     (pg, s) \<leftarrow> kalloc s;
     if pg = 0 then Some (0, s)
     else do {
       let s = s\<lparr>mem := memset pg 0 PGSIZE (mem s)\<rparr>;
       (r, s) \<leftarrow> mappages root va (of_nat PGSIZE) pg (PTE_W OR PTE_U OR PTE_R) s;
       if r \<noteq> 0 then do {
         s \<leftarrow> kfree pg s;
         Some (0, s)
       } else Some (pg, s)
     }
   }"

lemma fault_map_mapped:
  assumes un: "unowned pg t ys root" and lf: "leaf m root va = PA2PTE pg OR (PTE_W OR PTE_U OR PTE_R) OR PTE_V"
  shows "upa m root va = Some pg" and "bit (leaf m root va) 2"
proof -
  have "is_valid_pa pg t" using un by (simp add: unowned_def)
  then have "PTE2PA (PA2PTE pg OR (PTE_W OR PTE_U OR PTE_R) OR PTE_V) = pg"
    using is_valid_pa_bound[of pg t] fault_flags(1)
    by (intro PTE2PA_PA2PTE) (auto simp: is_valid_pa_def PGSIZE_def)
  then show "upa m root va = Some pg" and "bit (leaf m root va) 2"
    using lf by (simp_all add: upa_def bit_or_iff bit_PTE)
qed

lemma fault_map_spec:
  assumes wf: "uvm_wf s xs root" and va: "va < MAXVA" "va mod 4096 = 0"
    and un: "\<not> bit (leaf (mem s) root va) 0"
  shows "\<exists>r s' xs'. fault_map root va s = Some (r, s') \<and> uvm_wf s' xs' root \<and> vmfault_post root va s r s'
    \<and> (r = 0 \<longrightarrow> length xs < 3)"
proof (cases xs)
  case Nil
  have pool: "kpool s xs" by (rule uvm_wfD(1)[OF wf])
  then have "fault_map root va s = Some (0, s\<lparr>lk := settle (lk s)\<rparr>)"
    using Nil by (simp add: fault_map_def kalloc_empty kpool_def)
  moreover have "vmfault_post root va s 0 (s\<lparr>lk := settle (lk s)\<rparr>)"
    by (rule vmfault_post_unchanged) (simp_all add: kframe_def)
  ultimately show ?thesis using wf Nil by fastforce
next
  case (Cons pg ys)
  let ?u = "s\<lparr>lk := settle (lk s), freelist := (case ys of [] \<Rightarrow> 0 | y # _ \<Rightarrow> y),
    mem := memset pg 0 PGSIZE (mem s)\<rparr>"
  let ?fl = "PTE_W OR PTE_U OR PTE_R"
  have wfc: "uvm_wf s (pg # ys) root" using wf Cons by simp
  note tk = take_page[OF wfc, where c = 0]
  have "\<not> bit (leaf (mem ?u) root va) 0" using un tk(4) by simp
  then obtain r u xs' where m: "mappages root va 4096 pg ?fl ?u = Some (r, u)" "uvm_wf u xs' root"
    "kframe ?u u" "r = 0 \<or> r = -1 \<and> length ys < 2" "r \<noteq> 0 \<Longrightarrow> unowned pg u xs' root"
    and lf: "\<And>v. v < MAXVA \<Longrightarrow> leaf (mem u) root v = (if r = 0 \<and> vpage v = vpage va
          then PA2PTE pg OR ?fl OR PTE_V else leaf (mem ?u) root v)"
    and vb: "\<And>v. v < MAXVA \<Longrightarrow> vbyte (mem u) root v = (if r = 0 \<and> vpage v = vpage va
          then Some (mem ?u (pg + unat v mod 4096)) else vbyte (mem ?u) root v)"
    by (rule map_user_page[OF tk(1,2) va _ fault_flags(1,2)]) (rule that)
  have pg: "0 < pg" using tk(2) by (simp add: unowned_def)
  have "kpool s (pg # ys)" using wfc by (rule uvm_wfD(1))
  then have run: "fault_map root va s = (if r \<noteq> 0 then kfree pg u \<bind> (\<lambda>w. Some (0, w)) else Some (pg, u))"
    using m(1) pg by (simp add: fault_map_def kpool_def kalloc_Cons[of s pg ys] PGSIZE_def Let_def)
  have fr: "kframe s u" by (rule kframe_trans[OF tk(3) m(3)])
  show ?thesis
  proof (cases "r = 0")
    case True
    have "mem ?u (pg + unat v mod 4096) = 0" for v :: u64 by (simp add: memset_apply PGSIZE_def)
    then have "vbyte (mem u) root v = (if pg \<noteq> 0 \<and> vpage v = vpage va then Some 0 else vbyte (mem s) root v)"
      if "v < MAXVA" for v using vb[OF that] tk(5)[OF that] True pg by simp
    moreover have "upa (mem u) root va = Some pg" "bit (leaf (mem u) root va) 2"
      using fault_map_mapped[OF tk(2), of "mem u" va] lf[OF va(1)] True by simp_all
    moreover have "vbyte (mem s) root va = None" using un by (simp add: vbyte_def upa_def)
    ultimately have "vmfault_post root va s pg u" using fr by (simp add: vmfault_post_def)
    then show ?thesis using run True m(2) pg by auto
  next
    case False
    obtain w where w: "kfree pg u = Some w" "uvm_wf w (pg # xs') root" "kframe u w"
      "\<And>v. v < MAXVA \<Longrightarrow> vbyte (mem w) root v = vbyte (mem u) root v"
      by (rule return_page[OF m(2) m(5)[OF False]]) (rule that)
    have "vmfault_post root va s 0 w"
    proof (rule vmfault_post_unchanged[OF kframe_trans[OF fr w(3)]])
      fix v :: u64 assume v: "v < MAXVA"
      then show "vbyte (mem w) root v = vbyte (mem s) root v"
        using w(4)[OF v] vb[OF v] tk(5)[OF v] False by simp
    qed
    then show ?thesis using run False w(1,2) m(4) Cons by auto
  qed
qed

lemma vmfault_unfold:
  assumes pool: "kpool s xs" and "cproc (mycpu (lk s)) = Some p" "pagetable (procs s p) = root"
    and "va < MAXVA" and "pt_wf (mem s) F root"
  shows "vmfault root va rd s =
    (if psz (procs s p) \<le> va \<or> bit (leaf (mem s) root (PGROUNDDOWN va)) 0
     then Some (0, s\<lparr>lk := settle (lk s)\<rparr>)
     else fault_map root (PGROUNDDOWN va) (s\<lparr>lk := settle (lk s)\<rparr>))"
proof -
  let ?t = "s\<lparr>lk := settle (lk s)\<rparr>" and ?va = "PGROUNDDOWN va"
  have "?va < MAXVA" using assms(4) by (rule PGROUNDDOWN_lt)
  then have "ismapped root ?va ?t = Some (bit (leaf (mem s) root ?va) 0, ?t)"
    using leaf_addr_load[OF assms(5), of ?va]
    by (cases "tpage (mem s) root (leaf_path ?va)")
       (auto simp: ismapped_def leaf_addr_def leaf_def and_PTE_eq_0)
  then show ?thesis
    using assms(2,3) pool by (simp add: vmfault_def fault_map_def myproc_eq kpool_def kalloc_eq Let_def)
qed

lemma vmfault_spec:
  assumes wf: "uvm_wf s xs root" and me: "cproc (mycpu (lk s)) = Some p"
    and pt: "pagetable (procs s p) = root" and va: "va < MAXVA"
  shows "\<exists>r s' xs'. vmfault root va rd s = Some (r, s') \<and> uvm_wf s' xs' root \<and> vmfault_post root va s r s'
    \<and> (va < psz (procs s p) \<longrightarrow> \<not> bit (leaf (mem s) root va) 0 \<longrightarrow> 3 \<le> length xs \<longrightarrow> r \<noteq> 0)"
proof -
  let ?t = "s\<lparr>lk := settle (lk s)\<rparr>" and ?va = "PGROUNDDOWN va"
  note run = vmfault_unfold[OF uvm_wfD(1)[OF wf] me pt va uvm_wfD(2)[OF wf], of rd]
  have wft: "uvm_wf ?t xs root" using wf by simp
  have lf: "leaf m root ?va = leaf m root va" for m
    by (rule leaf_page_cong) (simp_all add: va PGROUNDDOWN_lt)
  show ?thesis
  proof (cases "psz (procs s p) \<le> va \<or> bit (leaf (mem s) root ?va) 0")
    case True
    have "vmfault_post root va s 0 ?t" by (rule vmfault_post_unchanged) (simp_all add: kframe_def)
    then show ?thesis using run True wft lf by fastforce
  next
    case False
    then have "\<not> bit (leaf (mem ?t) root ?va) 0" by simp
    then obtain r s' xs' where m: "fault_map root ?va ?t = Some (r, s')" "uvm_wf s' xs' root"
      "vmfault_post root ?va ?t r s'" "r = 0 \<longrightarrow> length xs < 3"
      using fault_map_spec[OF wft PGROUNDDOWN_lt[OF va] PGROUNDDOWN_mod] by blast
    have "upa m root ?va = upa m root va" "(vbyte m root ?va = None) = (vbyte m root va = None)" for m
      by (simp_all add: upa_def vbyte_def lf)
    moreover have "kframe s s'" using m(3) by (auto simp: vmfault_post_def kframe_def)
    ultimately have "vmfault_post root va s r s'" using m(3) lf by (simp add: vmfault_post_def)
    then show ?thesis using run False m by auto
  qed
qed

section \<open>copyout and copyin\<close>

definition in_range :: "u64 \<Rightarrow> u64 \<Rightarrow> nat \<Rightarrow> bool" where
  "in_range v va n \<longleftrightarrow> unat va \<le> unat v \<and> unat v < unat va + n"

text \<open>The page holding \<open>va\<close>, made present: what both copy loops do first.\<close>

definition fault_in :: "nat \<Rightarrow> u64 \<Rightarrow> 'z ptable_scheme \<Rightarrow> (nat \<times> 'z ptable_scheme) option" where
  "fault_in root va s = do {
     (pa0, s) \<leftarrow> walkaddr root va s;
     if pa0 = 0 then vmfault root va False s else Some (pa0, s)
   }"

lemma fault_in_spec:
  assumes wf: "uvm_wf s xs root" and me: "cproc (mycpu (lk s)) = Some p"
    and pt: "pagetable (procs s p) = root" and va: "va < MAXVA"
  obtains r s' xs' where "fault_in root va s = Some (r, s')" "uvm_wf s' xs' root" "kframe s s'"
    "r \<noteq> 0 \<Longrightarrow> upa (mem s') root va = Some r"
    "\<And>v. v < MAXVA \<Longrightarrow> vbyte (mem s) root v \<noteq> None \<Longrightarrow> vbyte (mem s') root v = vbyte (mem s) root v"
proof (cases "upa (mem s) root va")
  case (Some pa)
  then have "0 < pa" using uvm_wfD(3)[OF wf va] by simp
  then have "fault_in root va s = Some (pa, s)"
    using Some va walkaddr_eq[OF uvm_wfD(2)[OF wf], of va] by (auto simp: fault_in_def)
  then show thesis by (rule that[OF _ wf kframe_refl Some]) simp
next
  case None
  obtain r s' xs' where f: "vmfault root va False s = Some (r, s')" "uvm_wf s' xs' root"
    "vmfault_post root va s r s'"
    using vmfault_spec[OF wf me pt va, of False] by blast
  have "fault_in root va s = Some (r, s')"
    using None va f(1) walkaddr_eq[OF uvm_wfD(2)[OF wf], of va] by (simp add: fault_in_def)
  moreover have "vbyte (mem s) root v = None" if "v < MAXVA" "vpage v = vpage va" for v
    using None leaf_page_cong[OF that(2,1) va] by (simp add: vbyte_def upa_def)
  then have "vbyte (mem s') root v = vbyte (mem s) root v" if "v < MAXVA" "vbyte (mem s) root v \<noteq> None" for v
    using f(3) that by (auto simp: vmfault_post_def)
  moreover have "kframe s s'" "r \<noteq> 0 \<Longrightarrow> upa (mem s') root va = Some r"
    using f(3) by (simp_all add: vmfault_post_def)
  ultimately show thesis using f(2) that by blast
qed

lemma page_split: "unat (va :: u64) = vpage va * 4096 + unat va mod 4096"
  by (simp add: vpage_def)

lemma in_range_page:
  assumes "unat va mod 4096 + n \<le> 4096"
  shows "in_range v va n \<longleftrightarrow> vpage v = vpage va \<and> unat va mod 4096 \<le> unat v mod 4096
      \<and> unat v mod 4096 < unat va mod 4096 + n"
proof (cases "vpage v = vpage va")
  case True
  then show ?thesis using page_split[of v] page_split[of va] unfolding in_range_def by linarith
next
  case False
  have "\<not> in_range v va n"
  proof
    assume "in_range v va n"
    then have "vpage va * 4096 + unat va mod 4096 \<le> unat v" "unat v < vpage va * 4096 + 4096"
      using assms page_split[of va] unfolding in_range_def by linarith+
    then have "vpage v = vpage va"
      unfolding vpage_def[of v] by (intro div_nat_eqI) simp_all
    then show False using False by simp
  qed
  then show ?thesis using False by simp
qed

lemma next_page:
  assumes "PGROUNDDOWN va < MAXVA"
  shows "unat (PGROUNDDOWN va + of_nat PGSIZE) = unat va + page_room va"
    and "unat (va - PGROUNDDOWN va) = unat va mod 4096"
proof -
  have "unat (PGROUNDDOWN va) < 274877906944" using assms unat_MAXVA by (simp add: word_less_nat_alt)
  then have "unat (PGROUNDDOWN va + 4096) = unat (PGROUNDDOWN va) + 4096" by (simp add: unat_word_ariths)
  moreover have "unat (PGROUNDDOWN va) = vpage va * 4096" by (simp add: PGROUNDDOWN_unat vpage_def)
  ultimately show "unat (PGROUNDDOWN va + of_nat PGSIZE) = unat va + page_room va"
    using page_split[of va] mod_less_divisor[of 4096 "unat va"] by (simp add: page_room_eq PGSIZE_def)
  show "unat (va - PGROUNDDOWN va) = unat va mod 4096"
    using PGROUNDDOWN_le[of va] by (simp add: unat_sub PGROUNDDOWN_unat minus_div_mult_eq_mod)
qed

lemma MAXVA_page: "PGROUNDDOWN va < MAXVA \<longleftrightarrow> va < MAXVA"
proof
  assume "PGROUNDDOWN va < MAXVA"
  then have "unat va div 4096 * 4096 < 67108864 * 4096"
    using unat_MAXVA by (simp add: word_less_nat_alt PGROUNDDOWN_unat)
  then have "unat va div 4096 < 67108864" by simp
  then have "unat va < 274877906944" by (simp add: div_less_iff_less_mult)
  then show "va < MAXVA" using unat_MAXVA by (simp add: word_less_nat_alt)
qed (rule PGROUNDDOWN_lt)

lemma copyout_unfold:
  "copyout root va src s =
     (if src = [] then Some (0, s)
      else if MAXVA \<le> PGROUNDDOWN va then Some (-1, s)
      else do {
        (pa0, s) \<leftarrow> fault_in root (PGROUNDDOWN va) s;
        if pa0 = 0 then Some (-1, s)
        else do {
          (pte, s) \<leftarrow> walk root (PGROUNDDOWN va) False s;
          if load64 (mem s) pte AND PTE_W = 0 then Some (-1, s)
          else let n = min (page_room va) (length src)
               in copyout root (PGROUNDDOWN va + of_nat PGSIZE) (drop n src)
                    (s\<lparr>mem := mem_put (pa0 + unat (va - PGROUNDDOWN va)) (take n src) (mem s)\<rparr>)
        }
      })"
  by (subst copyout.simps, cases "walkaddr root (PGROUNDDOWN va) s") 
     (auto simp: fault_in_def Let_def intro!: Option.bind_cong)

text \<open>
  \<open>copyout\<close> always returns; on \<open>0\<close> the user range holds the source bytes; present bytes
  outside the range never change.
\<close>

lemma next_room:
  assumes "va < MAXVA"
  shows "unat va + page_room va \<le> 274877906944"
proof -
  have "unat va < 67108864 * 4096" using assms unat_MAXVA by (simp add: word_less_nat_alt)
  then have "vpage va < 67108864" unfolding vpage_def by (simp only: less_mult_imp_div_less)
  then show ?thesis using page_split[of va] mod_less_divisor[of 4096 "unat va"] by (simp add: page_room_eq)
qed

definition copyout_post :: "nat \<Rightarrow> u64 \<Rightarrow> u8 list \<Rightarrow> 'z ptable_scheme \<Rightarrow> int \<Rightarrow> 'z ptable_scheme \<Rightarrow> bool" where
  "copyout_post root va src s r s' \<longleftrightarrow>
     kframe s s' \<and> (r = 0 \<or> r = -1)
     \<and> (\<forall>v<MAXVA. \<not> in_range v va (length src) \<longrightarrow> vbyte (mem s) root v \<noteq> None \<longrightarrow>
          vbyte (mem s') root v = vbyte (mem s) root v)
     \<and> (r = 0 \<longrightarrow> src \<noteq> [] \<longrightarrow> unat va + length src \<le> unat MAXVA)
     \<and> (r = 0 \<longrightarrow> (\<forall>v<MAXVA. in_range v va (length src) \<longrightarrow>
          vbyte (mem s') root v = Some (src ! (unat v - unat va))))"

lemma copyout_post_step:
  assumes fr: "kframe s u" and ne: "src \<noteq> []"
    and pres: "\<And>v. v < MAXVA \<Longrightarrow> vbyte (mem s) root v \<noteq> None \<Longrightarrow> vbyte m root v = vbyte (mem s) root v"
    and vbu: "\<And>v. v < MAXVA \<Longrightarrow> vbyte (mem u) root v =
       (if in_range v va n then Some (src ! (unat v - unat va)) else vbyte m root v)"
    and n: "n = min room (length src)" "unat va' = unat va + room" "unat va + room \<le> unat MAXVA"
    and IH: "copyout_post root va' (drop n src) u r s'"
  shows "copyout_post root va src s r s'"
proof -
  let ?rest = "drop n src"
  have rest: "?rest \<noteq> [] \<Longrightarrow> n = room" using n(1) by (auto simp: min_def split: if_splits)
  have len: "length ?rest = length src - n" "n \<le> length src" using n(1) by simp_all
  have split: "in_range v va (length src) \<longleftrightarrow> in_range v va n \<or> in_range v va' (length ?rest)"
    and excl: "in_range v va n \<Longrightarrow> \<not> in_range v va' (length ?rest)" for v
    using rest len n(2) by (cases "?rest = []"; auto simp: in_range_def)+
  have nth: "?rest ! (unat v - unat va') = src ! (unat v - unat va)" if "in_range v va' (length ?rest)" for v
  proof -
    have "?rest \<noteq> []" using that by (auto simp: in_range_def)
    then have "n + (unat v - unat va') = unat v - unat va" using rest that n(2) by (auto simp: in_range_def)
    then show ?thesis using len(2) by (simp add: nth_drop)
  qed
  have post: "kframe u s'" "r = 0 \<or> r = -1"
    "\<And>v. v < MAXVA \<Longrightarrow> \<not> in_range v va' (length ?rest) \<Longrightarrow> vbyte (mem u) root v \<noteq> None \<Longrightarrow>
       vbyte (mem s') root v = vbyte (mem u) root v"
    "r = 0 \<Longrightarrow> ?rest \<noteq> [] \<Longrightarrow> unat va' + length ?rest \<le> unat MAXVA"
    "\<And>v. r = 0 \<Longrightarrow> v < MAXVA \<Longrightarrow> in_range v va' (length ?rest) \<Longrightarrow>
       vbyte (mem s') root v = Some (?rest ! (unat v - unat va'))"
    using IH unfolding copyout_post_def by blast+
  have "vbyte (mem s') root v = vbyte (mem s) root v"
    if "v < MAXVA" "\<not> in_range v va (length src)" "vbyte (mem s) root v \<noteq> None" for v
    using post(3)[OF that(1)] pres[OF that(1,3)] vbu[OF that(1)] that(2,3) split[of v] by simp
  moreover have "vbyte (mem s') root v = Some (src ! (unat v - unat va))"
    if "r = 0" "v < MAXVA" "in_range v va (length src)" for v
  proof (cases "in_range v va n")
    case True
    then have "vbyte (mem u) root v = Some (src ! (unat v - unat va))" using vbu[OF that(2)] by simp
    then show ?thesis using post(3)[OF that(2) excl[OF True]] by simp
  next
    case False
    then have "in_range v va' (length ?rest)" using split that(3) by blast
    then show ?thesis using post(5)[OF that(1,2)] nth by metis
  qed
  moreover have "unat va + length src \<le> unat MAXVA" if "r = 0"
  proof (cases "?rest = []")
    case True
    then have "length src \<le> room" using n(1) by simp
    then show ?thesis using n(3) by linarith
  next
    case False
    then show ?thesis using post(4)[OF that False] rest[OF False] n(2) len by linarith
  qed
  ultimately show ?thesis
    using kframe_trans[OF fr post(1)] post(2) unfolding copyout_post_def by blast
qed

lemma copyout_spec:
  assumes "uvm_wf s xs root" and "cproc (mycpu (lk s)) = Some p" and "pagetable (procs s p) = root"
  shows "\<exists>r s' xs'. copyout root va src s = Some (r, s') \<and> uvm_wf s' xs' root
     \<and> copyout_post root va src s r s'"
  using assms
proof (induction "length src" arbitrary: va src s xs rule: less_induct)
  case less
  note wf = less.prems(1)
  show ?case
  proof (cases "src = [] \<or> MAXVA \<le> PGROUNDDOWN va")
    case True
    then have "copyout root va src s = Some (if src = [] then 0 else -1, s)"
      by (subst copyout_unfold) auto
    then show ?thesis using wf by (auto simp: copyout_post_def in_range_def)
  next
    case False
    let ?va = "PGROUNDDOWN va"
    have va: "?va < MAXVA" "va < MAXVA" using False MAXVA_page[of va] by auto
    obtain pa t ys where f: "fault_in root ?va s = Some (pa, t)" "uvm_wf t ys root" "kframe s t"
      "pa \<noteq> 0 \<Longrightarrow> upa (mem t) root ?va = Some pa"
      "\<And>v. v < MAXVA \<Longrightarrow> vbyte (mem s) root v \<noteq> None \<Longrightarrow> vbyte (mem t) root v = vbyte (mem s) root v"
      by (rule fault_in_spec[OF less.prems va(1)]) (rule that)
    let ?n = "min (page_room va) (length src)"
    let ?u = "t\<lparr>mem := mem_put (pa + unat (va - ?va)) (take ?n src) (mem t)\<rparr>"
    have run: "copyout root va src s =
        (if pa = 0 \<or> load64 (mem t) (leaf_addr (mem t) root ?va) AND PTE_W = 0 then Some (-1, t)
         else copyout root (?va + of_nat PGSIZE) (drop ?n src) ?u)"
      using False va f(1) by (subst copyout_unfold) (auto simp: Let_def)
    show ?thesis
    proof (cases "pa = 0 \<or> load64 (mem t) (leaf_addr (mem t) root ?va) AND PTE_W = 0")
      case True
      then show ?thesis using run f by (auto simp: copyout_post_def)
    next
      case ok: False
      then have upa: "upa (mem t) root ?va = Some pa" using f(4) by simp
      have len: "unat va mod 4096 + length (take ?n src) \<le> 4096" by (simp add: page_room_eq)
      have tk: "i < ?n \<Longrightarrow> take ?n src ! i = src ! i" for i by (rule nth_take)
      have off: "unat (va - ?va) = unat va mod 4096" by (rule next_page(2)[OF va(1)])
      have wfu: "uvm_wf ?u ys root" using user_write(1)[OF f(2) upa va(1), OF len] off by simp
      have vbu: "vbyte (mem ?u) root v = (if in_range v va ?n then Some (src ! (unat v - unat va))
          else vbyte (mem t) root v)" if "v < MAXVA" for v
      proof -
        have w: "vbyte (mem ?u) root v = (if vpage v = vpage va \<and> unat va mod 4096 \<le> unat v mod 4096
            \<and> unat v mod 4096 < unat va mod 4096 + ?n
            then Some (take ?n src ! (unat v mod 4096 - unat va mod 4096)) else vbyte (mem t) root v)"
          using user_write(3)[OF f(2) upa va(1) len that] off by simp
        have ir: "in_range v va ?n \<longleftrightarrow> vpage v = vpage va \<and> unat va mod 4096 \<le> unat v mod 4096
            \<and> unat v mod 4096 < unat va mod 4096 + ?n"
          using len by (intro in_range_page) simp
        have i: "unat v mod 4096 - unat va mod 4096 = unat v - unat va" if "vpage v = vpage va"
          using page_split[of v] page_split[of va] that by linarith
        have "unat v - unat va < ?n" if "in_range v va ?n" using that unfolding in_range_def by linarith
        then show ?thesis using w tk i unfolding ir by metis
      qed
      have fu: "kframe s ?u" using f(3) by (simp add: kframe_def)
      have "length (drop ?n src) < length src" using False by simp
      then obtain r s' xs' where IH: "copyout root (?va + of_nat PGSIZE) (drop ?n src) ?u = Some (r, s')"
        "uvm_wf s' xs' root" "copyout_post root (?va + of_nat PGSIZE) (drop ?n src) ?u r s'"
        using less.hyps[OF _ wfu] less.prems(2,3) kframe_ptable(1,5)[OF fu] by metis
      have "unat (?va + of_nat PGSIZE) \<le> unat MAXVA"
        using va(1) unat_MAXVA next_page(1)[OF va(1)] next_room[OF va(2)] by simp
      then have "copyout_post root va src s r s'"
        using copyout_post_step[OF fu _ f(5) vbu refl next_page(1)[OF va(1)] _ IH(3)] False
          next_page(1)[OF va(1)] by simp
      then show ?thesis using run ok IH by auto
    qed
  qed
qed

lemma copyin_spec:
  assumes "uvm_wf s xs root" and "length bs = n" and "unat va + n \<le> unat MAXVA"
    and "\<And>v. v < MAXVA \<Longrightarrow> in_range v va n \<Longrightarrow> vbyte (mem s) root v = Some (bs ! (unat v - unat va))"
  shows "copyin root va n s = Some (0, bs, s)"
  using assms(2-)
proof (induction n arbitrary: va bs rule: less_induct)
  case (less n)
  show ?case
  proof (cases "n = 0")
    case True
    then show ?thesis using less.prems by (subst copyin.simps) simp
  next
    case False
    let ?va = "PGROUNDDOWN va" and ?n = "min (page_room va) n"
    have va: "va < MAXVA" "?va < MAXVA"
      using less.prems(2) False PGROUNDDOWN_lt[of va] by (auto simp: word_less_nat_alt)
    have "vbyte (mem s) root va \<noteq> None" using less.prems(3)[OF va(1)] False by (simp add: in_range_def)
    then obtain pa where pa: "upa (mem s) root va = Some pa" by (auto simp: vbyte_def)
    then have upa: "upa (mem s) root ?va = Some pa" "0 < pa"
      using leaf_page_cong[of ?va va, OF _ va(2,1)] uvm_wfD(3)[OF assms(1) va(1)] by (auto simp: upa_def)
    have wa: "walkaddr root ?va s = Some (pa, s)"
      using walkaddr_eq[OF uvm_wfD(2)[OF assms(1)], of ?va] upa(1) va(2) by auto
    have chunk: "mem_get (mem s) (pa + unat (va - ?va)) ?n = take ?n bs"
    proof (rule nth_equalityI)
      show "length (mem_get (mem s) (pa + unat (va - ?va)) ?n) = length (take ?n bs)"
        using less.prems(1) by (simp add: mem_get_def)
      fix i assume "i < length (mem_get (mem s) (pa + unat (va - ?va)) ?n)"
      then have i: "i < ?n" by (simp add: mem_get_def)
      let ?v = "va + of_nat i"
      have v: "unat ?v = unat va + i"
        using i less.prems(2) unat_MAXVA by (simp add: unat_word_ariths unat_of_nat_64)
      have "i < 4096 - unat va mod 4096" using i by (simp add: page_room_eq)
      then have room: "unat va mod 4096 + i < 4096" by linarith
      have "unat ?v = (unat va mod 4096 + i) + vpage va * 4096" using v page_split[of va] by linarith
      then have pg: "vpage ?v = vpage va" "unat ?v mod 4096 = unat va mod 4096 + i"
        unfolding vpage_def[of ?v] using room by (simp_all only: div_mult_self3 mod_mult_self1 div_less mod_less)
      have lt: "?v < MAXVA" using v i less.prems(2) by (simp add: word_less_nat_alt)
      have "upa (mem s) root ?v = Some pa"
        using pa leaf_page_cong[OF pg(1) lt va(1)] by (simp add: upa_def)
      moreover have "vbyte (mem s) root ?v = Some (bs ! i)"
        using less.prems(3)[OF lt] v i by (simp add: in_range_def)
      ultimately have "mem s (pa + (unat va mod 4096 + i)) = bs ! i" using pg(2) by (simp add: vbyte_def)
      then show "mem_get (mem s) (pa + unat (va - ?va)) ?n ! i = take ?n bs ! i"
        using i next_page(2)[OF va(2)] by (simp add: mem_get_def add.assoc)
    qed
    have "copyin root (?va + of_nat PGSIZE) (n - ?n) s = Some (0, drop ?n bs, s)"
    proof (cases "n \<le> page_room va")
      case True
      then show ?thesis using less.prems(1) by (subst copyin.simps) simp
    next
      case big: False
      have nx: "unat (?va + of_nat PGSIZE) = unat va + ?n" using next_page(1)[OF va(2)] big by simp
      show ?thesis
      proof (rule less.IH)
        fix v assume v: "v < MAXVA" "in_range v (?va + of_nat PGSIZE) (n - ?n)"
        then show "vbyte (mem s) root v = Some (drop ?n bs ! (unat v - unat (?va + of_nat PGSIZE)))"
          using less.prems(1) less.prems(3)[OF v(1)] nx by (auto simp: in_range_def nth_drop)
      qed (use False less.prems nx in auto)
    qed
    then show ?thesis
      using False wa upa(2) chunk less.prems(1) by (subst copyin.simps) (simp add: Let_def)
  qed
qed

end
