(* ===== verification/Sleeplock.thy ===== *)
theory Sleeplock
  imports UserMem
begin

text \<open>
  Sleep locks, \<^verbatim>\<open>kernel/sleeplock.c\<close>. Every sleep lock of the kernel belongs to a buffer
  or to an inode-table entry and is named by \<open>sleepid\<close>; its inner spinlock and its wait
  channel are named after it.

  \<open>acquiresleep_start\<close> is \<^verbatim>\<open>acquiresleep\<close> up to the point where it either has the lock or
  has switched away in \<^verbatim>\<open>sleep\<close>; \<open>acquiresleep_resume\<close> continues a sleeper that was
  dispatched again. \<open>acquiresleep\<close> is the call as its caller sees it when the lock is
  free, \<open>None\<close> when it would have to wait.
\<close>

datatype sleepid = BufSleep nat | InodeSleep nat

record sleeplock =
  slocked :: bool
  slname :: string
  slpid :: int

record slocks = kvm +
  sleeplocks :: "sleepid \<Rightarrow> sleeplock"

fun sl_lk :: "sleepid \<Rightarrow> lockid" where
  "sl_lk (BufSleep i) = BufLk i"
| "sl_lk (InodeSleep i) = InodeLk i"

fun sl_chan :: "sleepid \<Rightarrow> chan" where
  "sl_chan (BufSleep i) = ChanBufLock i"
| "sl_chan (InodeSleep i) = ChanInodeLock i"

definition upd_sl :: "sleepid \<Rightarrow> (sleeplock \<Rightarrow> sleeplock) \<Rightarrow> 'z slocks_scheme \<Rightarrow> 'z slocks_scheme" where
  "upd_sl l f s = s\<lparr>sleeplocks := (sleeplocks s)(l := f (sleeplocks s l))\<rparr>"

section \<open>Operations\<close>

definition initsleeplock :: "sleepid \<Rightarrow> string \<Rightarrow> 'z slocks_scheme \<Rightarrow> 'z slocks_scheme" where
  "initsleeplock l name s =
     (let s = s\<lparr>lk := initlock (sl_lk l) ''sleep lock'' (lk s)\<rparr>
      in upd_sl l (\<lambda>x. x\<lparr>slname := name, slocked := False, slpid := 0\<rparr>) s)"

definition acquiresleep_loop :: "sleepid \<Rightarrow> 'z slocks_scheme \<Rightarrow> (bool option \<times> 'z slocks_scheme) option" where
  "acquiresleep_loop l s =
     (if slocked (sleeplocks s l) then do {
        (ie, s) \<leftarrow> sleep_out (Some (sl_chan l)) (sl_lk l) s;
        Some (Some ie, s)
      } else do {
        let s = upd_sl l (\<lambda>x. x\<lparr>slocked := True\<rparr>) s;
        (me, s) \<leftarrow> myproc s;
        p \<leftarrow> me;
        let s = upd_sl l (\<lambda>x. x\<lparr>slpid := pid (procs s p)\<rparr>) s;
        s \<leftarrow> release (sl_lk l) s;
        Some (None, s)
      })"

definition acquiresleep_start :: "sleepid \<Rightarrow> 'z slocks_scheme \<Rightarrow> (bool option \<times> 'z slocks_scheme) option" where
  "acquiresleep_start l s = do {
     s \<leftarrow> acquire (sl_lk l) s;
     acquiresleep_loop l s
   }"

definition acquiresleep_resume ::
  "nat \<Rightarrow> bool \<Rightarrow> sleepid \<Rightarrow> 'z slocks_scheme \<Rightarrow> (bool option \<times> 'z slocks_scheme) option" where
  "acquiresleep_resume p ie l s = do {
     s \<leftarrow> sleep_in p (sl_lk l) ie s;
     acquiresleep_loop l s
   }"

definition acquiresleep :: "sleepid \<Rightarrow> 'z slocks_scheme \<Rightarrow> 'z slocks_scheme option" where
  "acquiresleep l s = do {
     (w, s) \<leftarrow> acquiresleep_start l s;
     (case w of None \<Rightarrow> Some s | Some _ \<Rightarrow> None)
   }"

definition releasesleep :: "sleepid \<Rightarrow> 'z slocks_scheme \<Rightarrow> 'z slocks_scheme option" where
  "releasesleep l s = do {
     s \<leftarrow> acquire (sl_lk l) s;
     let s = upd_sl l (\<lambda>x. x\<lparr>slocked := False, slpid := 0\<rparr>) s;
     s \<leftarrow> wakeup (Some (sl_chan l)) s;
     release (sl_lk l) s
   }"

definition holdingsleep :: "sleepid \<Rightarrow> 'z slocks_scheme \<Rightarrow> (bool \<times> 'z slocks_scheme) option" where
  "holdingsleep l s = do {
     s \<leftarrow> acquire (sl_lk l) s;
     (me, s) \<leftarrow> myproc s;
     r \<leftarrow> (if slocked (sleeplocks s l)
          then (case me of None \<Rightarrow> None | Some p \<Rightarrow> Some (slpid (sleeplocks s l) = pid (procs s p)))
          else Some False);
     s \<leftarrow> release (sl_lk l) s;
     Some (r, s)
   }"

section \<open>Calls with every spinlock free\<close>

text \<open>
  \<open>quiet p s\<close>: process \<open>p\<close> runs on the executing hart and no spinlock is held. This is the
  situation in which system-call code calls the sleep-lock, buffer and inode layers.
\<close>

definition quiet :: "nat \<Rightarrow> 'z kernel_scheme \<Rightarrow> bool" where
  "quiet p s \<longleftrightarrow> cproc (mycpu (lk s)) = Some p \<and> noff (mycpu (lk s)) = 0 \<and> (\<forall>l. lock_free l (lk s))"

lemma quietD:
  assumes "quiet p s"
  shows "hart_ok (lk s)" "lock_free l (lk s)" "cproc (mycpu (lk s)) = Some p" "noff (mycpu (lk s)) = 0"
  using assms by (simp_all add: quiet_def hart_ok_def)

lemma quiet_settle [simp]: "quiet p (s\<lparr>lk := settle (lk s)\<rparr>) = quiet p s"
  by (simp add: quiet_def)

lemma quiet_lk: "lk s = lk t \<Longrightarrow> quiet p s = quiet p t"
  by (simp add: quiet_def)

lemma sl_simps [simp]:
  "sleeplocks (upd_sl l f s) = (sleeplocks s)(l := f (sleeplocks s l))" "lk (upd_sl l f s) = lk s"
  "procs (upd_sl l f s) = procs s" "mem (upd_sl l f s) = mem s"
  by (simp_all add: upd_sl_def)

lemma lk_innermost_sl [lock_simps]:
  "(sleeplocks_update f s)\<lparr>lk := L\<rparr> = sleeplocks_update f (s\<lparr>lk := L\<rparr>)"
  "(upd_sl l k s)\<lparr>lk := L\<rparr> = upd_sl l k (s\<lparr>lk := L\<rparr>)"
  by (simp_all add: upd_sl_def)

lemma acquiresleep_free:
  assumes "quiet p s" and "\<not> slocked (sleeplocks s l)"
  shows "acquiresleep l s = Some (upd_sl l (\<lambda>x. x\<lparr>slocked := True, slpid := pid (procs s p)\<rparr>)
           (s\<lparr>lk := settle (lk s)\<rparr>))"
  using assms(2) quietD[OF assms(1)]
  by (simp add: acquiresleep_def acquiresleep_start_def acquiresleep_loop_def lock_simps Let_def upd_sl_def)

lemma holdingsleep_eq:
  assumes "quiet p s"
  shows "holdingsleep l s = Some (slocked (sleeplocks s l) \<and> slpid (sleeplocks s l) = pid (procs s p),
           s\<lparr>lk := settle (lk s)\<rparr>)"
  using quietD[OF assms] by (simp add: holdingsleep_def lock_simps Let_def)

lemma ProcLock_sl [simp]: "ProcLock q \<noteq> sl_lk l" "sl_lk l \<noteq> ProcLock q"
  by (cases l; simp)+

lemma releasesleep_eq:
  assumes "quiet p s"
  shows "releasesleep l s = Some (upd_sl l (\<lambda>x. x\<lparr>slocked := False, slpid := 0\<rparr>)
    (s\<lparr>lk := settle (lk s), procs := woken (Some (sl_chan l)) (Some p) {..<NPROC} (procs s)\<rparr>))"
  using quietD[OF assms]
  by (simp add: releasesleep_def lock_simps Let_def wakeup_eq upd_sl_def)

text \<open>A lock that is held makes the caller sleep on it, with the inner spinlock released.\<close>

lemma acquiresleep_start_held:
  assumes "quiet p s" and "slocked (sleeplocks s l)"
  shows "acquiresleep_start l s = Some (Some (intr_get (lk s)),
    upd_proc p (\<lambda>x. x\<lparr>pchan := Some (sl_chan l), pstate := SLEEPING\<rparr>)
      (s\<lparr>lk := taken (ProcLock p) (lk s)\<rparr>))"
proof -
  let ?t = "s\<lparr>lk := taken (sl_lk l) (lk s)\<rparr>"
  have "sleep_out (Some (sl_chan l)) (sl_lk l) ?t = Some (intr_get (lk s),
      upd_proc p (\<lambda>x. x\<lparr>pchan := Some (sl_chan l), pstate := SLEEPING\<rparr>) (?t\<lparr>lk := taken (ProcLock p) (lk s)\<rparr>))"
    using quietD[OF assms(1)] by (intro sleep_out_eq) simp_all
  then show ?thesis
    using assms(2) quietD[OF assms(1)]
    by (simp add: acquiresleep_start_def acquiresleep_loop_def lock_simps)
qed

end
