(* ===== verification/Bio.thy ===== *)
theory Bio
  imports Sleeplock
begin

text \<open>
  The buffer cache, \<^verbatim>\<open>kernel/bio.c\<close>. Buffers are the entries of the table \<open>bufs\<close>; the
  doubly linked LRU list is the list \<open>lru\<close> of buffer indices from \<^verbatim>\<open>head.next\<close> to
  \<^verbatim>\<open>head.prev\<close>. Block data is a byte array of which the first \<^verbatim>\<open>BSIZE\<close> entries count.

  Below \<^verbatim>\<open>bread\<close> and \<^verbatim>\<open>bwrite\<close> sits the disk driver. What the cache relies on is its
  contract, \<open>disk_rw\<close>: when the call returns, the block has been transferred between the
  buffer and the disk. Every transfer to the disk is also recorded in \<open>wtrace\<close>, newest
  first, which is what a crash can cut short; no operation reads the record.

  \<open>bio_inv\<close> is the invariant of the cache between calls, with \<open>H\<close> the buffers the running
  process holds; \<open>cached\<close> is what a reader of a block gets. The specifications of
  \<^verbatim>\<open>bread\<close>, \<^verbatim>\<open>bwrite\<close> and \<^verbatim>\<open>brelse\<close> are stated with these two.
\<close>

definition BSIZE :: nat where "BSIZE = 1024"

record buf =
  bvalid :: bool
  bdev :: u32
  bblockno :: u32
  brefcnt :: u32
  bdata :: carr

record bio = slocks +
  bufs :: "nat \<Rightarrow> buf"
  lru :: "nat list"
  disk :: "nat \<Rightarrow> carr"
  wtrace :: "(nat \<times> carr) list"

definition upd_buf :: "nat \<Rightarrow> (buf \<Rightarrow> buf) \<Rightarrow> 'z bio_scheme \<Rightarrow> 'z bio_scheme" where
  "upd_buf b f s = s\<lparr>bufs := (bufs s)(b := f (bufs s b))\<rparr>"

definition disk_rw :: "nat \<Rightarrow> bool \<Rightarrow> 'z bio_scheme \<Rightarrow> 'z bio_scheme" where
  "disk_rw b write s =
     (let n = unat (bblockno (bufs s b))
      in if write then s\<lparr>disk := (disk s)(n := bdata (bufs s b)), wtrace := (n, bdata (bufs s b)) # wtrace s\<rparr>
         else upd_buf b (\<lambda>x. x\<lparr>bdata := disk s n\<rparr>) s)"

section \<open>Operations\<close>

definition binit :: "'z bio_scheme \<Rightarrow> 'z bio_scheme" where
  "binit s =
     (let s = s\<lparr>lk := initlock BcacheLock ''bcache'' (lk s)\<rparr>;
          s = s\<lparr>lru := []\<rparr>
      in fold (\<lambda>b s. (initsleeplock (BufSleep b) ''buffer'' s)\<lparr>lru := b # lru s\<rparr>) [0..<NBUF] s)"

definition bget :: "u32 \<Rightarrow> u32 \<Rightarrow> 'z bio_scheme \<Rightarrow> (nat \<times> 'z bio_scheme) option" where
  "bget dev blockno s = do {
     s \<leftarrow> acquire BcacheLock s;
     (case find (\<lambda>b. bdev (bufs s b) = dev \<and> bblockno (bufs s b) = blockno) (lru s) of
        Some b \<Rightarrow> do {
          let s = upd_buf b (\<lambda>x. x\<lparr>brefcnt := brefcnt x + 1\<rparr>) s;
          s \<leftarrow> release BcacheLock s;
          s \<leftarrow> acquiresleep (BufSleep b) s;
          Some (b, s)
        }
      | None \<Rightarrow>
          (case find (\<lambda>b. brefcnt (bufs s b) = 0) (rev (lru s)) of
             Some b \<Rightarrow> do {
               let s = upd_buf b (\<lambda>x. x\<lparr>bdev := dev, bblockno := blockno, bvalid := False, brefcnt := 1\<rparr>) s;
               s \<leftarrow> release BcacheLock s;
               s \<leftarrow> acquiresleep (BufSleep b) s;
               Some (b, s)
             }
           | None \<Rightarrow> None))
   }"

definition bread :: "u32 \<Rightarrow> u32 \<Rightarrow> 'z bio_scheme \<Rightarrow> (nat \<times> 'z bio_scheme) option" where
  "bread dev blockno s = do {
     (b, s) \<leftarrow> bget dev blockno s;
     let s = (if \<not> bvalid (bufs s b) then upd_buf b (\<lambda>x. x\<lparr>bvalid := True\<rparr>) (disk_rw b False s) else s);
     Some (b, s)
   }"

definition bwrite :: "nat \<Rightarrow> 'z bio_scheme \<Rightarrow> 'z bio_scheme option" where
  "bwrite b s = do {
     (h, s) \<leftarrow> holdingsleep (BufSleep b) s;
     if \<not> h then None else Some (disk_rw b True s)
   }"

definition brelse :: "nat \<Rightarrow> 'z bio_scheme \<Rightarrow> 'z bio_scheme option" where
  "brelse b s = do {
     (h, s) \<leftarrow> holdingsleep (BufSleep b) s;
     if \<not> h then None
     else do {
       s \<leftarrow> releasesleep (BufSleep b) s;
       s \<leftarrow> acquire BcacheLock s;
       let s = upd_buf b (\<lambda>x. x\<lparr>brefcnt := brefcnt x - 1\<rparr>) s;
       let s = (if brefcnt (bufs s b) = 0 then s\<lparr>lru := b # remove1 b (lru s)\<rparr> else s);
       release BcacheLock s
     }
   }"

definition bpin :: "nat \<Rightarrow> 'z bio_scheme \<Rightarrow> 'z bio_scheme option" where
  "bpin b s = do {
     s \<leftarrow> acquire BcacheLock s;
     let s = upd_buf b (\<lambda>x. x\<lparr>brefcnt := brefcnt x + 1\<rparr>) s;
     release BcacheLock s
   }"

definition bunpin :: "nat \<Rightarrow> 'z bio_scheme \<Rightarrow> 'z bio_scheme option" where
  "bunpin b s = do {
     s \<leftarrow> acquire BcacheLock s;
     let s = upd_buf b (\<lambda>x. x\<lparr>brefcnt := brefcnt x - 1\<rparr>) s;
     release BcacheLock s
   }"

section \<open>The invariant of the cache\<close>

definition bmatch :: "u32 \<Rightarrow> u32 \<Rightarrow> 'z bio_scheme \<Rightarrow> nat \<Rightarrow> bool" where
  "bmatch d n s b \<longleftrightarrow> bdev (bufs s b) = d \<and> bblockno (bufs s b) = n"

definition rootdev :: u32 where
  "rootdev = of_nat ROOTDEV"

lemma rootdev_neq_0 [simp]: "rootdev \<noteq> 0"
  by (simp add: rootdev_def ROOTDEV_def)

definition bio_inv :: "nat \<Rightarrow> nat set \<Rightarrow> 'z bio_scheme \<Rightarrow> bool" where
  "bio_inv p H s \<longleftrightarrow>
     quiet p s \<and> distinct (lru s) \<and> set (lru s) = {..<NBUF} \<and> H \<subseteq> {..<NBUF}
     \<and> (\<forall>b<NBUF. \<forall>b'<NBUF. bdev (bufs s b) \<noteq> 0 \<longrightarrow>
          bmatch (bdev (bufs s b)) (bblockno (bufs s b)) s b' \<longrightarrow> b = b')
     \<and> (\<forall>b<NBUF. brefcnt (bufs s b) = 0 \<longrightarrow> bvalid (bufs s b) \<longrightarrow>
          bdata (bufs s b) = disk s (unat (bblockno (bufs s b))))
     \<and> (\<forall>b<NBUF. slocked (sleeplocks s (BufSleep b)) \<longleftrightarrow> b \<in> H)
     \<and> (\<forall>b\<in>H. slpid (sleeplocks s (BufSleep b)) = pid (procs s p) \<and> brefcnt (bufs s b) \<noteq> 0
          \<and> bvalid (bufs s b))
     \<and> (\<forall>b<NBUF. bvalid (bufs s b) \<longrightarrow> bdev (bufs s b) = rootdev)"

definition cached :: "u32 \<Rightarrow> 'z bio_scheme \<Rightarrow> u32 \<Rightarrow> carr" where
  "cached d s n =
     (case find (bmatch d n s) (lru s) of
        Some b \<Rightarrow> if bvalid (bufs s b) then bdata (bufs s b) else disk s (unat n)
      | None \<Rightarrow> disk s (unat n))"

lemma bufs_upd_buf [simp]:
  "bufs (upd_buf b f s) = (bufs s)(b := f (bufs s b))" "lk (upd_buf b f s) = lk s"
  "lru (upd_buf b f s) = lru s" "disk (upd_buf b f s) = disk s" "wtrace (upd_buf b f s) = wtrace s"
  "sleeplocks (upd_buf b f s) = sleeplocks s" "procs (upd_buf b f s) = procs s" "mem (upd_buf b f s) = mem s"
  "bio.more (upd_buf b f s) = bio.more s"
  by (simp_all add: upd_buf_def)

lemma bufs_upd_sl [simp]:
  "bufs (upd_sl l f s) = bufs s" "lru (upd_sl l f s) = lru s" "disk (upd_sl l f s) = disk s"
  "wtrace (upd_sl l f s) = wtrace s" "bio.more (upd_sl l f s) = bio.more s"
  by (simp_all add: upd_sl_def)

lemma lk_innermost_bio [lock_simps]:
  "(bufs_update f s)\<lparr>lk := L\<rparr> = bufs_update f (s\<lparr>lk := L\<rparr>)"
  "(lru_update g s)\<lparr>lk := L\<rparr> = lru_update g (s\<lparr>lk := L\<rparr>)"
  "(upd_buf b k s)\<lparr>lk := L\<rparr> = upd_buf b k (s\<lparr>lk := L\<rparr>)"
  by (simp_all add: upd_buf_def)

lemma bio_invD:
  assumes "bio_inv p H s"
  shows "quiet p s" "distinct (lru s)" "set (lru s) = {..<NBUF}" "H \<subseteq> {..<NBUF}"
    and "b < NBUF \<Longrightarrow> b' < NBUF \<Longrightarrow> d \<noteq> 0 \<Longrightarrow> bmatch d n s b \<Longrightarrow> bmatch d n s b' \<Longrightarrow> b = b'"
    and "b < NBUF \<Longrightarrow> brefcnt (bufs s b) = 0 \<Longrightarrow> bvalid (bufs s b) \<Longrightarrow>
       bdata (bufs s b) = disk s (unat (bblockno (bufs s b)))"
    and "b < NBUF \<Longrightarrow> slocked (sleeplocks s (BufSleep b)) \<longleftrightarrow> b \<in> H"
    and "b \<in> H \<Longrightarrow> slpid (sleeplocks s (BufSleep b)) = pid (procs s p) \<and> brefcnt (bufs s b) \<noteq> 0
       \<and> bvalid (bufs s b)"
    and "b < NBUF \<Longrightarrow> bvalid (bufs s b) \<Longrightarrow> bdev (bufs s b) = rootdev"
proof -
  note inv = assms[unfolded bio_inv_def]
  show "quiet p s" "distinct (lru s)" "set (lru s) = {..<NBUF}" "H \<subseteq> {..<NBUF}" using inv by simp_all
  show "b = b'" if "b < NBUF" "b' < NBUF" "d \<noteq> 0" "bmatch d n s b" "bmatch d n s b'"
    using inv that by (simp add: bmatch_def)
  show "bdata (bufs s b) = disk s (unat (bblockno (bufs s b)))"
    if "b < NBUF" "brefcnt (bufs s b) = 0" "bvalid (bufs s b)" using inv that by simp
  show "slocked (sleeplocks s (BufSleep b)) \<longleftrightarrow> b \<in> H" if "b < NBUF" using inv that by simp
  show "slpid (sleeplocks s (BufSleep b)) = pid (procs s p) \<and> brefcnt (bufs s b) \<noteq> 0
       \<and> bvalid (bufs s b)" if "b \<in> H" using inv that by simp
  show "bdev (bufs s b) = rootdev" if "b < NBUF" "bvalid (bufs s b)" using inv that by simp
qed

lemma find_lru:
  assumes "bio_inv p H s" and "d \<noteq> 0" and "b < NBUF" and "bmatch d n s b"
  shows "find (bmatch d n s) (lru s) = Some b"
proof -
  have "find (bmatch d n s) (lru s) \<noteq> None"
    using assms bio_invD(3)[OF assms(1)] by (auto simp: find_None_iff)
  then obtain b' where b': "find (bmatch d n s) (lru s) = Some b'" by auto
  then have "b' < NBUF" "bmatch d n s b'" using bio_invD(3)[OF assms(1)] by (auto simp: find_Some_iff)
  then have "b' = b" using bio_invD(5)[OF assms(1) _ assms(3) assms(2) _ assms(4)] by blast
  then show ?thesis using b' by simp
qed

lemma cached_match:
  assumes "bio_inv p H s" "d \<noteq> 0" "b < NBUF" "bmatch d n s b"
  shows "cached d s n = (if bvalid (bufs s b) then bdata (bufs s b) else disk s (unat n))"
  using find_lru[OF assms] by (simp add: cached_def)

lemma cached_nomatch:
  assumes "bio_inv p H s" "\<And>b. b < NBUF \<Longrightarrow> \<not> bmatch d n s b"
  shows "cached d s n = disk s (unat n)"
proof -
  have "find (bmatch d n s) (lru s) = None"
    using assms(2) bio_invD(3)[OF assms(1)] by (auto simp: find_None_iff)
  then show ?thesis by (simp add: cached_def)
qed

section \<open>bread\<close>

text \<open>The buffer \<^verbatim>\<open>bget\<close> picks: the one that holds the block, or the LRU unused one.\<close>

definition picks :: "u32 \<Rightarrow> u32 \<Rightarrow> 'z bio_scheme \<Rightarrow> nat \<Rightarrow> u32 \<Rightarrow> bool" where
  "picks d n s b rc \<longleftrightarrow> b < NBUF \<and>
     (if bmatch d n s b then rc = brefcnt (bufs s b) + 1
      else (\<forall>b'<NBUF. \<not> bmatch d n s b') \<and> brefcnt (bufs s b) = 0 \<and> rc = 1)"

definition held_buf :: "u32 \<Rightarrow> u32 \<Rightarrow> u32 \<Rightarrow> carr \<Rightarrow> buf" where
  "held_buf d n rc bs = \<lparr>bvalid = True, bdev = d, bblockno = n, brefcnt = rc, bdata = bs\<rparr>"

definition breads :: "nat \<Rightarrow> u32 \<Rightarrow> u32 \<Rightarrow> nat \<Rightarrow> u32 \<Rightarrow> 'z bio_scheme \<Rightarrow> 'z bio_scheme" where
  "breads p d n b rc s = upd_sl (BufSleep b) (\<lambda>x. x\<lparr>slocked := True, slpid := pid (procs s p)\<rparr>)
     (upd_buf b (\<lambda>x. held_buf d n rc (cached d s n)) (s\<lparr>lk := settle (lk s)\<rparr>))"

lemma bread_hit:
  assumes inv: "bio_inv p H s" and "d \<noteq> 0" and b: "b < NBUF" "bmatch d n s b" "b \<notin> H"
  shows "bread d n s = Some (b, breads p d n b (brefcnt (bufs s b) + 1) s)"
proof -
  have q: "quiet p s" by (rule bio_invD(1)[OF inv])
  note Q = quietD[OF q]
  have "find (\<lambda>b. bdev (bufs s b) = d \<and> bblockno (bufs s b) = n) (lru s) = Some b"
    using find_lru[OF inv assms(2) b(1,2)] unfolding bmatch_def .
  moreover have "\<not> slocked (sleeplocks s (BufSleep b))" using bio_invD(7)[OF inv b(1)] b(3) by simp
  moreover have "quiet p (upd_buf b (\<lambda>x. x\<lparr>brefcnt := brefcnt x + 1\<rparr>) (s\<lparr>lk := settle (lk s)\<rparr>))"
    using q by (simp add: quiet_def)
  ultimately have "bget d n s = Some (b, upd_sl (BufSleep b) (\<lambda>x. x\<lparr>slocked := True, slpid := pid (procs s p)\<rparr>)
      (upd_buf b (\<lambda>x. x\<lparr>brefcnt := brefcnt x + 1\<rparr>) (s\<lparr>lk := settle (lk s)\<rparr>)))"
    using Q by (simp add: bget_def lock_simps Let_def acquiresleep_free[where p = p])
  moreover have "cached d s n = (if bvalid (bufs s b) then bdata (bufs s b) else disk s (unat n))"
    by (rule cached_match[OF inv assms(2) b(1,2)])
  moreover have "bdev (bufs s b) = d" "bblockno (bufs s b) = n" using b(2) by (simp_all add: bmatch_def)
  ultimately show ?thesis
    by (cases "bufs s b") (auto simp: bread_def breads_def held_buf_def disk_rw_def upd_buf_def upd_sl_def Let_def)
qed

lemma bread_miss:
  assumes inv: "bio_inv p H s" and no: "\<And>b. b < NBUF \<Longrightarrow> \<not> bmatch d n s b"
    and free: "b0 < NBUF" "brefcnt (bufs s b0) = 0"
  shows "\<exists>b. b < NBUF \<and> brefcnt (bufs s b) = 0 \<and> bread d n s = Some (b, breads p d n b 1 s)"
proof -
  have q: "quiet p s" by (rule bio_invD(1)[OF inv])
  note Q = quietD[OF q]
  have "find (\<lambda>b. brefcnt (bufs s b) = 0) (rev (lru s)) \<noteq> None"
    using bio_invD(3)[OF inv] free by (auto simp: find_None_iff)
  then obtain b where fb: "find (\<lambda>b. brefcnt (bufs s b) = 0) (rev (lru s)) = Some b" by auto
  then have b: "b \<in> set (rev (lru s))" "brefcnt (bufs s b) = 0"
    by (auto simp: find_Some_iff simp del: set_rev)
  then have bN: "b < NBUF" using bio_invD(3)[OF inv] by simp
  have "find (\<lambda>b. bdev (bufs s b) = d \<and> bblockno (bufs s b) = n) (lru s) = None"
    using no bio_invD(3)[OF inv] by (auto simp: find_None_iff bmatch_def)
  moreover have "b \<notin> H" using b(2) bio_invD(8)[OF inv] by blast
  then have "\<not> slocked (sleeplocks s (BufSleep b))" using bio_invD(7)[OF inv bN] by simp
  moreover have "quiet p (upd_buf b f (s\<lparr>lk := settle (lk s)\<rparr>))" for f
    using q by (simp add: quiet_def)
  ultimately have "bget d n s = Some (b, upd_sl (BufSleep b) (\<lambda>x. x\<lparr>slocked := True, slpid := pid (procs s p)\<rparr>)
      (upd_buf b (\<lambda>x. x\<lparr>bdev := d, bblockno := n, bvalid := False, brefcnt := 1\<rparr>) (s\<lparr>lk := settle (lk s)\<rparr>)))"
    using Q fb by (simp add: bget_def lock_simps Let_def acquiresleep_free[where p = p])
  moreover have "cached d s n = disk s (unat n)" by (rule cached_nomatch[OF inv no])
  ultimately have "bread d n s = Some (b, breads p d n b 1 s)"
    by (cases "bufs s b") (simp add: bread_def breads_def held_buf_def disk_rw_def upd_buf_def upd_sl_def Let_def)
  then show ?thesis using bN b(2) by blast
qed

text \<open>Reading succeeds when the block is cached and not held by the caller itself, or some
  buffer is unused.\<close>

lemma bread_total:
  assumes "bio_inv p H s" and "d \<noteq> 0" and "\<And>b. b \<in> H \<Longrightarrow> \<not> bmatch d n s b"
    and "b0 < NBUF" "brefcnt (bufs s b0) = 0"
  shows "\<exists>b rc. picks d n s b rc \<and> b \<notin> H \<and> bread d n s = Some (b, breads p d n b rc s)"
proof (cases "\<exists>b<NBUF. bmatch d n s b")
  case True
  then obtain b where b: "b < NBUF" "bmatch d n s b" by blast
  then have "b \<notin> H" using assms(3) by blast
  then have "bread d n s = Some (b, breads p d n b (brefcnt (bufs s b) + 1) s)"
    by (rule bread_hit[OF assms(1,2) b])
  then show ?thesis using b \<open>b \<notin> H\<close> unfolding picks_def by (intro exI[of _ b] exI) auto
next
  case False
  then obtain b where b: "b < NBUF" "brefcnt (bufs s b) = 0" "bread d n s = Some (b, breads p d n b 1 s)"
    using bread_miss[OF assms(1) _ assms(4,5), of d n] by blast
  moreover have "b \<notin> H" using b(2) bio_invD(8)[OF assms(1)] by blast
  ultimately show ?thesis using False unfolding picks_def by (intro exI[of _ b] exI[of _ 1]) auto
qed

text \<open>
  A change of one buffer \<open>b\<close> that keeps the invariant: what the invariant needs of the new
  entry and of the lock, stated once for all operations.
\<close>

lemma bio_inv_change:
  assumes inv: "bio_inv p H s" and b: "b < NBUF"
    and q: "quiet p s'" and l: "distinct (lru s')" "set (lru s') = {..<NBUF}"
    and H: "H' \<subseteq> {..<NBUF}" "H' - {b} = H - {b}"
    and pid: "pid (procs s' p) = pid (procs s p)"
    and sl: "\<And>c. c \<noteq> b \<Longrightarrow> sleeplocks s' (BufSleep c) = sleeplocks s (BufSleep c)"
    and others: "\<And>c. c \<noteq> b \<Longrightarrow> bufs s' c = bufs s c"
    and uniq: "\<And>c. c < NBUF \<Longrightarrow> c \<noteq> b \<Longrightarrow> bdev (bufs s' b) \<noteq> 0 \<Longrightarrow>
       \<not> bmatch (bdev (bufs s' b)) (bblockno (bufs s' b)) s c"
    and clean: "brefcnt (bufs s' b) = 0 \<Longrightarrow> bvalid (bufs s' b) \<Longrightarrow>
       bdata (bufs s' b) = disk s' (unat (bblockno (bufs s' b)))"
    and dsk: "\<And>c. c < NBUF \<Longrightarrow> c \<noteq> b \<Longrightarrow> brefcnt (bufs s c) = 0 \<Longrightarrow> bvalid (bufs s c) \<Longrightarrow>
       disk s' (unat (bblockno (bufs s c))) = disk s (unat (bblockno (bufs s c)))"
    and lb: "slocked (sleeplocks s' (BufSleep b)) \<longleftrightarrow> b \<in> H'"
    and hb: "b \<in> H' \<Longrightarrow> slpid (sleeplocks s' (BufSleep b)) = pid (procs s' p)
       \<and> brefcnt (bufs s' b) \<noteq> 0 \<and> bvalid (bufs s' b)"
    and rd: "bvalid (bufs s' b) \<Longrightarrow> bdev (bufs s' b) = rootdev"
  shows "bio_inv p H' s'"
  unfolding bio_inv_def
proof (intro conjI allI impI ballI)
  fix c c' assume c: "c < NBUF" "c' < NBUF" "bdev (bufs s' c) \<noteq> 0"
    "bmatch (bdev (bufs s' c)) (bblockno (bufs s' c)) s' c'"
  show "c = c'"
  proof (cases "c = b"; cases "c' = b")
    assume "c = b" "c' \<noteq> b"
    then show ?thesis using c uniq[of c'] others[of c'] by (simp add: bmatch_def)
  next
    assume "c \<noteq> b" "c' = b"
    then show ?thesis using c uniq[of c] others[of c] by (simp add: bmatch_def)
  next
    assume "c \<noteq> b" "c' \<noteq> b"
    then show ?thesis using c bio_invD(5)[OF inv c(1,2)] others[of c] others[of c'] by (simp add: bmatch_def)
  qed simp
next
  fix c assume c: "c < NBUF" "brefcnt (bufs s' c) = 0" "bvalid (bufs s' c)"
  show "bdata (bufs s' c) = disk s' (unat (bblockno (bufs s' c)))"
  proof (cases "c = b")
    case False
    then show ?thesis using c others[of c] bio_invD(6)[OF inv c(1)] dsk[of c] by simp
  qed (use clean c in simp)
next
  fix c assume c: "c < NBUF"
  show "slocked (sleeplocks s' (BufSleep c)) \<longleftrightarrow> c \<in> H'"
  proof (cases "c = b")
    case False
    then have "c \<in> H' \<longleftrightarrow> c \<in> H" using H(2) by blast
    then show ?thesis using False sl[of c] bio_invD(7)[OF inv c] by simp
  qed (use lb in simp)
next
  fix c assume c: "c \<in> H'"
  have "slpid (sleeplocks s' (BufSleep c)) = pid (procs s' p) \<and> brefcnt (bufs s' c) \<noteq> 0
       \<and> bvalid (bufs s' c)"
  proof (cases "c = b")
    case False
    then have "c \<in> H" using c H(2) by blast
    then show ?thesis using False sl[of c] others[of c] bio_invD(8)[OF inv, of c] pid by simp
  qed (use hb c in simp)
  then show "slpid (sleeplocks s' (BufSleep c)) = pid (procs s' p)" "brefcnt (bufs s' c) \<noteq> 0"
    "bvalid (bufs s' c)" by simp_all
next
  fix c assume c: "c < NBUF" "bvalid (bufs s' c)"
  show "bdev (bufs s' c) = rootdev"
    using c rd others[of c] bio_invD(9)[OF inv c(1)] by (cases "c = b") simp_all
qed (rule q l H)+

lemma cached_change:
  assumes inv: "bio_inv p H s" and inv': "bio_inv p H' s'" and d: "d \<noteq> 0" and b: "b < NBUF"
    and others: "\<And>c. c \<noteq> b \<Longrightarrow> bufs s' c = bufs s c" and dsk: "disk s' (unat m) = disk s (unat m)"
    and nb: "\<not> bmatch d m s' b"
    and old: "bmatch d m s b \<Longrightarrow> bvalid (bufs s b) \<Longrightarrow> bdata (bufs s b) = disk s (unat m)"
  shows "cached d s' m = cached d s m"
proof (cases "\<exists>c<NBUF. bmatch d m s' c")
  case True
  then obtain c where c: "c < NBUF" "bmatch d m s' c" by blast
  then have "c \<noteq> b" using nb by auto
  then have "bmatch d m s c" using c(2) others by (simp add: bmatch_def)
  then show ?thesis
    using cached_match[OF inv' d c] cached_match[OF inv d c(1)] others[OF \<open>c \<noteq> b\<close>] dsk by simp
next
  case False
  then have "cached d s' m = disk s (unat m)" using cached_nomatch[OF inv'] dsk by simp
  moreover have "cached d s m = disk s (unat m)"
  proof (cases "bmatch d m s b")
    case True
    then show ?thesis using cached_match[OF inv d b True] old by simp
  next
    case nb': False
    have "\<not> bmatch d m s c" if "c < NBUF" for c
    proof (cases "c = b")
      case f: False
      then have "bmatch d m s c = bmatch d m s' c" using others[OF f] by (simp add: bmatch_def)
      then show ?thesis using False that by blast
    qed (use nb' in simp)
    then show ?thesis by (rule cached_nomatch[OF inv])
  qed
  ultimately show ?thesis by simp
qed

lemma breads_simps [simp]:
  "bufs (breads p d n b rc s) = (bufs s)(b := held_buf d n rc (cached d s n))"
  "lk (breads p d n b rc s) = settle (lk s)" "lru (breads p d n b rc s) = lru s"
  "disk (breads p d n b rc s) = disk s" "wtrace (breads p d n b rc s) = wtrace s"
  "procs (breads p d n b rc s) = procs s" "mem (breads p d n b rc s) = mem s"
  "bio.more (breads p d n b rc s) = bio.more s"
  "sleeplocks (breads p d n b rc s) = (sleeplocks s)(BufSleep b :=
     (sleeplocks s (BufSleep b))\<lparr>slocked := True, slpid := pid (procs s p)\<rparr>)"
  by (simp_all add: breads_def)

lemma held_buf_simps [simp]:
  "bvalid (held_buf d n rc bs)" "bdev (held_buf d n rc bs) = d" "bblockno (held_buf d n rc bs) = n"
  "brefcnt (held_buf d n rc bs) = rc" "bdata (held_buf d n rc bs) = bs"
  by (simp_all add: held_buf_def)

lemma breads_inv:
  assumes inv: "bio_inv p H s" and d: "d = rootdev" and pk: "picks d n s b rc" "rc \<noteq> 0" "b \<notin> H"
  shows "bio_inv p (insert b H) (breads p d n b rc s)"
proof -
  have d0: "d \<noteq> 0" using d by simp
  have b: "b < NBUF" using pk(1) by (simp add: picks_def)
  have "\<not> bmatch d n s c" if "c < NBUF" "c \<noteq> b" for c
    using pk(1) that bio_invD(5)[OF inv that(1) b d0] by (auto simp: picks_def split: if_splits)
  then show ?thesis
    using b pk d bio_invD(1,2,3,4)[OF inv] by (intro bio_inv_change[OF inv b]) (auto simp: quiet_def)
qed

lemma breads_cached:
  assumes inv: "bio_inv p H s" and d: "d = rootdev" and pk: "picks d n s b rc" "rc \<noteq> 0" "b \<notin> H"
  shows "cached d (breads p d n b rc s) m = cached d s m"
proof -
  let ?s' = "breads p d n b rc s"
  have b: "b < NBUF" using pk(1) by (simp add: picks_def)
  have inv': "bio_inv p (insert b H) ?s'" by (rule breads_inv[OF assms])
  show ?thesis
  proof (cases "m = n")
    case True
    then show ?thesis using cached_match[OF inv' _ b, of d n] d by (simp add: bmatch_def)
  next
    case False
    have "bdata (bufs s b) = disk s (unat m)" if "bmatch d m s b" "bvalid (bufs s b)"
    proof -
      have "\<not> bmatch d n s b" "bblockno (bufs s b) = m" using that(1) False by (auto simp: bmatch_def)
      moreover from this have "brefcnt (bufs s b) = 0" using pk(1) by (simp add: picks_def)
      ultimately show ?thesis using bio_invD(6)[OF inv b] that(2) by simp
    qed
    then show ?thesis
      using False d by (intro cached_change[OF inv inv' _ b]) (auto simp: bmatch_def)
  qed
qed

section \<open>Holding a buffer\<close>

lemma held_match:
  assumes inv: "bio_inv p H s" and "b \<in> H"
  shows "b < NBUF" "bdev (bufs s b) = rootdev" "bmatch rootdev (bblockno (bufs s b)) s b"
proof -
  show "b < NBUF" using bio_invD(4)[OF inv] assms(2) by auto
  then show "bdev (bufs s b) = rootdev" using bio_invD(8,9)[OF inv] assms(2) by blast
  then show "bmatch rootdev (bblockno (bufs s b)) s b" by (simp add: bmatch_def)
qed

text \<open>The data of a held buffer may be changed; readers of the block then see the change.\<close>

definition set_data :: "nat \<Rightarrow> carr \<Rightarrow> 'z bio_scheme \<Rightarrow> 'z bio_scheme" where
  "set_data b x s = upd_buf b (\<lambda>y. y\<lparr>bdata := x\<rparr>) s"

lemma set_data_simps [simp]:
  "bufs (set_data b x s) = (bufs s)(b := (bufs s b)\<lparr>bdata := x\<rparr>)" "lk (set_data b x s) = lk s"
  "lru (set_data b x s) = lru s" "disk (set_data b x s) = disk s" "wtrace (set_data b x s) = wtrace s"
  "sleeplocks (set_data b x s) = sleeplocks s" "procs (set_data b x s) = procs s"
  "mem (set_data b x s) = mem s" "bio.more (set_data b x s) = bio.more s"
  by (simp_all add: set_data_def)

lemma uniq_held:
  assumes "bio_inv p H s" and "b \<in> H" and "c < NBUF" "c \<noteq> b"
  shows "\<not> bmatch (bdev (bufs s b)) (bblockno (bufs s b)) s c"
  using bio_invD(5)[OF assms(1) assms(3) held_match(1)[OF assms(1,2)], of rootdev] held_match[OF assms(1,2)]
    assms(4) by auto

lemma set_data_inv:
  assumes inv: "bio_inv p H s" and b: "b \<in> H"
  shows "bio_inv p H (set_data b x s)"
  using bio_invD(1,2,3,4)[OF inv] bio_invD(7,8)[OF inv] held_match[OF inv b] b uniq_held[OF inv b]
  by (intro bio_inv_change[OF inv held_match(1)[OF inv b]]) (auto simp: quiet_def)

lemma set_data_cached:
  assumes inv: "bio_inv p H s" and b: "b \<in> H"
  shows "cached rootdev (set_data b x s) = (cached rootdev s)(bblockno (bufs s b) := x)"
proof
  fix m
  note inv' = set_data_inv[OF inv b, of x]
  note hm = held_match[OF inv b]
  show "cached rootdev (set_data b x s) m = ((cached rootdev s)(bblockno (bufs s b) := x)) m"
  proof (cases "m = bblockno (bufs s b)")
    case True
    then have "bmatch rootdev m (set_data b x s) b" using hm by (simp add: bmatch_def)
    then show ?thesis
      using cached_match[OF inv' _ hm(1)] bio_invD(8)[OF inv b] True by simp
  next
    case False
    then have "cached rootdev (set_data b x s) m = cached rootdev s m"
      by (intro cached_change[OF inv inv' _ hm(1)]) (auto simp: bmatch_def)
    then show ?thesis using False by simp
  qed
qed

definition bwrites :: "nat \<Rightarrow> 'z bio_scheme \<Rightarrow> 'z bio_scheme" where
  "bwrites b s = disk_rw b True (s\<lparr>lk := settle (lk s)\<rparr>)"

lemma bwrites_simps [simp]:
  "bufs (bwrites b s) = bufs s" "lk (bwrites b s) = settle (lk s)" "lru (bwrites b s) = lru s"
  "disk (bwrites b s) = (disk s)(unat (bblockno (bufs s b)) := bdata (bufs s b))"
  "wtrace (bwrites b s) = (unat (bblockno (bufs s b)), bdata (bufs s b)) # wtrace s"
  "sleeplocks (bwrites b s) = sleeplocks s" "procs (bwrites b s) = procs s"
  "mem (bwrites b s) = mem s" "bio.more (bwrites b s) = bio.more s"
  by (simp_all add: bwrites_def disk_rw_def Let_def)

lemma bwrite_held:
  assumes inv: "bio_inv p H s" and b: "b \<in> H"
  shows "bwrite b s = Some (bwrites b s)"
  using holdingsleep_eq[OF bio_invD(1)[OF inv]] bio_invD(7)[OF inv held_match(1)[OF inv b]] bio_invD(8)[OF inv b] b
  by (simp add: bwrite_def bwrites_def)

lemma bwrites_inv:
  assumes inv: "bio_inv p H s" and b: "b \<in> H"
  shows "bio_inv p H (bwrites b s)"
proof -
  have "unat (bblockno (bufs s c)) \<noteq> unat (bblockno (bufs s b))"
    if "c < NBUF" "c \<noteq> b" "bvalid (bufs s c)" for c
    using uniq_held[OF inv b that(1,2)] bio_invD(9)[OF inv that(1,3)] held_match(2)[OF inv b]
    by (auto simp: bmatch_def word_unat_eq_iff)
  then show ?thesis
    using bio_invD(1,2,3,4)[OF inv] bio_invD(7,8)[OF inv] held_match[OF inv b] b uniq_held[OF inv b]
    by (intro bio_inv_change[OF inv held_match(1)[OF inv b]]) (auto simp: quiet_def)
qed

lemma bwrites_cached:
  assumes inv: "bio_inv p H s" and b: "b \<in> H"
  shows "cached rootdev (bwrites b s) = cached rootdev s"
proof
  fix m
  note inv' = bwrites_inv[OF inv b]
  note hm = held_match[OF inv b]
  show "cached rootdev (bwrites b s) m = cached rootdev s m"
  proof (cases "m = bblockno (bufs s b)")
    case True
    then have "bmatch rootdev m (bwrites b s) b" "bmatch rootdev m s b" using hm by (simp_all add: bmatch_def)
    then show ?thesis
      using cached_match[OF inv' _ hm(1)] cached_match[OF inv _ hm(1)] bio_invD(8)[OF inv b] by simp
  next
    case False
    then show ?thesis
      by (intro cached_change[OF inv inv' rootdev_neq_0 hm(1)]) (auto simp: bmatch_def word_unat_eq_iff)
  qed
qed

definition brelses :: "nat \<Rightarrow> nat \<Rightarrow> 'z bio_scheme \<Rightarrow> 'z bio_scheme" where
  "brelses p b s =
     (let s = upd_sl (BufSleep b) (\<lambda>x. x\<lparr>slocked := False, slpid := 0\<rparr>) (s\<lparr>lk := settle (lk s),
                procs := woken (Some (ChanBufLock b)) (Some p) {..<NPROC} (procs s)\<rparr>);
          s = upd_buf b (\<lambda>x. x\<lparr>brefcnt := brefcnt x - 1\<rparr>) s
      in if brefcnt (bufs s b) = 0 then s\<lparr>lru := b # remove1 b (lru s)\<rparr> else s)"

lemma brelses_simps [simp]:
  "bufs (brelses p b s) = (bufs s)(b := (bufs s b)\<lparr>brefcnt := brefcnt (bufs s b) - 1\<rparr>)"
  "lk (brelses p b s) = settle (lk s)" "disk (brelses p b s) = disk s" "wtrace (brelses p b s) = wtrace s"
  "lru (brelses p b s) = (if brefcnt (bufs s b) = 1 then b # remove1 b (lru s) else lru s)"
  "sleeplocks (brelses p b s) = (sleeplocks s)(BufSleep b :=
     (sleeplocks s (BufSleep b))\<lparr>slocked := False, slpid := 0\<rparr>)"
  "procs (brelses p b s) = woken (Some (ChanBufLock b)) (Some p) {..<NPROC} (procs s)"
  "mem (brelses p b s) = mem s" "bio.more (brelses p b s) = bio.more s"
  by (simp_all add: brelses_def Let_def)

lemma woken_pid [simp]: "pid (woken c me A ps q) = pid (ps q)"
  by (simp add: woken_def)

lemma brelse_held:
  assumes inv: "bio_inv p H s" and b: "b \<in> H"
  shows "brelse b s = Some (brelses p b s)"
proof -
  have q: "quiet p s" by (rule bio_invD(1)[OF inv])
  have h: "holdingsleep (BufSleep b) s = Some (True, s\<lparr>lk := settle (lk s)\<rparr>)"
    using holdingsleep_eq[OF q] bio_invD(7)[OF inv held_match(1)[OF inv b]] bio_invD(8)[OF inv b] b by simp
  have "quiet p (s\<lparr>lk := settle (lk s)\<rparr>)" using q by simp
  note rel = releasesleep_eq[OF this, of "BufSleep b"]
  show ?thesis
    using quietD[OF q] h rel
    by (simp add: brelse_def brelses_def lock_simps Let_def upd_buf_def upd_sl_def)
qed

lemma brelses_inv:
  assumes inv: "bio_inv p H s" and b: "b \<in> H"
    and clean: "brefcnt (bufs s b) = 1 \<Longrightarrow> bdata (bufs s b) = disk s (unat (bblockno (bufs s b)))"
  shows "bio_inv p (H - {b}) (brelses p b s)"
  using bio_invD(1,2,3,4)[OF inv] held_match[OF inv b] uniq_held[OF inv b] clean
  by (intro bio_inv_change[OF inv held_match(1)[OF inv b]]) (auto simp: quiet_def)

lemma brelses_cached:
  assumes inv: "bio_inv p H s" and b: "b \<in> H"
    and clean: "brefcnt (bufs s b) = 1 \<Longrightarrow> bdata (bufs s b) = disk s (unat (bblockno (bufs s b)))"
  shows "cached rootdev (brelses p b s) = cached rootdev s"
proof
  fix m
  note inv' = brelses_inv[OF assms]
  note hm = held_match[OF inv b]
  show "cached rootdev (brelses p b s) m = cached rootdev s m"
  proof (cases "m = bblockno (bufs s b)")
    case True
    then have "bmatch rootdev m (brelses p b s) b" "bmatch rootdev m s b" using hm by (simp_all add: bmatch_def)
    then show ?thesis
      using cached_match[OF inv' _ hm(1)] cached_match[OF inv _ hm(1)] bio_invD(8)[OF inv b] by simp
  next
    case False
    then show ?thesis
      by (intro cached_change[OF inv inv' _ hm(1)]) (auto simp: bmatch_def)
  qed
qed

end
