(* ===== verification/ByteFields.thy ===== *)
theory ByteFields
  imports Cmem
begin

text \<open>
  Little-endian 16- and 32-bit fields of byte arrays: how the kernel's casts of block data
  to \<^verbatim>\<open>struct logheader\<close>, \<^verbatim>\<open>struct superblock\<close>, \<^verbatim>\<open>struct dinode\<close>, \<^verbatim>\<open>struct dirent\<close> and
  \<^verbatim>\<open>uint[]\<close> read and write the bytes. A field read where it was last written gives the
  value back, and writes to disjoint fields do not interfere.
\<close>

unbundle bit_operations_syntax

definition get16 :: "carr \<Rightarrow> nat \<Rightarrow> u16" where
  "get16 a i = of_nat (unat (a i) + 256 * unat (a (i + 1)))"

definition put16 :: "u16 \<Rightarrow> nat \<Rightarrow> carr \<Rightarrow> carr" where
  "put16 v i a = a(i := ucast v, i + 1 := ucast (drop_bit 8 v))"

definition get32 :: "carr \<Rightarrow> nat \<Rightarrow> u32" where
  "get32 a i = of_nat (unat (a i) + 256 * unat (a (i + 1)) + 65536 * unat (a (i + 2))
     + 16777216 * unat (a (i + 3)))"

definition put32 :: "u32 \<Rightarrow> nat \<Rightarrow> carr \<Rightarrow> carr" where
  "put32 v i a = a(i := ucast v, i + 1 := ucast (drop_bit 8 v), i + 2 := ucast (drop_bit 16 v),
     i + 3 := ucast (drop_bit 24 v))"

lemma unat_byte_of: "unat (ucast (drop_bit k (v :: 'a :: len word)) :: u8) = unat v div 2 ^ k mod 256"
proof -
  have "unat (ucast (drop_bit k v) :: u8) = take_bit 8 (unat (drop_bit k v))"
    by (simp add: unsigned_ucast_eq)
  also have "unat (drop_bit k v) = unat v div 2 ^ k"
    by (subst unat_drop_bit_eq) (simp add: drop_bit_eq_div)
  finally show ?thesis by (simp add: take_bit_eq_mod)
qed

lemma nat_split4: "v < 4294967296 \<Longrightarrow>
  v mod 256 + 256 * (v div 256 mod 256) + 65536 * (v div 65536 mod 256) + 16777216 * (v div 16777216 mod 256) = (v :: nat)"
proof -
  assume "v < 4294967296"
  then have "v div 16777216 mod 256 = v div 256 div 256 div 256"
    by (simp add: div_mult2_eq[symmetric] less_mult_imp_div_less)
  moreover have "v div 65536 mod 256 = v div 256 div 256 mod 256" by (simp add: div_mult2_eq[symmetric])
  ultimately show ?thesis
    using div_mult_mod_eq[of v 256] div_mult_mod_eq[of "v div 256" 256]
      div_mult_mod_eq[of "v div 256 div 256" 256] by linarith
qed

lemma get32_put32 [simp]: "get32 (put32 v i a) i = v"
proof -
  have "unat v < 4294967296" by simp
  then have "of_nat (unat v mod 256 + 256 * (unat v div 256 mod 256) + 65536 * (unat v div 65536 mod 256)
      + 16777216 * (unat v div 16777216 mod 256)) = v"
    by (simp only: nat_split4) simp
  then show ?thesis
    using unat_byte_of[of 0 v] unat_byte_of[of 8 v] unat_byte_of[of 16 v] unat_byte_of[of 24 v]
    by (simp add: get32_def put32_def)
qed

lemma get16_put16 [simp]: "get16 (put16 v i a) i = v"
proof -
  have "unat v < 65536" using unsigned_less[of v, where 'a = nat] by simp
  then have "unat v div 256 mod 256 = unat v div 256" by (simp add: less_mult_imp_div_less)
  then have "of_nat (unat v mod 256 + 256 * (unat v div 256 mod 256)) = v"
    proof -
    have "unat v mod 256 + 256 * (unat v div 256) = unat v" by simp
    then show ?thesis using \<open>unat v div 256 mod 256 = unat v div 256\<close> by (simp del: mod_mult_div_eq)
  qed
  then show ?thesis
    using unat_byte_of[of 0 v] unat_byte_of[of 8 v] by (simp add: get16_def put16_def)
qed

lemma get32_cong:
  assumes "\<And>k. k < 4 \<Longrightarrow> a (i + k) = b (j + k)"
  shows "get32 a i = get32 b j"
  using assms[of 0] assms[of 1] assms[of 2] assms[of 3] by (simp add: get32_def)

lemma put32_other [simp]: "x < i \<or> i + 4 \<le> x \<Longrightarrow> put32 v i a x = a x"
  by (auto simp: put32_def)

lemma put16_other [simp]: "x < i \<or> i + 2 \<le> x \<Longrightarrow> put16 v i a x = a x"
  by (auto simp: put16_def)

lemma get32_put32_other [simp]: "j + 4 \<le> i \<or> i + 4 \<le> j \<Longrightarrow> get32 (put32 v i a) j = get32 a j"
  by (auto simp: get32_def)

lemma get32_put16_other [simp]: "j + 4 \<le> i \<or> i + 2 \<le> j \<Longrightarrow> get32 (put16 v i a) j = get32 a j"
  by (auto simp: get32_def)

lemma get16_put32_other [simp]: "j + 2 \<le> i \<or> i + 4 \<le> j \<Longrightarrow> get16 (put32 v i a) j = get16 a j"
  by (auto simp: get16_def)

lemma get16_put16_other [simp]: "j + 2 \<le> i \<or> i + 2 \<le> j \<Longrightarrow> get16 (put16 v i a) j = get16 a j"
  by (auto simp: get16_def)

end
