(* ===== verification/Log.thy ===== *)
theory Log
  imports Bio ByteFields
begin

text \<open>
  The write-ahead log, \<^verbatim>\<open>kernel/log.c\<close>. The fields of \<^verbatim>\<open>struct log\<close> are fields of the
  kernel state; the header block is read and written as the C casts do, \<^verbatim>\<open>n\<close> at byte 0
  and \<^verbatim>\<open>block[i]\<close> at byte \<open>4 + 4 * i\<close>. \<open>begin_op_start\<close> is \<^verbatim>\<open>begin_op\<close> up to the point
  where it has either reserved its space or switched away in \<^verbatim>\<open>sleep\<close>,
  \<open>begin_op_resume\<close> its continuation, \<open>begin_op\<close> the call that need not wait.
  The messages \<^verbatim>\<open>install_trans\<close> prints while recovering are not part of the state.
\<close>

record logst = bio +
  log_start :: u32
  log_outstanding :: int
  log_committing :: bool
  log_dev :: u32
  lh_n :: int
  lh_block :: "nat \<Rightarrow> u32"

section \<open>Header\<close>

definition read_head :: "'z logst_scheme \<Rightarrow> 'z logst_scheme option" where
  "read_head s = do {
     (b, s) \<leftarrow> bread (log_dev s) (log_start s) s;
     let lh = bdata (bufs s b);
     let s = s\<lparr>lh_n := sint (get32 lh 0)\<rparr>;
     let s = s\<lparr>lh_block := fold (\<lambda>i f. f(i := get32 lh (4 + 4 * i))) [0..<nat (lh_n s)] (lh_block s)\<rparr>;
     brelse b s
   }"

definition put_head :: "int \<Rightarrow> (nat \<Rightarrow> u32) \<Rightarrow> carr \<Rightarrow> carr" where
  "put_head n blk d = fold (\<lambda>i d. put32 (blk i) (4 + 4 * i) d) [0..<nat n] (put32 (word_of_int n) 0 d)"

definition write_head :: "'z logst_scheme \<Rightarrow> 'z logst_scheme option" where
  "write_head s = do {
     (b, s) \<leftarrow> bread (log_dev s) (log_start s) s;
     let s = set_data b (put_head (lh_n s) (lh_block s) (bdata (bufs s b))) s;
     s \<leftarrow> bwrite b s;
     brelse b s
   }"

section \<open>Installing and recovering\<close>

text \<open>\<^verbatim>\<open>memmove(dst->data, src->data, BSIZE)\<close> copies the whole data array.\<close>

definition bcopy :: "nat \<Rightarrow> nat \<Rightarrow> 'z bio_scheme \<Rightarrow> 'z bio_scheme" where
  "bcopy dst src s = set_data dst (bdata (bufs s src)) s"

fun install_trans_from :: "bool \<Rightarrow> nat list \<Rightarrow> 'z logst_scheme \<Rightarrow> 'z logst_scheme option" where
  "install_trans_from recovering [] s = Some s"
| "install_trans_from recovering (i # is) s = do {
     (lbuf, s) \<leftarrow> bread (log_dev s) (log_start s + of_nat i + 1) s;
     (dbuf, s) \<leftarrow> bread (log_dev s) (lh_block s i) s;
     let s = bcopy dbuf lbuf s;
     s \<leftarrow> bwrite dbuf s;
     s \<leftarrow> (if \<not> recovering then bunpin dbuf s else Some s);
     s \<leftarrow> brelse lbuf s;
     s \<leftarrow> brelse dbuf s;
     install_trans_from recovering is s
   }"

definition install_trans :: "bool \<Rightarrow> 'z logst_scheme \<Rightarrow> 'z logst_scheme option" where
  "install_trans recovering s = install_trans_from recovering [0..<nat (lh_n s)] s"

definition recover_from_log :: "'z logst_scheme \<Rightarrow> 'z logst_scheme option" where
  "recover_from_log s = do {
     s \<leftarrow> read_head s;
     s \<leftarrow> install_trans True s;
     let s = s\<lparr>lh_n := 0\<rparr>;
     write_head s
   }"

text \<open>\<^verbatim>\<open>sizeof(struct logheader)\<close> is \<open>4 + 4 * LOGBLOCKS\<close>.\<close>

definition initlog :: "u32 \<Rightarrow> u32 \<Rightarrow> 'z logst_scheme \<Rightarrow> 'z logst_scheme option" where
  "initlog dev sb_logstart s =
     (if 4 + 4 * LOGBLOCKS \<ge> BSIZE then None
      else let s = s\<lparr>lk := initlock LogLock ''log'' (lk s)\<rparr>;
               s = s\<lparr>log_start := sb_logstart\<rparr>;
               s = s\<lparr>log_dev := dev\<rparr>
           in install_trans True s)"

section \<open>Transactions\<close>

definition begin_op_loop :: "'z logst_scheme \<Rightarrow> (bool option \<times> 'z logst_scheme) option" where
  "begin_op_loop s =
     (if log_committing s then do {
        (ie, s) \<leftarrow> sleep_out (Some ChanLog) LogLock s;
        Some (Some ie, s)
      } else if lh_n s + (log_outstanding s + 1) * int MAXOPBLOCKS > int LOGBLOCKS then do {
        (ie, s) \<leftarrow> sleep_out (Some ChanLog) LogLock s;
        Some (Some ie, s)
      } else do {
        let s = s\<lparr>log_outstanding := log_outstanding s + 1\<rparr>;
        s \<leftarrow> release LogLock s;
        Some (None, s)
      })"

definition begin_op_start :: "'z logst_scheme \<Rightarrow> (bool option \<times> 'z logst_scheme) option" where
  "begin_op_start s = do {
     s \<leftarrow> acquire LogLock s;
     begin_op_loop s
   }"

definition begin_op_resume :: "nat \<Rightarrow> bool \<Rightarrow> 'z logst_scheme \<Rightarrow> (bool option \<times> 'z logst_scheme) option" where
  "begin_op_resume p ie s = do {
     s \<leftarrow> sleep_in p LogLock ie s;
     begin_op_loop s
   }"

definition begin_op :: "'z logst_scheme \<Rightarrow> 'z logst_scheme option" where
  "begin_op s = do {
     (w, s) \<leftarrow> begin_op_start s;
     (case w of None \<Rightarrow> Some s | Some _ \<Rightarrow> None)
   }"

fun write_log_from :: "nat list \<Rightarrow> 'z logst_scheme \<Rightarrow> 'z logst_scheme option" where
  "write_log_from [] s = Some s"
| "write_log_from (i # is) s = do {
     (t, s) \<leftarrow> bread (log_dev s) (log_start s + of_nat i + 1) s;
     (f, s) \<leftarrow> bread (log_dev s) (lh_block s i) s;
     let s = bcopy t f s;
     s \<leftarrow> bwrite t s;
     s \<leftarrow> brelse f s;
     s \<leftarrow> brelse t s;
     write_log_from is s
   }"

definition write_log :: "'z logst_scheme \<Rightarrow> 'z logst_scheme option" where
  "write_log s = write_log_from [0..<nat (lh_n s)] s"

definition commit :: "'z logst_scheme \<Rightarrow> 'z logst_scheme option" where
  "commit s =
     (if lh_n s = 0 then Some s
      else do {
        s \<leftarrow> write_log s;
        s \<leftarrow> write_head s;
        s \<leftarrow> install_trans False s;
        let s = s\<lparr>lh_n := 0\<rparr>;
        write_head s
      })"

definition end_op :: "'z logst_scheme \<Rightarrow> 'z logst_scheme option" where
  "end_op s = do {
     s \<leftarrow> acquire LogLock s;
     let s = s\<lparr>log_outstanding := log_outstanding s - 1\<rparr>;
     if log_committing s then None
     else do {
       let do_commit = (log_outstanding s = 0);
       s \<leftarrow> (if do_commit then Some (s\<lparr>log_committing := True\<rparr>) else wakeup (Some ChanLog) s);
       s \<leftarrow> release LogLock s;
       if do_commit then do {
         s \<leftarrow> commit s;
         s \<leftarrow> acquire LogLock s;
         let s = s\<lparr>log_committing := False\<rparr>;
         s \<leftarrow> wakeup (Some ChanLog) s;
         release LogLock s
       } else Some s
     }
   }"

definition log_slot :: "u32 \<Rightarrow> 'z logst_scheme \<Rightarrow> nat" where
  "log_slot bno s =
     (case find (\<lambda>i. lh_block s i = bno) [0..<nat (lh_n s)] of Some i \<Rightarrow> i | None \<Rightarrow> nat (lh_n s))"

definition log_write :: "nat \<Rightarrow> 'z logst_scheme \<Rightarrow> 'z logst_scheme option" where
  "log_write b s = do {
     s \<leftarrow> acquire LogLock s;
     if lh_n s \<ge> int LOGBLOCKS then None
     else if log_outstanding s < 1 then None
     else do {
       let i = log_slot (bblockno (bufs s b)) s;
       let s = s\<lparr>lh_block := (lh_block s)(i := bblockno (bufs s b))\<rparr>;
       s \<leftarrow> (if int i = lh_n s then do {
              s \<leftarrow> bpin b s;
              Some (s\<lparr>lh_n := lh_n s + 1\<rparr>)
            } else Some s);
       release LogLock s
     }
   }"

end
