(* ===== verification/Fs.thy ===== *)
theory Fs
  imports Log
begin

text \<open>
  The file system, \<^verbatim>\<open>kernel/fs.c\<close>: superblock, block allocator, inode table, inode content,
  directories and path names. A pointer to an in-memory inode is the index of its entry in the
  inode table. The structures on the disk are read and written at their byte offsets: dinode
  \<open>i\<close> of a block starts at byte \<open>64 * i\<close> (\<^verbatim>\<open>type\<close>, \<^verbatim>\<open>major\<close>, \<^verbatim>\<open>minor\<close>, \<^verbatim>\<open>nlink\<close>,
  \<^verbatim>\<open>size\<close>, \<^verbatim>\<open>addrs\<close>), a directory entry is two bytes of inode number and fourteen of name.

  The loops that run over block numbers and inode numbers count in naturals; the offsets and
  sizes of \<^verbatim>\<open>readi\<close>, \<^verbatim>\<open>writei\<close> and the directory scans are 32-bit words, since their
  overflow tests depend on it. Path names and directory-entry names are byte arrays;
  \<open>None\<close> as an inode result is the null pointer. Console messages are not part of the state.
\<close>

section \<open>On-disk format\<close>

definition ROOTINO :: u32 where "ROOTINO = 1"
definition FSMAGIC :: u32 where "FSMAGIC = 0x10203040"
definition NDIRECT :: nat where "NDIRECT = 12"
definition NINDIRECT :: nat where "NINDIRECT = BSIZE div 4"
definition MAXFILE :: nat where "MAXFILE = NDIRECT + NINDIRECT"
definition IPB :: nat where "IPB = BSIZE div 64"
definition BPB :: nat where "BPB = BSIZE * 8"
definition DIRSIZ :: nat where "DIRSIZ = 14"

definition T_DIR :: u16 where "T_DIR = 1"
definition T_FILE :: u16 where "T_FILE = 2"
definition T_DEVICE :: u16 where "T_DEVICE = 3"

lemmas fs_consts = NDIRECT_def NINDIRECT_def MAXFILE_def IPB_def BPB_def DIRSIZ_def BSIZE_def

record superblock =
  sb_magic :: u32
  sb_size :: u32
  sb_nblocks :: u32
  sb_ninodes :: u32
  sb_nlog :: u32
  sb_logstart :: u32
  sb_inodestart :: u32
  sb_bmapstart :: u32

record inode =
  idev :: u32
  inum :: u32
  iref :: int
  ivalid :: bool
  itype :: u16
  imajor :: u16
  iminor :: u16
  inlink :: u16
  isize :: u32
  iaddrs :: "nat \<Rightarrow> u32"

record fsst = logst +
  sb :: superblock
  inodes :: "nat \<Rightarrow> inode"

definition upd_inode :: "nat \<Rightarrow> (inode \<Rightarrow> inode) \<Rightarrow> 'z fsst_scheme \<Rightarrow> 'z fsst_scheme" where
  "upd_inode ip f s = s\<lparr>inodes := (inodes s)(ip := f (inodes s ip))\<rparr>"

definition IBLOCK :: "u32 \<Rightarrow> superblock \<Rightarrow> u32" where
  "IBLOCK i b = of_nat (unat i div IPB) + sb_inodestart b"

definition BBLOCK :: "u32 \<Rightarrow> superblock \<Rightarrow> u32" where
  "BBLOCK n b = of_nat (unat n div BPB) + sb_bmapstart b"

text \<open>The byte offset of the dinode of \<open>inum\<close> in its block.\<close>

definition dip_at :: "u32 \<Rightarrow> nat" where
  "dip_at n = 64 * (unat n mod IPB)"

definition dip_type :: "u32 \<Rightarrow> carr \<Rightarrow> u16" where
  "dip_type n d = get16 d (dip_at n)"

definition dip_nlink :: "u32 \<Rightarrow> carr \<Rightarrow> u16" where
  "dip_nlink n d = get16 d (dip_at n + 6)"

definition get_dinode :: "carr \<Rightarrow> inode \<Rightarrow> inode" where
  "get_dinode d x = (let a = dip_at (inum x) in
     x\<lparr>itype := get16 d a, imajor := get16 d (a + 2), iminor := get16 d (a + 4), inlink := get16 d (a + 6),
       isize := get32 d (a + 8), iaddrs := (\<lambda>i. if i \<le> NDIRECT then get32 d (a + 12 + 4 * i) else iaddrs x i)\<rparr>)"

definition put_dinode :: "inode \<Rightarrow> carr \<Rightarrow> carr" where
  "put_dinode x d = (let a = dip_at (inum x);
       d = put16 (itype x) a d;
       d = put16 (imajor x) (a + 2) d;
       d = put16 (iminor x) (a + 4) d;
       d = put16 (inlink x) (a + 6) d;
       d = put32 (isize x) (a + 8) d
     in fold (\<lambda>i d. put32 (iaddrs x i) (a + 12 + 4 * i) d) [0..<NDIRECT + 1] d)"

section \<open>Superblock\<close>

definition readsb :: "u32 \<Rightarrow> 'z fsst_scheme \<Rightarrow> 'z fsst_scheme option" where
  "readsb dev s = do {
     (bp, s) \<leftarrow> bread dev 1 s;
     let d = bdata (bufs s bp);
     let s = s\<lparr>sb := \<lparr>sb_magic = get32 d 0, sb_size = get32 d 4, sb_nblocks = get32 d 8, sb_ninodes = get32 d 12,
                sb_nlog = get32 d 16, sb_logstart = get32 d 20, sb_inodestart = get32 d 24, sb_bmapstart = get32 d 28\<rparr>\<rparr>;
     brelse bp s
   }"

section \<open>Blocks\<close>

definition bzero :: "u32 \<Rightarrow> u32 \<Rightarrow> 'z fsst_scheme \<Rightarrow> 'z fsst_scheme option" where
  "bzero dev bno s = do {
     (bp, s) \<leftarrow> bread dev bno s;
     let s = set_data bp (memset 0 0 BSIZE (bdata (bufs s bp))) s;
     s \<leftarrow> log_write bp s;
     brelse bp s
   }"

definition bmap_used :: "carr \<Rightarrow> nat \<Rightarrow> bool" where
  "bmap_used d bi \<longleftrightarrow> d (bi div 8) AND push_bit (bi mod 8) 1 \<noteq> 0"

fun balloc_from :: "u32 \<Rightarrow> nat list \<Rightarrow> 'z fsst_scheme \<Rightarrow> (u32 \<times> 'z fsst_scheme) option" where
  "balloc_from dev [] s = Some (0, s)"
| "balloc_from dev (b # bs) s = do {
     (bp, s) \<leftarrow> bread dev (BBLOCK (of_nat b) (sb s)) s;
     (case find (\<lambda>bi. \<not> bmap_used (bdata (bufs s bp)) bi) [0..<min BPB (unat (sb_size (sb s)) - b)] of
        Some bi \<Rightarrow> do {
          let d = bdata (bufs s bp);
          let s = set_data bp (d(bi div 8 := d (bi div 8) OR push_bit (bi mod 8) 1)) s;
          s \<leftarrow> log_write bp s;
          s \<leftarrow> brelse bp s;
          s \<leftarrow> bzero dev (of_nat (b + bi)) s;
          Some (of_nat (b + bi), s)
        }
      | None \<Rightarrow> do {
          s \<leftarrow> brelse bp s;
          balloc_from dev bs s
        })
   }"

text \<open>\<^verbatim>\<open>for(b = 0; b < sb.size; b += BPB)\<close>\<close>

definition balloc :: "u32 \<Rightarrow> 'z fsst_scheme \<Rightarrow> (u32 \<times> 'z fsst_scheme) option" where
  "balloc dev s = balloc_from dev (map (\<lambda>k. k * BPB) [0..<(unat (sb_size (sb s)) + BPB - 1) div BPB]) s"

definition bfree :: "u32 \<Rightarrow> u32 \<Rightarrow> 'z fsst_scheme \<Rightarrow> 'z fsst_scheme option" where
  "bfree dev b s = do {
     (bp, s) \<leftarrow> bread dev (BBLOCK b (sb s)) s;
     let bi = unat b mod BPB;
     let d = bdata (bufs s bp);
     if \<not> bmap_used d bi then None
     else do {
       let s = set_data bp (d(bi div 8 := d (bi div 8) AND NOT (push_bit (bi mod 8) 1))) s;
       s \<leftarrow> log_write bp s;
       brelse bp s
     }
   }"

section \<open>Inode table\<close>

definition iinit :: "'z fsst_scheme \<Rightarrow> 'z fsst_scheme" where
  "iinit s =
     (let s = s\<lparr>lk := initlock ItableLock ''itable'' (lk s)\<rparr>
      in fold (\<lambda>i s. initsleeplock (InodeSleep i) ''inode'' s) [0..<NINODE] s)"

definition iget :: "u32 \<Rightarrow> u32 \<Rightarrow> 'z fsst_scheme \<Rightarrow> (nat \<times> 'z fsst_scheme) option" where
  "iget dev num s = do {
     s \<leftarrow> acquire ItableLock s;
     (case find (\<lambda>i. iref (inodes s i) > 0 \<and> idev (inodes s i) = dev \<and> inum (inodes s i) = num) [0..<NINODE] of
        Some ip \<Rightarrow> do {
          let s = upd_inode ip (\<lambda>x. x\<lparr>iref := iref x + 1\<rparr>) s;
          s \<leftarrow> release ItableLock s;
          Some (ip, s)
        }
      | None \<Rightarrow>
          (case find (\<lambda>i. iref (inodes s i) = 0) [0..<NINODE] of
             None \<Rightarrow> None
           | Some ip \<Rightarrow> do {
               let s = upd_inode ip (\<lambda>x. x\<lparr>idev := dev, inum := num, iref := 1, ivalid := False\<rparr>) s;
               s \<leftarrow> release ItableLock s;
               Some (ip, s)
             }))
   }"

fun ialloc_from :: "u32 \<Rightarrow> u16 \<Rightarrow> nat list \<Rightarrow> 'z fsst_scheme \<Rightarrow> (nat option \<times> 'z fsst_scheme) option" where
  "ialloc_from dev type [] s = Some (None, s)"
| "ialloc_from dev type (n # ns) s = do {
     (bp, s) \<leftarrow> bread dev (IBLOCK (of_nat n) (sb s)) s;
     let d = bdata (bufs s bp);
     if dip_type (of_nat n) d = 0 then do {
       let d = memset (dip_at (of_nat n)) 0 64 d;
       let s = set_data bp (put16 type (dip_at (of_nat n)) d) s;
       s \<leftarrow> log_write bp s;
       s \<leftarrow> brelse bp s;
       (ip, s) \<leftarrow> iget dev (of_nat n) s;
       Some (Some ip, s)
     } else do {
       s \<leftarrow> brelse bp s;
       ialloc_from dev type ns s
     }
   }"

definition ialloc :: "u32 \<Rightarrow> u16 \<Rightarrow> 'z fsst_scheme \<Rightarrow> (nat option \<times> 'z fsst_scheme) option" where
  "ialloc dev type s = ialloc_from dev type [1..<unat (sb_ninodes (sb s))] s"

definition iupdate :: "nat \<Rightarrow> 'z fsst_scheme \<Rightarrow> 'z fsst_scheme option" where
  "iupdate ip s = do {
     (bp, s) \<leftarrow> bread (idev (inodes s ip)) (IBLOCK (inum (inodes s ip)) (sb s)) s;
     let s = set_data bp (put_dinode (inodes s ip) (bdata (bufs s bp))) s;
     s \<leftarrow> log_write bp s;
     brelse bp s
   }"

definition idup :: "nat \<Rightarrow> 'z fsst_scheme \<Rightarrow> (nat \<times> 'z fsst_scheme) option" where
  "idup ip s = do {
     s \<leftarrow> acquire ItableLock s;
     let s = upd_inode ip (\<lambda>x. x\<lparr>iref := iref x + 1\<rparr>) s;
     s \<leftarrow> release ItableLock s;
     Some (ip, s)
   }"

definition ilock :: "nat \<Rightarrow> 'z fsst_scheme \<Rightarrow> 'z fsst_scheme option" where
  "ilock ip s =
     (if iref (inodes s ip) < 1 then None
      else do {
        s \<leftarrow> acquiresleep (InodeSleep ip) s;
        if \<not> ivalid (inodes s ip) then do {
          (bp, s) \<leftarrow> bread (idev (inodes s ip)) (IBLOCK (inum (inodes s ip)) (sb s)) s;
          let s = upd_inode ip (get_dinode (bdata (bufs s bp))) s;
          s \<leftarrow> brelse bp s;
          let s = upd_inode ip (\<lambda>x. x\<lparr>ivalid := True\<rparr>) s;
          if itype (inodes s ip) = 0 then None else Some s
        } else Some s
      })"

definition iunlock :: "nat \<Rightarrow> 'z fsst_scheme \<Rightarrow> 'z fsst_scheme option" where
  "iunlock ip s = do {
     (h, s) \<leftarrow> holdingsleep (InodeSleep ip) s;
     if \<not> h \<or> iref (inodes s ip) < 1 then None else releasesleep (InodeSleep ip) s
   }"

section \<open>Inode content\<close>

definition bmap :: "nat \<Rightarrow> u32 \<Rightarrow> 'z fsst_scheme \<Rightarrow> (u32 \<times> 'z fsst_scheme) option" where
  "bmap ip bn s =
     (if unat bn < NDIRECT then
        (let addr = iaddrs (inodes s ip) (unat bn)
         in if addr = 0 then do {
              (addr, s) \<leftarrow> balloc (idev (inodes s ip)) s;
              if addr = 0 then Some (0, s)
              else Some (addr, upd_inode ip (\<lambda>x. x\<lparr>iaddrs := (iaddrs x)(unat bn := addr)\<rparr>) s)
            } else Some (addr, s))
      else let bn = unat bn - NDIRECT
      in if bn < NINDIRECT then do {
           let addr = iaddrs (inodes s ip) NDIRECT;
           (addr, s) \<leftarrow> (if addr = 0 then do {
               (addr, s) \<leftarrow> balloc (idev (inodes s ip)) s;
               if addr = 0 then Some (0, s)
               else Some (addr, upd_inode ip (\<lambda>x. x\<lparr>iaddrs := (iaddrs x)(NDIRECT := addr)\<rparr>) s)
             } else Some (addr, s));
           if addr = 0 then Some (0, s)
           else do {
             (bp, s) \<leftarrow> bread (idev (inodes s ip)) addr s;
             let addr = get32 (bdata (bufs s bp)) (4 * bn);
             (addr, s) \<leftarrow> (if addr = 0 then do {
                 (addr, s) \<leftarrow> balloc (idev (inodes s ip)) s;
                 if addr \<noteq> 0 then do {
                   let s = set_data bp (put32 addr (4 * bn) (bdata (bufs s bp))) s;
                   s \<leftarrow> log_write bp s;
                   Some (addr, s)
                 } else Some (addr, s)
               } else Some (addr, s));
             s \<leftarrow> brelse bp s;
             Some (addr, s)
           }
         } else None)"

fun itrunc_direct :: "nat \<Rightarrow> nat list \<Rightarrow> 'z fsst_scheme \<Rightarrow> 'z fsst_scheme option" where
  "itrunc_direct ip [] s = Some s"
| "itrunc_direct ip (i # is) s =
     (if iaddrs (inodes s ip) i \<noteq> 0 then do {
        s \<leftarrow> bfree (idev (inodes s ip)) (iaddrs (inodes s ip) i) s;
        let s = upd_inode ip (\<lambda>x. x\<lparr>iaddrs := (iaddrs x)(i := 0)\<rparr>) s;
        itrunc_direct ip is s
      } else itrunc_direct ip is s)"

fun itrunc_indirect :: "nat \<Rightarrow> nat \<Rightarrow> nat list \<Rightarrow> 'z fsst_scheme \<Rightarrow> 'z fsst_scheme option" where
  "itrunc_indirect ip bp [] s = Some s"
| "itrunc_indirect ip bp (j # js) s =
     (let a = get32 (bdata (bufs s bp)) (4 * j)
      in if a \<noteq> 0 then do {
           s \<leftarrow> bfree (idev (inodes s ip)) a s;
           itrunc_indirect ip bp js s
         } else itrunc_indirect ip bp js s)"

definition itrunc :: "nat \<Rightarrow> 'z fsst_scheme \<Rightarrow> 'z fsst_scheme option" where
  "itrunc ip s = do {
     s \<leftarrow> itrunc_direct ip [0..<NDIRECT] s;
     s \<leftarrow> (if iaddrs (inodes s ip) NDIRECT \<noteq> 0 then do {
         (bp, s) \<leftarrow> bread (idev (inodes s ip)) (iaddrs (inodes s ip) NDIRECT) s;
         s \<leftarrow> itrunc_indirect ip bp [0..<NINDIRECT] s;
         s \<leftarrow> brelse bp s;
         s \<leftarrow> bfree (idev (inodes s ip)) (iaddrs (inodes s ip) NDIRECT) s;
         Some (upd_inode ip (\<lambda>x. x\<lparr>iaddrs := (iaddrs x)(NDIRECT := 0)\<rparr>) s)
       } else Some s);
     let s = upd_inode ip (\<lambda>x. x\<lparr>isize := 0\<rparr>) s;
     iupdate ip s
   }"

definition iput :: "nat \<Rightarrow> 'z fsst_scheme \<Rightarrow> 'z fsst_scheme option" where
  "iput ip s = do {
     s \<leftarrow> acquire ItableLock s;
     s \<leftarrow> (if iref (inodes s ip) = 1 \<and> ivalid (inodes s ip) \<and> inlink (inodes s ip) = 0 then do {
         s \<leftarrow> acquiresleep (InodeSleep ip) s;
         s \<leftarrow> release ItableLock s;
         s \<leftarrow> itrunc ip s;
         let s = upd_inode ip (\<lambda>x. x\<lparr>itype := 0\<rparr>) s;
         s \<leftarrow> iupdate ip s;
         let s = upd_inode ip (\<lambda>x. x\<lparr>ivalid := False\<rparr>) s;
         s \<leftarrow> releasesleep (InodeSleep ip) s;
         acquire ItableLock s
       } else Some s);
     let s = upd_inode ip (\<lambda>x. x\<lparr>iref := iref x - 1\<rparr>) s;
     release ItableLock s
   }"

definition iunlockput :: "nat \<Rightarrow> 'z fsst_scheme \<Rightarrow> 'z fsst_scheme option" where
  "iunlockput ip s = do {
     s \<leftarrow> iunlock ip s;
     iput ip s
   }"

fun ireclaim_from :: "u32 \<Rightarrow> nat list \<Rightarrow> 'z fsst_scheme \<Rightarrow> 'z fsst_scheme option" where
  "ireclaim_from dev [] s = Some s"
| "ireclaim_from dev (n # ns) s = do {
     (bp, s) \<leftarrow> bread dev (IBLOCK (of_nat n) (sb s)) s;
     let d = bdata (bufs s bp);
     (ip, s) \<leftarrow> (if dip_type (of_nat n) d \<noteq> 0 \<and> dip_nlink (of_nat n) d = 0 then do {
         (ip, s) \<leftarrow> iget dev (of_nat n) s;
         Some (Some ip, s)
       } else Some (None, s));
     s \<leftarrow> brelse bp s;
     s \<leftarrow> (case ip of
         None \<Rightarrow> Some s
       | Some ip \<Rightarrow> do {
           s \<leftarrow> begin_op s;
           s \<leftarrow> ilock ip s;
           s \<leftarrow> iunlock ip s;
           s \<leftarrow> iput ip s;
           end_op s
         });
     ireclaim_from dev ns s
   }"

definition ireclaim :: "u32 \<Rightarrow> 'z fsst_scheme \<Rightarrow> 'z fsst_scheme option" where
  "ireclaim dev s = ireclaim_from dev [1..<unat (sb_ninodes (sb s))] s"

definition fsinit :: "u32 \<Rightarrow> 'z fsst_scheme \<Rightarrow> 'z fsst_scheme option" where
  "fsinit dev s = do {
     s \<leftarrow> readsb dev s;
     if sb_magic (sb s) \<noteq> FSMAGIC then None
     else do {
       s \<leftarrow> initlog dev (sb_logstart (sb s)) s;
       ireclaim dev s
     }
   }"

record stat =
  st_dev :: int
  st_ino :: u32
  st_type :: u16
  st_nlink :: u16
  st_size :: u64

definition stati :: "nat \<Rightarrow> 'z fsst_scheme \<Rightarrow> stat" where
  "stati ip s = \<lparr>st_dev = sint (idev (inodes s ip)), st_ino = inum (inodes s ip), st_type = itype (inodes s ip),
     st_nlink = inlink (inodes s ip), st_size = ucast (isize (inodes s ip))\<rparr>"

section \<open>Reading and writing\<close>

text \<open>
  \<open>chunk\<close> is the number of bytes one iteration handles, \<^verbatim>\<open>min(n - tot, BSIZE - off%BSIZE)\<close>.
  \<open>readi\<close> also returns the bytes it copied, which is what a caller with a kernel object as
  destination finds there. In \<open>writei\<close> the bytes copied in before a failing copy stay in the
  buffer, although that block is not logged.
\<close>

definition chunk :: "u32 \<Rightarrow> u32 \<Rightarrow> u32 \<Rightarrow> u32" where
  "chunk n tot off = min (n - tot) (of_nat BSIZE - off mod of_nat BSIZE)"

lemma chunk_unat:
  assumes "tot < n"
  shows "unat (chunk n tot off) = min (unat n - unat tot) (1024 - unat off mod 1024)" and "0 < unat (chunk n tot off)"
proof -
  have "unat (n - tot) = unat n - unat tot" using assms by (simp add: unat_sub)
  moreover have "unat (1024 - off mod 1024) = 1024 - unat off mod 1024"
    using unat_sub[of "off mod 1024" 1024] by (simp add: unat_mod word_le_nat_alt)
  moreover have "unat (min a b) = min (unat a) (unat b)" for a b :: u32
    by (simp add: min_def word_le_nat_alt)
  ultimately show eq: "unat (chunk n tot off) = min (unat n - unat tot) (1024 - unat off mod 1024)"
    by (simp add: chunk_def BSIZE_def)
  have "unat tot < unat n" using assms by (simp add: word_less_nat_alt)
  moreover have "unat off mod 1024 < 1024" by simp
  ultimately show "0 < unat (chunk n tot off)" unfolding eq by linarith
qed

lemma chunk_tot:
  assumes "tot < n"
  shows "unat (tot + chunk n tot off) = unat tot + unat (chunk n tot off)" "unat tot + unat (chunk n tot off) \<le> unat n"
proof -
  have lt: "unat tot < unat n" using assms by (simp add: word_less_nat_alt)
  then show le: "unat tot + unat (chunk n tot off) \<le> unat n" unfolding chunk_unat(1)[OF assms] by linarith
  then show "unat (tot + chunk n tot off) = unat tot + unat (chunk n tot off)"
    using le_less_trans[OF le unat_lt_32[of n]] by (simp add: unat_word_ariths)
qed

function readi_loop ::
  "nat \<Rightarrow> cdst \<Rightarrow> u32 \<Rightarrow> u32 \<Rightarrow> u32 \<Rightarrow> 'z fsst_scheme \<Rightarrow> (u32 \<times> u8 list \<times> 'z fsst_scheme) option" where
  "readi_loop ip dst off n tot s =
     (if tot < n then do {
        (addr, s) \<leftarrow> bmap ip (off div of_nat BSIZE) s;
        if addr = 0 then Some (tot, [], s)
        else do {
          (bp, s) \<leftarrow> bread (idev (inodes s ip)) addr s;
          let m = chunk n tot off;
          let bs = mem_get (bdata (bufs s bp)) (unat (off mod of_nat BSIZE)) (unat m);
          (r, s) \<leftarrow> either_copyout dst bs s;
          if r = -1 then do {
            s \<leftarrow> brelse bp s;
            Some (-1, [], s)
          } else do {
            s \<leftarrow> brelse bp s;
            (tot, rest, s) \<leftarrow> readi_loop ip (cdst_add dst (unat m)) (off + m) n (tot + m) s;
            Some (tot, bs @ rest, s)
          }
        }
      } else Some (tot, [], s))"
  by pat_completeness auto
termination
  by (relation "measure (\<lambda>(ip, dst, off, n, tot, s). unat n - unat tot)")
    (use chunk_tot chunk_unat(2) in \<open>auto simp: word_less_nat_alt diff_less_mono2\<close>)

declare readi_loop.simps [simp del]

definition readi :: "nat \<Rightarrow> cdst \<Rightarrow> u32 \<Rightarrow> u32 \<Rightarrow> 'z fsst_scheme \<Rightarrow> (int \<times> u8 list \<times> 'z fsst_scheme) option" where
  "readi ip dst off n s =
     (if off > isize (inodes s ip) \<or> off + n < off then Some (0, [], s)
      else let n = (if off + n > isize (inodes s ip) then isize (inodes s ip) - off else n)
           in do {
             (tot, bs, s) \<leftarrow> readi_loop ip dst off n 0 s;
             Some (sint tot, bs, s)
           })"

function writei_loop ::
  "nat \<Rightarrow> csrc \<Rightarrow> u32 \<Rightarrow> u32 \<Rightarrow> u32 \<Rightarrow> 'z fsst_scheme \<Rightarrow> (u32 \<times> u32 \<times> 'z fsst_scheme) option" where
  "writei_loop ip src off n tot s =
     (if tot < n then do {
        (addr, s) \<leftarrow> bmap ip (off div of_nat BSIZE) s;
        if addr = 0 then Some (tot, off, s)
        else do {
          (bp, s) \<leftarrow> bread (idev (inodes s ip)) addr s;
          let m = chunk n tot off;
          (r, bs, s) \<leftarrow> either_copyin src (unat m) s;
          let s = set_data bp (mem_put (unat (off mod of_nat BSIZE)) bs (bdata (bufs s bp))) s;
          if r = -1 then do {
            s \<leftarrow> brelse bp s;
            Some (tot, off, s)
          } else do {
            s \<leftarrow> log_write bp s;
            s \<leftarrow> brelse bp s;
            writei_loop ip (csrc_add src (unat m)) (off + m) n (tot + m) s
          }
        }
      } else Some (tot, off, s))"
  by pat_completeness auto
termination
  by (relation "measure (\<lambda>(ip, src, off, n, tot, s). unat n - unat tot)")
    (use chunk_tot chunk_unat(2) in \<open>auto simp: word_less_nat_alt diff_less_mono2\<close>)

declare writei_loop.simps [simp del]

definition writei :: "nat \<Rightarrow> csrc \<Rightarrow> u32 \<Rightarrow> u32 \<Rightarrow> 'z fsst_scheme \<Rightarrow> (int \<times> 'z fsst_scheme) option" where
  "writei ip src off n s =
     (if off > isize (inodes s ip) \<or> off + n < off then Some (-1, s)
      else if unat (off + n) > MAXFILE * BSIZE then Some (-1, s)
      else do {
        (tot, off, s) \<leftarrow> writei_loop ip src off n 0 s;
        let s = (if off > isize (inodes s ip) then upd_inode ip (\<lambda>x. x\<lparr>isize := off\<rparr>) s else s);
        s \<leftarrow> iupdate ip s;
        Some (sint tot, s)
      })"

section \<open>Directories\<close>

definition namecmp :: "carr \<Rightarrow> carr \<Rightarrow> int" where
  "namecmp p q = strncmp p q DIRSIZ"

text \<open>A directory entry as the sixteen bytes of a \<^verbatim>\<open>struct dirent\<close>.\<close>

definition de_inum :: "u8 list \<Rightarrow> u16" where
  "de_inum de = get16 (\<lambda>i. de ! i) 0"

definition de_name :: "u8 list \<Rightarrow> carr" where
  "de_name de = (\<lambda>i. de ! (2 + i))"

definition mk_dirent :: "u16 \<Rightarrow> carr \<Rightarrow> u8 list" where
  "mk_dirent n name = map (put16 n 0 (\<lambda>_. 0)) [0, 1] @ map (strncpy (\<lambda>_. 0) name (int DIRSIZ)) [0..<DIRSIZ]"

partial_function (option) dirlookup_from ::
  "nat \<Rightarrow> carr \<Rightarrow> u32 \<Rightarrow> 'z fsst_scheme \<Rightarrow> ((nat \<times> u32) option \<times> 'z fsst_scheme) option" where
  "dirlookup_from dp name off s =
     (if off < isize (inodes s dp) then do {
        (r, de, s) \<leftarrow> readi dp KernObj off 16 s;
        if r \<noteq> 16 then None
        else if de_inum de = 0 then dirlookup_from dp name (off + 16) s
        else if namecmp name (de_name de) = 0 then do {
          (ip, s) \<leftarrow> iget (idev (inodes s dp)) (ucast (de_inum de)) s;
          Some (Some (ip, off), s)
        } else dirlookup_from dp name (off + 16) s
      } else Some (None, s))"

text \<open>The result pairs the inode with the value stored through \<^verbatim>\<open>poff\<close>.\<close>

definition dirlookup :: "nat \<Rightarrow> carr \<Rightarrow> 'z fsst_scheme \<Rightarrow> ((nat \<times> u32) option \<times> 'z fsst_scheme) option" where
  "dirlookup dp name s =
     (if itype (inodes s dp) \<noteq> T_DIR then None else dirlookup_from dp name 0 s)"

partial_function (option) dirlink_slot :: "nat \<Rightarrow> u32 \<Rightarrow> 'z fsst_scheme \<Rightarrow> (u32 \<times> 'z fsst_scheme) option" where
  "dirlink_slot dp off s =
     (if off < isize (inodes s dp) then do {
        (r, de, s) \<leftarrow> readi dp KernObj off 16 s;
        if r \<noteq> 16 then None
        else if de_inum de = 0 then Some (off, s)
        else dirlink_slot dp (off + 16) s
      } else Some (off, s))"

definition dirlink :: "nat \<Rightarrow> carr \<Rightarrow> u32 \<Rightarrow> 'z fsst_scheme \<Rightarrow> (int \<times> 'z fsst_scheme) option" where
  "dirlink dp name num s = do {
     (e, s) \<leftarrow> dirlookup dp name s;
     (case e of
        Some (ip, _) \<Rightarrow> do {
          s \<leftarrow> iput ip s;
          Some (-1, s)
        }
      | None \<Rightarrow> do {
          (off, s) \<leftarrow> dirlink_slot dp 0 s;
          (r, s) \<leftarrow> writei dp (KernSrc (mk_dirent (ucast num) name)) off 16 s;
          Some (if r \<noteq> 16 then -1 else 0, s)
        })
   }"

section \<open>Paths\<close>

text \<open>
  A path pointer is a position in the byte array of the path. The scans stop at the NUL, so on
  an array that has none they do not return.
\<close>

partial_function (option) skip_while :: "(u8 \<Rightarrow> bool) \<Rightarrow> carr \<Rightarrow> nat \<Rightarrow> nat option" where
  "skip_while P path i = (if P (path i) then skip_while P path (i + 1) else Some i)"

definition slash :: u8 where "slash = 47"

definition skipelem :: "carr \<Rightarrow> nat \<Rightarrow> carr \<Rightarrow> (nat option \<times> carr) option" where
  "skipelem path i name = do {
     i \<leftarrow> skip_while (\<lambda>c. c = slash) path i;
     if path i = 0 then Some (None, name)
     else do {
       let s = i;
       i \<leftarrow> skip_while (\<lambda>c. c \<noteq> slash \<and> c \<noteq> 0) path i;
       let len = i - s;
       let name = (if len \<ge> DIRSIZ then (\<lambda>k. if k < DIRSIZ then path (s + k) else name k)
                   else (\<lambda>k. if k < len then path (s + k) else name k)(len := 0));
       i \<leftarrow> skip_while (\<lambda>c. c = slash) path i;
       Some (Some i, name)
     }
   }"

partial_function (option) namex_loop ::
  "carr \<Rightarrow> bool \<Rightarrow> nat \<Rightarrow> carr \<Rightarrow> nat \<Rightarrow> 'z fsst_scheme \<Rightarrow> (nat option \<times> carr \<times> 'z fsst_scheme) option" where
  "namex_loop path par i name ip s = do {
     (e, name) \<leftarrow> skipelem path i name;
     (case e of
        Some i \<Rightarrow> do {
          s \<leftarrow> ilock ip s;
          if itype (inodes s ip) \<noteq> T_DIR then do {
            s \<leftarrow> iunlockput ip s;
            Some (None, name, s)
          } else if par \<and> path i = 0 then do {
            s \<leftarrow> iunlock ip s;
            Some (Some ip, name, s)
          } else do {
            (next, s) \<leftarrow> dirlookup ip name s;
            s \<leftarrow> iunlockput ip s;
            (case next of
               None \<Rightarrow> Some (None, name, s)
             | Some (nip, _) \<Rightarrow> namex_loop path par i name nip s)
          }
        }
      | None \<Rightarrow>
          if par then do {
            s \<leftarrow> iput ip s;
            Some (None, name, s)
          } else Some (Some ip, name, s))
   }"

definition namex :: "carr \<Rightarrow> bool \<Rightarrow> carr \<Rightarrow> 'z fsst_scheme \<Rightarrow> (nat option \<times> carr \<times> 'z fsst_scheme) option" where
  "namex path par name s = do {
     (ip, s) \<leftarrow> (if path 0 = slash then iget rootdev ROOTINO s
                 else do {
                   (me, s) \<leftarrow> myproc s;
                   p \<leftarrow> me;
                   ip \<leftarrow> cwd (procs s p);
                   idup ip s
                 });
     namex_loop path par 0 name ip s
   }"

definition namei :: "carr \<Rightarrow> 'z fsst_scheme \<Rightarrow> (nat option \<times> 'z fsst_scheme) option" where
  "namei path s = do {
     (ip, name, s) \<leftarrow> namex path False (\<lambda>_. 0) s;
     Some (ip, s)
   }"

definition nameiparent :: "carr \<Rightarrow> carr \<Rightarrow> 'z fsst_scheme \<Rightarrow> (nat option \<times> carr \<times> 'z fsst_scheme) option" where
  "nameiparent path name s = namex path True name s"

end
