(* ===== verification/LogFacts.thy ===== *)
theory LogFacts
  imports Log
begin

text \<open>
  What the log does to the disk. \<open>rinv\<close> is the cache invariant together with the reference
  counts while a transaction's blocks are pinned; the steps below say what one read, one
  release and one unpin do under it. They give the sequence of disk writes of
  \<^verbatim>\<open>commit\<close> and the disk \<^verbatim>\<open>recover_from_log\<close> leaves, and from these the crash atomicity of
  a transaction.
\<close>

section \<open>Reading and releasing with pinned blocks\<close>

definition refc :: "nat set \<Rightarrow> nat \<Rightarrow> u32" where
  "refc A b = (if b \<in> A then 1 else 0)"

definition rinv :: "nat \<Rightarrow> nat set \<Rightarrow> nat set \<Rightarrow> 'z bio_scheme \<Rightarrow> bool" where
  "rinv p PB H s \<longleftrightarrow> bio_inv p H s \<and> PB \<subseteq> {..<NBUF} \<and> card PB + 2 \<le> NBUF
     \<and> (\<forall>b<NBUF. brefcnt (bufs s b) = refc PB b + refc H b)"

definition same_ids :: "nat set \<Rightarrow> 'z bio_scheme \<Rightarrow> 'z bio_scheme \<Rightarrow> bool" where
  "same_ids PB s s' \<longleftrightarrow> (\<forall>b\<in>PB. bdev (bufs s' b) = bdev (bufs s b) \<and> bblockno (bufs s' b) = bblockno (bufs s b))"

lemma same_ids_refl [simp]: "same_ids PB s s"
  by (simp add: same_ids_def)

lemma same_ids_trans: "same_ids PB s t \<Longrightarrow> same_ids PB t u \<Longrightarrow> same_ids PB s u"
  by (simp add: same_ids_def)

lemma rinvD:
  assumes "rinv p PB H s"
  shows "bio_inv p H s" "PB \<subseteq> {..<NBUF}" "card PB + 2 \<le> NBUF"
    "b < NBUF \<Longrightarrow> brefcnt (bufs s b) = refc PB b + refc H b"
  using assms by (simp_all add: rinv_def)

lemma rinv_free_buf:
  assumes "rinv p PB H s" and "card H \<le> 1"
  shows "\<exists>b<NBUF. brefcnt (bufs s b) = 0"
proof -
  have fin: "finite PB" "finite H"
    using rinvD(2)[OF assms(1)] bio_invD(4)[OF rinvD(1)[OF assms(1)]] finite_subset by blast+
  have "card (PB \<union> H) < card {..<NBUF}"
    using card_Un_le[of PB H] assms(2) rinvD(3)[OF assms(1)] by simp
  then have "\<not> {..<NBUF} \<subseteq> PB \<union> H" using fin card_mono[of "PB \<union> H" "{..<NBUF}"] by auto
  then obtain b where "b < NBUF" "b \<notin> PB" "b \<notin> H" by auto
  then show ?thesis using rinvD(4)[OF assms(1)] by (auto simp: refc_def)
qed

lemma bread_step:
  assumes r: "rinv p PB H s" and "card H \<le> 1" and n: "\<And>b. b \<in> H \<Longrightarrow> bblockno (bufs s b) \<noteq> n"
  obtains b where "b \<notin> H" "b < NBUF" "bread rootdev n s = Some (b, breads p rootdev n b (refc PB b + 1) s)"
    "rinv p PB (insert b H) (breads p rootdev n b (refc PB b + 1) s)"
    "cached rootdev (breads p rootdev n b (refc PB b + 1) s) = cached rootdev s"
    "b \<notin> PB \<Longrightarrow> cached rootdev s n = disk s (unat n)"
    "b \<in> PB \<Longrightarrow> bmatch rootdev n s b"
proof -
  note inv = rinvD(1)[OF r]
  obtain b0 where b0: "b0 < NBUF" "brefcnt (bufs s b0) = 0" using rinv_free_buf[OF r assms(2)] by blast
  have "\<not> bmatch rootdev n s b" if "b \<in> H" for b using n[OF that] by (simp add: bmatch_def)
  then obtain b rc where b: "picks rootdev n s b rc" "b \<notin> H" "bread rootdev n s = Some (b, breads p rootdev n b rc s)"
    using bread_total[OF inv rootdev_neq_0 _ b0] by blast
  have bN: "b < NBUF" using b(1) by (simp add: picks_def)
  have cnt: "brefcnt (bufs s b) = refc PB b" using rinvD(4)[OF r bN] b(2) by (simp add: refc_def)
  have rc: "rc = refc PB b + 1" using b(1) cnt by (auto simp: picks_def split: if_splits)
  then have rc0: "rc \<noteq> 0" by (simp add: refc_def)
  let ?s' = "breads p rootdev n b rc s"
  have inv': "bio_inv p (insert b H) ?s'" by (rule breads_inv[OF inv refl b(1) rc0 b(2)])
  have "rinv p PB (insert b H) ?s'"
    unfolding rinv_def using inv' rinvD(2,3)[OF r] rinvD(4)[OF r] rc by (auto simp: refc_def)
  moreover have "cached rootdev ?s' = cached rootdev s"
    by (rule ext) (rule breads_cached[OF inv refl b(1) rc0 b(2)])
  moreover have "cached rootdev s n = disk s (unat n)" if "b \<notin> PB"
  proof (cases "bmatch rootdev n s b")
    case True
    then show ?thesis
      using cached_match[OF inv rootdev_neq_0 bN True] bio_invD(6)[OF inv bN] cnt that
      by (simp add: refc_def bmatch_def)
  next
    case False
    then show ?thesis using b(1) cached_nomatch[OF inv] by (simp add: picks_def)
  qed
  moreover have "bmatch rootdev n s b" if "b \<in> PB"
    using b(1) cnt that by (auto simp: picks_def refc_def split: if_splits)
  ultimately show thesis using that[of b] b(2,3) bN rc by blast
qed

lemma brelse_step:
  assumes r: "rinv p PB H s" and b: "b \<in> H"
    and clean: "b \<notin> PB \<Longrightarrow> bdata (bufs s b) = disk s (unat (bblockno (bufs s b)))"
  shows "brelse b s = Some (brelses p b s)" "rinv p PB (H - {b}) (brelses p b s)"
    "cached rootdev (brelses p b s) = cached rootdev s"
proof -
  note inv = rinvD(1)[OF r]
  have bN: "b < NBUF" by (rule held_match(1)[OF inv b])
  have cnt: "brefcnt (bufs s b) = refc PB b + 1" using rinvD(4)[OF r bN] b by (simp add: refc_def)
  then have c: "brefcnt (bufs s b) = 1 \<Longrightarrow> bdata (bufs s b) = disk s (unat (bblockno (bufs s b)))"
    using clean by (auto simp: refc_def split: if_splits)
  show "brelse b s = Some (brelses p b s)" by (rule brelse_held[OF inv b])
  show "cached rootdev (brelses p b s) = cached rootdev s" by (rule brelses_cached[OF inv b c])
  have "bio_inv p (H - {b}) (brelses p b s)" by (rule brelses_inv[OF inv b c])
  then show "rinv p PB (H - {b}) (brelses p b s)"
    unfolding rinv_def using rinvD(2,3)[OF r] rinvD(4)[OF r] cnt by (auto simp: refc_def)
qed

lemma set_data_step:
  assumes r: "rinv p PB H s" and b: "b \<in> H"
  shows "rinv p PB H (set_data b x s)"
    "cached rootdev (set_data b x s) = (cached rootdev s)(bblockno (bufs s b) := x)"
  using set_data_inv[OF rinvD(1)[OF r] b] set_data_cached[OF rinvD(1)[OF r] b] r
  by (auto simp: rinv_def)

lemma bwrite_step:
  assumes r: "rinv p PB H s" and b: "b \<in> H"
  shows "bwrite b s = Some (bwrites b s)" "rinv p PB H (bwrites b s)"
    "cached rootdev (bwrites b s) = cached rootdev s"
  using bwrite_held[OF rinvD(1)[OF r] b] bwrites_inv[OF rinvD(1)[OF r] b]
    bwrites_cached[OF rinvD(1)[OF r] b] r by (auto simp: rinv_def)

definition bunpins :: "nat \<Rightarrow> 'z bio_scheme \<Rightarrow> 'z bio_scheme" where
  "bunpins b s = upd_buf b (\<lambda>x. x\<lparr>brefcnt := brefcnt x - 1\<rparr>) (s\<lparr>lk := settle (lk s)\<rparr>)"

lemma bunpin_step:
  assumes r: "rinv p PB H s" and b: "b \<in> H" "b \<in> PB"
  shows "bunpin b s = Some (bunpins b s)" "rinv p (PB - {b}) H (bunpins b s)"
    "cached rootdev (bunpins b s) = cached rootdev s"
proof -
  note inv = rinvD(1)[OF r]
  have bN: "b < NBUF" by (rule held_match(1)[OF inv b(1)])
  have cnt: "brefcnt (bufs s b) = 2" using rinvD(4)[OF r bN] b by (simp add: refc_def)
  show "bunpin b s = Some (bunpins b s)"
    using quietD[OF bio_invD(1)[OF inv]] by (simp add: bunpin_def bunpins_def lock_simps Let_def)
  have inv': "bio_inv p H (bunpins b s)"
    using bio_invD(1,2,3,4)[OF inv] bio_invD(7,8)[OF inv] held_match[OF inv b(1)] uniq_held[OF inv b(1)] b cnt
    by (intro bio_inv_change[OF inv bN]) (auto simp: quiet_def bunpins_def)
  have "finite PB" using rinvD(2)[OF r] finite_subset by blast
  then have "card (PB - {b}) + 2 \<le> NBUF" using rinvD(3)[OF r] card_Diff1_le[of PB b] by linarith
  then show "rinv p (PB - {b}) H (bunpins b s)"
    unfolding rinv_def using inv' rinvD(2)[OF r] rinvD(4)[OF r] cnt b
    by (auto simp: refc_def bunpins_def)
  show "cached rootdev (bunpins b s) = cached rootdev s"
  proof
    fix m
    have "bmatch rootdev m (bunpins b s) = bmatch rootdev m s"
      by (auto simp: fun_eq_iff bmatch_def bunpins_def)
    then show "cached rootdev (bunpins b s) m = cached rootdev s m"
      unfolding cached_def by (auto simp: bunpins_def split: option.split)
  qed
qed

section \<open>Copying one block\<close>

text \<open>
  \<open>wrote p PB V s s'\<close>: the only change to the file system is that the blocks of the list
  \<open>V\<close> were written in its order, in the cache and on the disk. \<open>PB\<close> are the buffers
  still pinned.
\<close>

definition wr_all :: "('k \<times> carr) list \<Rightarrow> ('k \<Rightarrow> carr) \<Rightarrow> 'k \<Rightarrow> carr" where
  "wr_all W d = fold (\<lambda>(n, x) d. d(n := x)) W d"

definition on_disk :: "(u32 \<times> carr) list \<Rightarrow> (nat \<times> carr) list" where
  "on_disk V = map (\<lambda>(n, x). (unat n, x)) V"

definition wrote :: "nat \<Rightarrow> nat set \<Rightarrow> (u32 \<times> carr) list \<Rightarrow> 'z bio_scheme \<Rightarrow> 'z bio_scheme \<Rightarrow> bool" where
  "wrote p PB V s s' \<longleftrightarrow> rinv p PB {} s' \<and> cached rootdev s' = wr_all V (cached rootdev s)
     \<and> disk s' = wr_all (on_disk V) (disk s) \<and> wtrace s' = rev (on_disk V) @ wtrace s
     \<and> bio.more s' = bio.more s \<and> same_ids PB s s'"

lemma wr_all_simps [simp]: "wr_all [] d = d" "wr_all ((n, x) # W) d = wr_all W (d(n := x))"
  "wr_all (V @ W) d = wr_all W (wr_all V d)"
  by (simp_all add: wr_all_def)

lemma on_disk_simps [simp]: "on_disk [] = []" "on_disk ((n, x) # V) = (unat n, x) # on_disk V"
  "on_disk (V @ W) = on_disk V @ on_disk W"
  by (simp_all add: on_disk_def)

lemma wr_all_notin: "m \<notin> fst ` set W \<Longrightarrow> wr_all W d m = d m"
  by (induction W arbitrary: d) auto

lemma wr_all_value:
  "(\<And>x. (m, x) \<in> set W \<Longrightarrow> x = y) \<Longrightarrow> m \<in> fst ` set W \<or> d m = y \<Longrightarrow> wr_all W d m = y"
proof (induction W arbitrary: d)
  case (Cons w W)
  obtain k x where w: "w = (k, x)" by fastforce
  have "m \<in> fst ` set W \<or> (d(k := x)) m = y" using Cons.prems w by auto
  then have "wr_all W (d(k := x)) m = y" using Cons.prems(1) by (intro Cons.IH) auto
  then show ?case using w by simp
qed simp

lemma wroteD:
  assumes "wrote p PB V s s'"
  shows "rinv p PB {} s'" "cached rootdev s' = wr_all V (cached rootdev s)"
    "disk s' = wr_all (on_disk V) (disk s)" "wtrace s' = rev (on_disk V) @ wtrace s"
    "bio.more s' = bio.more s" "same_ids PB s s'"
  using assms by (simp_all add: wrote_def)

lemma wrote_refl: "rinv p PB {} s \<Longrightarrow> wrote p PB [] s s"
  by (simp add: wrote_def)

lemma wrote_trans:
  assumes "wrote p PB V s t" and "wrote p PB' W t u" and "PB' \<subseteq> PB"
  shows "wrote p PB' (V @ W) s u"
  using assms by (auto simp: wrote_def same_ids_def)

lemma log_breads [simp]:
  "log_start (breads p d n b rc s) = log_start s" "log_dev (breads p d n b rc s) = log_dev s"
  "lh_n (breads p d n b rc s) = lh_n s" "lh_block (breads p d n b rc s) = lh_block s"
  by (simp_all add: breads_def upd_sl_def upd_buf_def)

lemma log_more:
  assumes "bio.more s' = bio.more s"
  shows "log_start s' = log_start s" "log_dev s' = log_dev s" "lh_n s' = lh_n s" "lh_block s' = lh_block s"
    "log_outstanding s' = log_outstanding s" "log_committing s' = log_committing s" "logst.more s' = logst.more s"
  using assms by (cases s; cases s'; simp)+

lemma bunpins_simps [simp]:
  "bufs (bunpins b s) = (bufs s)(b := (bufs s b)\<lparr>brefcnt := brefcnt (bufs s b) - 1\<rparr>)"
  "disk (bunpins b s) = disk s" "wtrace (bunpins b s) = wtrace s" "bio.more (bunpins b s) = bio.more s"
  by (simp_all add: bunpins_def)

lemma read_pair:
  assumes r: "rinv p PB {} s" and ne: "m \<noteq> n"
  obtains a b t where
    "bread rootdev m s = Some (a, breads p rootdev m a (refc PB a + 1) s)"
    "bread rootdev n (breads p rootdev m a (refc PB a + 1) s) = Some (b, t)"
    "a \<noteq> b" "rinv p PB {a, b} t" "cached rootdev t = cached rootdev s" "disk t = disk s"
    "wtrace t = wtrace s" "bio.more t = bio.more s" "same_ids PB s t"
    "bblockno (bufs t a) = m" "bdata (bufs t a) = cached rootdev s m"
    "bblockno (bufs t b) = n" "bdata (bufs t b) = cached rootdev s n"
    "a \<notin> PB \<Longrightarrow> cached rootdev s m = disk s (unat m)" "b \<notin> PB \<Longrightarrow> cached rootdev s n = disk s (unat n)"
    "b \<in> PB \<Longrightarrow> bmatch rootdev n s b"
proof -
  obtain a where a: "a < NBUF" "bread rootdev m s = Some (a, breads p rootdev m a (refc PB a + 1) s)"
    "rinv p PB {a} (breads p rootdev m a (refc PB a + 1) s)"
    "cached rootdev (breads p rootdev m a (refc PB a + 1) s) = cached rootdev s"
    "a \<notin> PB \<Longrightarrow> cached rootdev s m = disk s (unat m)" "a \<in> PB \<Longrightarrow> bmatch rootdev m s a"
    by (rule bread_step[OF r, of m]) auto
  let ?u = "breads p rootdev m a (refc PB a + 1) s"
  obtain b where b: "b \<notin> {a}" "b < NBUF" "bread rootdev n ?u = Some (b, breads p rootdev n b (refc PB b + 1) ?u)"
    "rinv p PB (insert b {a}) (breads p rootdev n b (refc PB b + 1) ?u)"
    "cached rootdev (breads p rootdev n b (refc PB b + 1) ?u) = cached rootdev ?u"
    "b \<notin> PB \<Longrightarrow> cached rootdev ?u n = disk ?u (unat n)" "b \<in> PB \<Longrightarrow> bmatch rootdev n ?u b"
  proof (rule bread_step[OF a(3), of n])
    show "bblockno (bufs ?u c) \<noteq> n" if "c \<in> {a}" for c using that ne by simp
  qed (simp, rule that)
  let ?t = "breads p rootdev n b (refc PB b + 1) ?u"
  have mb: "bmatch rootdev n s b" if "b \<in> PB" using b(1,7) that by (simp add: bmatch_def)
  have "same_ids PB s ?t"
    using a(6) mb b(1) by (auto simp: same_ids_def bmatch_def)
  then show thesis
    using that[OF a(2) b(3)] b(1,4,5,6) a(4,5) mb by (auto simp: insert_commute)
qed

lemma copy_block:
  assumes r: "rinv p PB {} s" and ne: "t \<noteq> f"
  shows "\<exists>a rc s'. bread rootdev t s = Some (a, breads p rootdev t a rc s) \<and> do {
      (b, s) \<leftarrow> bread rootdev f (breads p rootdev t a rc s);
      let s = bcopy a b s;
      s \<leftarrow> bwrite a s;
      s \<leftarrow> brelse b s;
      brelse a s } = Some s' \<and> wrote p PB [(t, cached rootdev s f)] s s'"
proof -
  let ?x = "cached rootdev s f"
  obtain a b u where u: "bread rootdev t s = Some (a, breads p rootdev t a (refc PB a + 1) s)"
    "bread rootdev f (breads p rootdev t a (refc PB a + 1) s) = Some (b, u)"
    "a \<noteq> b" "rinv p PB {a, b} u" "cached rootdev u = cached rootdev s" "disk u = disk s"
    "wtrace u = wtrace s" "bio.more u = bio.more s" "same_ids PB s u"
    "bblockno (bufs u a) = t" "bdata (bufs u a) = cached rootdev s t"
    "bblockno (bufs u b) = f" "bdata (bufs u b) = ?x"
    "a \<notin> PB \<Longrightarrow> cached rootdev s t = disk s (unat t)" "b \<notin> PB \<Longrightarrow> ?x = disk s (unat f)"
    "b \<in> PB \<Longrightarrow> bmatch rootdev f s b"
    by (rule read_pair[OF r ne]) (rule that)
  let ?v = "set_data a ?x u"
  let ?w = "bwrites a ?v"
  let ?y = "brelses p b ?w"
  have v: "rinv p PB {a, b} ?v" "cached rootdev ?v = (cached rootdev s)(t := ?x)"
    using set_data_step[OF u(4), of a ?x] u(5,10) by simp_all
  have w: "bwrite a ?v = Some ?w" "rinv p PB {a, b} ?w" "cached rootdev ?w = cached rootdev ?v"
    using bwrite_step[OF v(1), of a] by simp_all
  have ub: "unat t \<noteq> unat f" using ne by (simp add: word_unat_eq_iff)
  have y: "brelse b ?w = Some ?y" "rinv p PB ({a, b} - {b}) ?y" "cached rootdev ?y = cached rootdev ?w"
    using brelse_step[OF w(2), of b] u ub by auto
  have sub: "{a, b} - {b} = {a}" using u(3) by auto
  have z: "brelse a ?y = Some (brelses p a ?y)" "rinv p PB ({a} - {a}) (brelses p a ?y)"
    "cached rootdev (brelses p a ?y) = cached rootdev ?y"
    using brelse_step[OF y(2)[unfolded sub], of a] u by auto
  have "wrote p PB [(t, ?x)] s (brelses p a ?y)"
    using z v w y u by (auto simp: wrote_def same_ids_def)
  moreover have "bcopy a b u = ?v" using u(13) by (simp add: bcopy_def)
  ultimately show ?thesis using u(1,2) w(1) y(1) z(1) by auto
qed

lemma install_block:
  assumes r: "rinv p PB {} s" and ne: "l \<noteq> h"
    and pin: "\<not> rec \<Longrightarrow> c \<in> PB \<and> bmatch rootdev h s c"
  shows "\<exists>a rc s'. bread rootdev l s = Some (a, breads p rootdev l a rc s) \<and> do {
      (b, s) \<leftarrow> bread rootdev h (breads p rootdev l a rc s);
      let s = bcopy b a s;
      s \<leftarrow> bwrite b s;
      s \<leftarrow> (if \<not> rec then bunpin b s else Some s);
      s \<leftarrow> brelse a s;
      brelse b s } = Some s' \<and> wrote p (if rec then PB else PB - {c}) [(h, cached rootdev s l)] s s'"
proof -
  let ?x = "cached rootdev s l" and ?PB = "if rec then PB else PB - {c}"
  obtain a b u where u: "bread rootdev l s = Some (a, breads p rootdev l a (refc PB a + 1) s)"
    "bread rootdev h (breads p rootdev l a (refc PB a + 1) s) = Some (b, u)"
    "a \<noteq> b" "rinv p PB {a, b} u" "cached rootdev u = cached rootdev s" "disk u = disk s"
    "wtrace u = wtrace s" "bio.more u = bio.more s" "same_ids PB s u"
    "bblockno (bufs u a) = l" "bdata (bufs u a) = ?x"
    "bblockno (bufs u b) = h" "bdata (bufs u b) = cached rootdev s h"
    "a \<notin> PB \<Longrightarrow> ?x = disk s (unat l)" "b \<notin> PB \<Longrightarrow> cached rootdev s h = disk s (unat h)"
    "b \<in> PB \<Longrightarrow> bmatch rootdev h s b"
    by (rule read_pair[OF r ne]) (rule that)
  let ?v = "set_data b ?x u"
  let ?w = "bwrites b ?v"
  let ?x1 = "if rec then ?w else bunpins b ?w"
  let ?y = "brelses p a ?x1"
  have v: "rinv p PB {a, b} ?v" "cached rootdev ?v = (cached rootdev s)(h := ?x)"
    using set_data_step[OF u(4), of b ?x] u(5,12) by simp_all
  have w: "bwrite b ?v = Some ?w" "rinv p PB {a, b} ?w" "cached rootdev ?w = cached rootdev ?v"
    using bwrite_step[OF v(1), of b] by simp_all
  have bc: "b = c" if "\<not> rec"
  proof -
    have c: "c \<in> PB" "bmatch rootdev h s c" using pin[OF that] by simp_all
    then have "c < NBUF" "bmatch rootdev h u c"
      using rinvD(2)[OF r] u(9) by (auto simp: same_ids_def bmatch_def)
    moreover have "b < NBUF" "bmatch rootdev h u b"
      using held_match[OF rinvD(1)[OF u(4)], of b] u(12) by simp_all
    ultimately show ?thesis using bio_invD(5)[OF rinvD(1)[OF u(4)]] rootdev_neq_0 by blast
  qed
  have x1: "(if \<not> rec then bunpin b ?w else Some ?w) = Some ?x1" "rinv p ?PB {a, b} ?x1"
    "cached rootdev ?x1 = cached rootdev ?w"
    using bunpin_step[OF w(2), of b] w(2) bc pin by auto
  have uab: "unat l \<noteq> unat h" using ne by (simp add: word_unat_eq_iff)
  have y: "brelse a ?x1 = Some ?y" "rinv p ?PB ({a, b} - {a}) ?y" "cached rootdev ?y = cached rootdev ?x1"
    using brelse_step[OF x1(2), of a] u uab bc by auto
  have sub: "{a, b} - {a} = {b}" using u(3) by auto
  have z: "brelse b ?y = Some (brelses p b ?y)" "rinv p ?PB ({b} - {b}) (brelses p b ?y)"
    "cached rootdev (brelses p b ?y) = cached rootdev ?y"
    using brelse_step[OF y(2)[unfolded sub], of b] u by auto
  have "wrote p ?PB [(h, ?x)] s (brelses p b ?y)"
    using z v w y x1 u by (auto simp: wrote_def same_ids_def)
  moreover have "bcopy b a u = ?v" using u(11) by (simp add: bcopy_def)
  ultimately show ?thesis using u(1,2) w(1) x1(1) y(1) z(1) by auto
qed

lemma head_block:
  assumes r: "rinv p PB {} s"
  shows "\<exists>s'. do {
      (b, s) \<leftarrow> bread rootdev n s;
      let s = set_data b (f (bdata (bufs s b))) s;
      s \<leftarrow> bwrite b s;
      brelse b s } = Some s' \<and> wrote p PB [(n, f (cached rootdev s n))] s s'"
proof -
  let ?x = "f (cached rootdev s n)"
  obtain b where b: "b < NBUF" "bread rootdev n s = Some (b, breads p rootdev n b (refc PB b + 1) s)"
    "rinv p PB {b} (breads p rootdev n b (refc PB b + 1) s)"
    "cached rootdev (breads p rootdev n b (refc PB b + 1) s) = cached rootdev s" "b \<in> PB \<Longrightarrow> bmatch rootdev n s b"
    by (rule bread_step[OF r, of n]) auto
  let ?u = "breads p rootdev n b (refc PB b + 1) s"
  let ?v = "set_data b ?x ?u"
  let ?w = "bwrites b ?v"
  have v: "rinv p PB {b} ?v" "cached rootdev ?v = (cached rootdev s)(n := ?x)"
    using set_data_step[OF b(3), of b ?x] b(4) by simp_all
  have w: "bwrite b ?v = Some ?w" "rinv p PB {b} ?w" "cached rootdev ?w = cached rootdev ?v"
    using bwrite_step[OF v(1), of b] by simp_all
  have z: "brelse b ?w = Some (brelses p b ?w)" "rinv p PB ({b} - {b}) (brelses p b ?w)"
    "cached rootdev (brelses p b ?w) = cached rootdev ?w"
    using brelse_step[OF w(2), of b] by auto
  have "wrote p PB [(n, ?x)] s (brelses p b ?w)"
    using z v w b(5) by (auto simp: wrote_def same_ids_def bmatch_def)
  then show ?thesis using b(2) w(1) z(1) by auto
qed

section \<open>The loops\<close>

definition log_blk :: "'z logst_scheme \<Rightarrow> nat \<Rightarrow> u32" where
  "log_blk s i = log_start s + of_nat i + 1"

lemma log_blk_more: "bio.more s' = bio.more s \<Longrightarrow> log_blk s' = log_blk s"
  using log_more[of s' s] by (simp add: log_blk_def fun_eq_iff)

lemma write_log_spec:
  assumes "rinv p PB {} s" and "log_dev s = rootdev"
    and "\<And>i j. i \<in> set is \<Longrightarrow> j \<in> set is \<Longrightarrow> lh_block s i \<noteq> log_blk s j"
  shows "\<exists>s'. write_log_from is s = Some s'
    \<and> wrote p PB (map (\<lambda>i. (log_blk s i, cached rootdev s (lh_block s i))) is) s s'"
  using assms
proof (induction "is" arbitrary: s)
  case Nil
  then show ?case by (simp add: wrote_refl)
next
  case (Cons i "is")
  let ?t = "log_blk s i" and ?f = "lh_block s i"
  obtain a rc u where u: "bread rootdev ?t s = Some (a, breads p rootdev ?t a rc s)"
    "do { (b, s) \<leftarrow> bread rootdev ?f (breads p rootdev ?t a rc s);
      let s = bcopy a b s;
      s \<leftarrow> bwrite a s;
      s \<leftarrow> brelse b s;
      brelse a s } = Some u" "wrote p PB [(?t, cached rootdev s ?f)] s u"
    using copy_block[OF Cons.prems(1), of ?t ?f] Cons.prems(3)[of i i] by auto
  note m = log_more[OF wroteD(5)[OF u(3)]] and blk = log_blk_more[OF wroteD(5)[OF u(3)]]
  have run: "write_log_from (i # is) s = write_log_from is u"
    using u(1,2) Cons.prems(2) by (auto simp: log_blk_def bind_eq_Some_conv Let_def)
  have "cached rootdev u (lh_block u j) = cached rootdev s (lh_block s j)" if "j \<in> set is" for j
    using wroteD(2)[OF u(3)] Cons.prems(3)[of j i] that m(4) by simp
  then have W: "map (\<lambda>i. (log_blk u i, cached rootdev u (lh_block u i))) is =
      map (\<lambda>i. (log_blk s i, cached rootdev s (lh_block s i))) is"
    using blk by (intro map_cong) simp_all
  have "\<exists>s'. write_log_from is u = Some s'
      \<and> wrote p PB (map (\<lambda>i. (log_blk u i, cached rootdev u (lh_block u i))) is) u s'"
    using Cons.prems m blk wroteD(1)[OF u(3)] by (intro Cons.IH) auto
  then obtain s' where "write_log_from is u = Some s'"
    "wrote p PB (map (\<lambda>i. (log_blk s i, cached rootdev s (lh_block s i))) is) u s'"
    unfolding W by blast
  then show ?case using run wrote_trans[OF u(3)] by fastforce
qed

lemma install_trans_spec:
  assumes "rinv p PB {} s" and "log_dev s = rootdev"
    and "\<And>i j. i \<in> set is \<Longrightarrow> j \<in> set is \<Longrightarrow> lh_block s i \<noteq> log_blk s j"
    and "\<not> rec \<Longrightarrow> distinct (map (lh_block s) is)"
    and "\<And>i. \<not> rec \<Longrightarrow> i \<in> set is \<Longrightarrow> \<exists>b\<in>PB. bmatch rootdev (lh_block s i) s b"
  shows "\<exists>s' PB'. install_trans_from rec is s = Some s' \<and> PB' \<subseteq> PB
    \<and> wrote p PB' (map (\<lambda>i. (lh_block s i, cached rootdev s (log_blk s i))) is) s s'"
  using assms
proof (induction "is" arbitrary: s PB)
  case Nil
  then show ?case using wrote_refl by auto
next
  case (Cons i "is")
  let ?l = "log_blk s i" and ?h = "lh_block s i"
  have "\<exists>c. \<not> rec \<longrightarrow> c \<in> PB \<and> bmatch rootdev ?h s c" using Cons.prems(5)[of i] by auto
  then obtain c where c: "\<not> rec \<Longrightarrow> c \<in> PB \<and> bmatch rootdev ?h s c" by blast
  let ?PB = "if rec then PB else PB - {c}"
  obtain a rc u where u: "bread rootdev ?l s = Some (a, breads p rootdev ?l a rc s)"
    "do { (b, s) \<leftarrow> bread rootdev ?h (breads p rootdev ?l a rc s);
      let s = bcopy b a s;
      s \<leftarrow> bwrite b s;
      s \<leftarrow> (if \<not> rec then bunpin b s else Some s);
      s \<leftarrow> brelse a s;
      brelse b s } = Some u" "wrote p ?PB [(?h, cached rootdev s ?l)] s u"
    using install_block[OF Cons.prems(1) _ c, of ?l rec] Cons.prems(3)[of i i] by fastforce
  note m = log_more[OF wroteD(5)[OF u(3)]] and blk = log_blk_more[OF wroteD(5)[OF u(3)]]
  have run: "install_trans_from rec (i # is) s = install_trans_from rec is u"
    using u(1,2) Cons.prems(2) by (auto simp: log_blk_def bind_eq_Some_conv Let_def split: if_splits)
  have "cached rootdev u (log_blk u j) = cached rootdev s (log_blk s j)" if "j \<in> set is" for j
    using wroteD(2)[OF u(3)] Cons.prems(3)[of i j] that blk by auto
  then have W: "map (\<lambda>i. (lh_block u i, cached rootdev u (log_blk u i))) is =
      map (\<lambda>i. (lh_block s i, cached rootdev s (log_blk s i))) is"
    using m(4) by (intro map_cong) simp_all
  have pins: "\<exists>b\<in>?PB. bmatch rootdev (lh_block u j) u b" if nr: "\<not> rec" and j: "j \<in> set is" for j
  proof -
    obtain b where b: "b \<in> PB" "bmatch rootdev (lh_block s j) s b" using Cons.prems(5)[OF nr, of j] j by auto
    have "lh_block s j \<noteq> ?h" using Cons.prems(4) nr j by simp (metis imageI)
    then have "b \<in> ?PB" using b c nr by (auto simp: bmatch_def)
    then show ?thesis using b wroteD(6)[OF u(3)] m(4) by (auto simp: same_ids_def bmatch_def)
  qed
  have "\<exists>s' PB'. install_trans_from rec is u = Some s' \<and> PB' \<subseteq> ?PB
    \<and> wrote p PB' (map (\<lambda>i. (lh_block u i, cached rootdev u (log_blk u i))) is) u s'"
    using Cons.prems m blk wroteD(1)[OF u(3)] pins by (intro Cons.IH) auto
  then obtain s' PB' where s': "install_trans_from rec is u = Some s'" "PB' \<subseteq> ?PB"
    "wrote p PB' (map (\<lambda>i. (lh_block s i, cached rootdev s (log_blk s i))) is) u s'"
    unfolding W by blast
  have "PB' \<subseteq> PB" using s'(2) by (auto split: if_splits)
  then show ?case using run s'(1) wrote_trans[OF u(3) s'(3,2)]
    by (intro exI[of _ s'] exI[of _ PB']) (simp del: install_trans_from.simps)
qed

lemma write_head_spec:
  assumes r: "rinv p PB {} s" and "log_dev s = rootdev"
  shows "\<exists>s'. write_head s = Some s'
    \<and> wrote p PB [(log_start s, put_head (lh_n s) (lh_block s) (cached rootdev s (log_start s)))] s s'"
proof -
  obtain b where b: "bread rootdev (log_start s) s =
      Some (b, breads p rootdev (log_start s) b (refc PB b + 1) s)"
    by (rule bread_step[OF r, of "log_start s"]) auto
  show ?thesis
    using head_block[OF r, of "log_start s" "put_head (lh_n s) (lh_block s)"] assms(2)
    by (simp add: write_head_def b Let_def)
qed

section \<open>Commit\<close>

lemma rinv_log [simp]: "rinv p PB H (s\<lparr>lh_n := n\<rparr>) = rinv p PB H s" "rinv p PB H (s\<lparr>lh_block := f\<rparr>) = rinv p PB H s"
  by (simp_all add: rinv_def bio_inv_def quiet_def bmatch_def)

lemma bmatch_log [simp]: "bmatch d m (s\<lparr>lh_n := n\<rparr>) = bmatch d m s" "bmatch d m (s\<lparr>lh_block := f\<rparr>) = bmatch d m s"
  by (simp_all add: bmatch_def fun_eq_iff)

lemma cached_log [simp]: "cached d (s\<lparr>lh_n := n\<rparr>) = cached d s" "cached d (s\<lparr>lh_block := f\<rparr>) = cached d s"
  by (simp_all add: cached_def fun_eq_iff split: option.split)

lemma bio_more_lh_n: "bio.more s' = bio.more s \<Longrightarrow> bio.more (s'\<lparr>lh_n := n\<rparr>) = bio.more (s\<lparr>lh_n := n\<rparr>)"
  by (cases s; cases s') simp

lemma wrote_lh_n: "wrote p PB V s s' \<Longrightarrow> wrote p PB V (s\<lparr>lh_n := n\<rparr>) (s'\<lparr>lh_n := n\<rparr>)"
  using bio_more_lh_n[of s' s n] by (simp add: wrote_def same_ids_def)

lemma log_blk_upd [simp]: "log_blk (s\<lparr>lh_n := n\<rparr>) = log_blk s" "log_blk (s\<lparr>lh_block := f\<rparr>) = log_blk s"
  by (simp_all add: log_blk_def fun_eq_iff)

lemma log_blk_inj:
  assumes "i \<le> LOGBLOCKS" and "j \<le> LOGBLOCKS"
  shows "log_blk s i = log_blk s j \<longleftrightarrow> i = j" and "log_blk s i \<noteq> log_start s"
proof -
  have u: "unat (of_nat i :: u32) = i" "unat (of_nat j :: u32) = j" "unat (of_nat (i + 1) :: u32) = i + 1"
    using assms by (simp_all add: unat_of_nat LOGBLOCKS_def MAXOPBLOCKS_def del: of_nat_add of_nat_Suc)
  have "(of_nat i :: u32) = of_nat j \<longleftrightarrow> i = j" using u(1,2) by metis
  then show "log_blk s i = log_blk s j \<longleftrightarrow> i = j" by (simp add: log_blk_def)
  have "(of_nat (i + 1) :: u32) \<noteq> 0" using u(3) by (metis add_is_0 one_neq_zero unat_0)
  then show "log_blk s i \<noteq> log_start s" by (simp add: log_blk_def add.assoc add.commute[of 1])
qed

text \<open>
  The condition under which \<^verbatim>\<open>commit\<close> and recovery run: the header lists at most
  \<open>LOGBLOCKS\<close> distinct home blocks, none of them in the log itself.
\<close>

definition log_ok :: "'z logst_scheme \<Rightarrow> bool" where
  "log_ok s \<longleftrightarrow> log_dev s = rootdev \<and> 0 \<le> lh_n s \<and> lh_n s \<le> int LOGBLOCKS
     \<and> distinct (map (lh_block s) [0..<nat (lh_n s)])
     \<and> (\<forall>i<nat (lh_n s). lh_block s i \<noteq> log_start s \<and> (\<forall>j<nat (lh_n s). lh_block s i \<noteq> log_blk s j))"

lemma log_okD:
  assumes "log_ok s"
  shows "log_dev s = rootdev" "0 \<le> lh_n s" "lh_n s \<le> int LOGBLOCKS" "distinct (map (lh_block s) [0..<nat (lh_n s)])"
    "i < nat (lh_n s) \<Longrightarrow> lh_block s i \<noteq> log_start s"
    "i < nat (lh_n s) \<Longrightarrow> j < nat (lh_n s) \<Longrightarrow> lh_block s i \<noteq> log_blk s j"
  using assms by (simp_all add: log_ok_def)

definition pins :: "nat set \<Rightarrow> 'z logst_scheme \<Rightarrow> bool" where
  "pins PB s \<longleftrightarrow> (\<forall>i<nat (lh_n s). \<exists>b\<in>PB. bmatch rootdev (lh_block s i) s b)"

definition to_log :: "'z logst_scheme \<Rightarrow> (u32 \<times> carr) list" where
  "to_log s = map (\<lambda>i. (log_blk s i, cached rootdev s (lh_block s i))) [0..<nat (lh_n s)]"

definition to_home :: "'z logst_scheme \<Rightarrow> (u32 \<times> carr) list" where
  "to_home s = map (\<lambda>i. (lh_block s i, cached rootdev s (lh_block s i))) [0..<nat (lh_n s)]"

definition full_head :: "'z logst_scheme \<Rightarrow> carr" where
  "full_head s = put_head (lh_n s) (lh_block s) (cached rootdev s (log_start s))"

definition commit_writes :: "'z logst_scheme \<Rightarrow> (u32 \<times> carr) list" where
  "commit_writes s = to_log s @ [(log_start s, full_head s)] @ to_home s
     @ [(log_start s, put_head 0 (lh_block s) (full_head s))]"

lemma to_log_keys: "fst ` set (to_log s) = log_blk s ` {..<nat (lh_n s)}"
  by (simp add: to_log_def image_image lessThan_atLeast0)

lemma to_home_keys: "fst ` set (to_home s) = lh_block s ` {..<nat (lh_n s)}"
  by (simp add: to_home_def image_image lessThan_atLeast0)

lemma log_start_notin:
  assumes "log_ok s"
  shows "log_start s \<notin> fst ` set (to_log s)" and "log_start s \<notin> fst ` set (to_home s)"
proof -
  have "log_blk s i \<noteq> log_start s" if "i < nat (lh_n s)" for i
    using log_blk_inj(2)[of i 0 s] log_okD(3)[OF assms] that by simp
  then show "log_start s \<notin> fst ` set (to_log s)" unfolding to_log_keys by (metis imageE lessThan_iff)
  show "log_start s \<notin> fst ` set (to_home s)"
    using log_okD(5)[OF assms] unfolding to_home_keys by (metis imageE lessThan_iff)
qed

lemma to_log_value:
  assumes "log_ok s" and "i < nat (lh_n s)"
  shows "wr_all (to_log s) d (log_blk s i) = cached rootdev s (lh_block s i)"
proof (rule wr_all_value)
  fix x assume "(log_blk s i, x) \<in> set (to_log s)"
  then obtain j where "j < nat (lh_n s)" "log_blk s i = log_blk s j" "x = cached rootdev s (lh_block s j)"
    by (auto simp: to_log_def)
  then show "x = cached rootdev s (lh_block s i)"
    using log_blk_inj(1)[of i j s] assms(2) log_okD(3)[OF assms(1)] by simp
qed (use assms in \<open>simp add: to_log_keys\<close>)

lemma commit_spec:
  assumes r: "rinv p PB {} s" and ok: "log_ok s" and pin: "pins PB s" and n: "lh_n s \<noteq> 0"
  shows "\<exists>s' PB'. commit s = Some s' \<and> PB' \<subseteq> PB \<and> wrote p PB' (commit_writes s) (s\<lparr>lh_n := 0\<rparr>) s'"
proof -
  let ?n = "nat (lh_n s)"
  obtain t where t: "write_log s = Some t" "wrote p PB (to_log s) s t"
    using write_log_spec[OF r log_okD(1)[OF ok], of "[0..<?n]"] log_okD(6)[OF ok]
    unfolding write_log_def to_log_def by auto
  note mt = log_more[OF wroteD(5)[OF t(2)]] log_blk_more[OF wroteD(5)[OF t(2)]]
  have ht: "put_head (lh_n t) (lh_block t) (cached rootdev t (log_start t)) = full_head s"
    using wroteD(2)[OF t(2)] wr_all_notin[OF log_start_notin(1)[OF ok]] mt by (simp add: full_head_def)
  obtain u where u: "write_head t = Some u" "wrote p PB [(log_start s, full_head s)] t u"
    using write_head_spec[OF wroteD(1)[OF t(2)]] log_okD(1)[OF ok] unfolding ht by (auto simp: mt)
  note tu = wrote_trans[OF t(2) u(2) order_refl]
  note mu = log_more[OF wroteD(5)[OF tu]] log_blk_more[OF wroteD(5)[OF tu]]
  have home: "map (\<lambda>i. (lh_block u i, cached rootdev u (log_blk u i))) [0..<nat (lh_n u)] = to_home s"
    unfolding to_home_def mu
  proof (intro map_cong refl)
    fix i assume "i \<in> set [0..<?n]"
    then show "(lh_block s i, cached rootdev u (log_blk s i)) = (lh_block s i, cached rootdev s (lh_block s i))"
      using wroteD(2)[OF tu] log_blk_inj(2)[of i 0 s] log_okD(3)[OF ok] to_log_value[OF ok, of i] by simp
  qed
  obtain v PB' where v: "install_trans False u = Some v" "PB' \<subseteq> PB" "wrote p PB' (to_home s) u v"
  proof -
    have "\<exists>b\<in>PB. bmatch rootdev (lh_block u i) u b" if "i \<in> set [0..<nat (lh_n u)]" for i
      using pin wroteD(6)[OF tu] that unfolding mu pins_def same_ids_def bmatch_def by (metis atLeastLessThan_iff set_upt)
    then have "\<exists>v PB'. install_trans_from False [0..<nat (lh_n u)] u = Some v \<and> PB' \<subseteq> PB
        \<and> wrote p PB' (map (\<lambda>i. (lh_block u i, cached rootdev u (log_blk u i))) [0..<nat (lh_n u)]) u v"
      using wroteD(1)[OF tu] log_okD[OF ok] by (intro install_trans_spec) (simp_all add: mu)
    then show thesis using that unfolding home install_trans_def by blast
  qed
  let ?v = "v\<lparr>lh_n := 0\<rparr>"
  note tv = wrote_trans[OF tu v(3,2)]
  note mv = log_more[OF wroteD(5)[OF tv]]
  have "cached rootdev v (log_start s) = full_head s"
    using wroteD(2)[OF tv] wr_all_notin[OF log_start_notin(2)[OF ok]] by simp
  then obtain w where w: "write_head ?v = Some w"
    "wrote p PB' [(log_start s, put_head 0 (lh_block s) (full_head s))] ?v w"
    using write_head_spec[of p PB' ?v] wroteD(1)[OF tv] mv log_okD(1)[OF ok] by auto
  have "wrote p PB' (commit_writes s) (s\<lparr>lh_n := 0\<rparr>) w"
    using wrote_trans[OF wrote_lh_n[OF tv] w(2) order_refl] by (simp add: commit_writes_def)
  then show ?thesis using n t(1) u(1) v(1,2) w(1) by (auto simp: commit_def Let_def)
qed

end
