(* ===== verification/LogCrash.thy ===== *)
theory LogCrash
  imports LogFacts
begin

text \<open>
  Crash atomicity of \<^verbatim>\<open>kernel/log.c\<close>. A crash leaves the disk as a prefix of the writes of
  \<^verbatim>\<open>commit\<close> made it and nothing of memory; \<^verbatim>\<open>recover_from_log\<close> on that disk yields, outside the
  log area, either the disk before the transaction or the disk after it.
\<close>

section \<open>The header block\<close>

definition head_blocks :: "carr \<Rightarrow> (nat \<Rightarrow> u32) \<Rightarrow> nat \<Rightarrow> u32" where
  "head_blocks lh f = fold (\<lambda>i f. f(i := get32 lh (4 + 4 * i))) [0..<nat (sint (get32 lh 0))] f"

lemma fold_upd_apply: "fold (\<lambda>i f. f(i := g i)) is f j = (if j \<in> set is then g j else f j)"
  by (induction "is" arbitrary: f) auto

lemma head_blocks_apply: "head_blocks lh f i = (if i < nat (sint (get32 lh 0)) then get32 lh (4 + 4 * i) else f i)"
  by (simp add: head_blocks_def fold_upd_apply)

lemma get32_put_blocks:
  "get32 (fold (\<lambda>i d. put32 (blk i) (4 + 4 * i) d) is d) (4 + 4 * j) = (if j \<in> set is then blk j else get32 d (4 + 4 * j))"
proof (induction "is" arbitrary: d)
  case (Cons i "is")
  have "get32 (put32 (blk i) (4 + 4 * i) d) (4 + 4 * j) = (if i = j then blk j else get32 d (4 + 4 * j))"
    by (cases i j rule: linorder_cases) auto
  then show ?case using Cons by auto
qed simp

lemma get32_put_blocks_0: "get32 (fold (\<lambda>i d. put32 (blk i) (4 + 4 * i) d) is d) 0 = get32 d 0"
  by (induction "is" arbitrary: d) auto

lemma put_head_n: "get32 (put_head n blk d) 0 = word_of_int n"
  by (simp add: put_head_def get32_put_blocks_0)

lemma put_head_block: "i < nat n \<Longrightarrow> get32 (put_head n blk d) (4 + 4 * i) = blk i"
  by (simp add: put_head_def get32_put_blocks)

lemma sint_small: "0 \<le> n \<Longrightarrow> n \<le> int LOGBLOCKS \<Longrightarrow> sint (word_of_int n :: u32) = n"
  by (simp add: LOGBLOCKS_def MAXOPBLOCKS_def signed_of_int signed_take_bit_int_eq_self)

lemma read_head_spec:
  fixes s :: "'z logst_scheme"
  assumes r: "rinv p PB {} s" and dev: "log_dev s = rootdev"
  defines "lh \<equiv> cached rootdev s (log_start s)"
  shows "\<exists>s'. read_head s = Some s'
    \<and> wrote p PB [] (s\<lparr>lh_n := sint (get32 lh 0), lh_block := head_blocks lh (lh_block s)\<rparr>) s'"
proof -
  obtain b where b: "b < NBUF" "bread rootdev (log_start s) s =
      Some (b, breads p rootdev (log_start s) b (refc PB b + 1) s)"
    "rinv p PB {b} (breads p rootdev (log_start s) b (refc PB b + 1) s)"
    "cached rootdev (breads p rootdev (log_start s) b (refc PB b + 1) s) = cached rootdev s"
    "b \<notin> PB \<Longrightarrow> cached rootdev s (log_start s) = disk s (unat (log_start s))"
    "b \<in> PB \<Longrightarrow> bmatch rootdev (log_start s) s b"
    by (rule bread_step[OF r, of "log_start s"]) auto
  let ?u = "breads p rootdev (log_start s) b (refc PB b + 1) s"
  let ?v = "?u\<lparr>lh_n := sint (get32 lh 0), lh_block := head_blocks lh (lh_block s)\<rparr>"
  have v: "rinv p PB {b} ?v" "cached rootdev ?v = cached rootdev s" using b(3,4) by simp_all
  have z: "brelse b ?v = Some (brelses p b ?v)" "rinv p PB ({b} - {b}) (brelses p b ?v)"
    "cached rootdev (brelses p b ?v) = cached rootdev ?v"
    using brelse_step[OF v(1), of b] b(5) by auto
  have "bio.more ?v = bio.more (s\<lparr>lh_n := sint (get32 lh 0), lh_block := head_blocks lh (lh_block s)\<rparr>)"
    by (cases s) (simp add: breads_def upd_sl_def upd_buf_def)
  then have "wrote p PB [] (s\<lparr>lh_n := sint (get32 lh 0), lh_block := head_blocks lh (lh_block s)\<rparr>) (brelses p b ?v)"
    using z v b(6) by (auto simp: wrote_def same_ids_def bmatch_def)
  moreover have "read_head s = Some (brelses p b ?v)"
    using z(1) b(2) dev by (simp add: read_head_def Let_def lh_def head_blocks_def)
  ultimately show ?thesis by blast
qed

section \<open>Recovery\<close>

definition loaded :: "'z logst_scheme \<Rightarrow> 'z logst_scheme" where
  "loaded s = (let lh = cached rootdev s (log_start s) in
     s\<lparr>lh_n := sint (get32 lh 0), lh_block := head_blocks lh (lh_block s)\<rparr>)"

lemma loaded_simps [simp]:
  "log_start (loaded s) = log_start s" "log_dev (loaded s) = log_dev s" "log_blk (loaded s) = log_blk s"
  "cached rootdev (loaded s) = cached rootdev s" "disk (loaded s) = disk s" "wtrace (loaded s) = wtrace s"
  "rinv p PB H (loaded s) = rinv p PB H s"
  "lh_n (loaded s) = sint (get32 (cached rootdev s (log_start s)) 0)"
  by (simp_all add: loaded_def Let_def)

definition replay :: "'z logst_scheme \<Rightarrow> (u32 \<times> carr) list" where
  "replay s = map (\<lambda>i. (lh_block (loaded s) i, cached rootdev s (log_blk s i))) [0..<nat (lh_n (loaded s))]"

lemma recover_spec:
  assumes r: "rinv p {} {} s" and ok: "log_ok (loaded s)"
  shows "\<exists>s'. recover_from_log s = Some s' \<and> wrote p {}
    (replay s @ [(log_start s, put_head 0 (lh_block (loaded s)) (cached rootdev s (log_start s)))])
    ((loaded s)\<lparr>lh_n := 0\<rparr>) s'"
proof -
  have dev: "log_dev s = rootdev" using log_okD(1)[OF ok] by simp
  obtain t where t: "read_head s = Some t" "wrote p {} [] (loaded s) t"
    using read_head_spec[OF r dev] by (auto simp: loaded_def Let_def)
  note mt = log_more[OF wroteD(5)[OF t(2)]] log_blk_more[OF wroteD(5)[OF t(2)]]
  have rep: "map (\<lambda>i. (lh_block t i, cached rootdev t (log_blk t i))) [0..<nat (lh_n t)] = replay s"
    using mt wroteD(2)[OF t(2)] by (simp add: replay_def)
  have "\<exists>u PB'. install_trans_from True [0..<nat (lh_n t)] t = Some u \<and> PB' \<subseteq> {}
      \<and> wrote p PB' (map (\<lambda>i. (lh_block t i, cached rootdev t (log_blk t i))) [0..<nat (lh_n t)]) t u"
    using wroteD(1)[OF t(2)] log_okD[OF ok] by (intro install_trans_spec) (simp_all add: mt)
  then obtain u where u: "install_trans True t = Some u" "wrote p {} (replay s) t u"
    unfolding rep install_trans_def by auto
  note tu = wrote_trans[OF t(2) u(2) order_refl]
  note mu = log_more[OF wroteD(5)[OF tu]]
  have "log_start s \<notin> fst ` set (replay s)"
    using log_okD(5)[OF ok] unfolding replay_def by fastforce
  then have "cached rootdev u (log_start s) = cached rootdev s (log_start s)"
    using wroteD(2)[OF tu] wr_all_notin[of "log_start s" "replay s"] by simp
  then obtain w where w: "write_head (u\<lparr>lh_n := 0\<rparr>) = Some w"
    "wrote p {} [(log_start s, put_head 0 (lh_block (loaded s)) (cached rootdev s (log_start s)))] (u\<lparr>lh_n := 0\<rparr>) w"
    using write_head_spec[of p "{}" "u\<lparr>lh_n := 0\<rparr>"] wroteD(1)[OF tu] mu dev by auto
  have "wrote p {} (replay s @ [(log_start s, put_head 0 (lh_block (loaded s)) (cached rootdev s (log_start s)))])
    ((loaded s)\<lparr>lh_n := 0\<rparr>) w"
    using wrote_trans[OF wrote_lh_n[OF tu] w(2) order_refl] by simp
  then show ?thesis using t(1) u(1) w(1) by (auto simp: recover_from_log_def Let_def)
qed

section \<open>Atomicity\<close>

lemma wr_all_on_disk: "wr_all (on_disk V) d (unat m) = wr_all V (\<lambda>m. d (unat m)) m"
proof (induction V arbitrary: d)
  case (Cons v V)
  obtain k x where v: "v = (k, x)" by fastforce
  have eq: "(\<lambda>m. d (unat m))(k := x) = (\<lambda>m. (d(unat k := x)) (unat m))"
    by (simp add: fun_eq_iff word_unat_eq_iff)
  show ?case unfolding v on_disk_simps wr_all_simps eq by (rule Cons.IH)
qed simp

lemma wr_all_same: "m \<in> fst ` set W \<or> d m = e m \<Longrightarrow> wr_all W d m = wr_all W e m"
proof (induction W arbitrary: d e)
  case (Cons w W)
  obtain k x where w: "w = (k, x)" by fastforce
  have "m \<in> fst ` set W \<or> (d(k := x)) m = (e(k := x)) m" using Cons.prems w by auto
  then have "wr_all W (d(k := x)) m = wr_all W (e(k := x)) m" by (rule Cons.IH)
  then show ?case using w by simp
qed simp

lemma wr_all_redo: "set V \<subseteq> set W \<Longrightarrow> wr_all W (wr_all V d) m = wr_all W d m"
  using wr_all_same[of m W "wr_all V d" d] wr_all_notin[of m V d] image_mono[of "set V" "set W" fst] by blast

text \<open>\<open>fresh\<close>: the state after a reboot, with an empty block cache and a file system on the disk.\<close>

definition fresh :: "nat \<Rightarrow> 'z logst_scheme \<Rightarrow> bool" where
  "fresh p s \<longleftrightarrow> rinv p {} {} s \<and> cached rootdev s = (\<lambda>n. disk s (unat n)) \<and> log_dev s = rootdev"

lemma recover_empty:
  assumes f: "fresh p s" and "sint (get32 (disk s (unat (log_start s))) 0) = 0"
  shows "\<exists>s'. recover_from_log s = Some s' \<and> (\<forall>m. m \<noteq> log_start s \<longrightarrow> disk s' (unat m) = disk s (unat m))"
proof -
  have "lh_n (loaded s) = 0" using assms by (simp add: fresh_def)
  then have "log_ok (loaded s)" "replay s = []" using f by (simp_all add: log_ok_def fresh_def replay_def)
  then obtain s' where "recover_from_log s = Some s'"
    "wrote p {} [(log_start s, put_head 0 (lh_block (loaded s)) (cached rootdev s (log_start s)))] ((loaded s)\<lparr>lh_n := 0\<rparr>) s'"
    using recover_spec[of p s] f by (auto simp: fresh_def)
  moreover from this(2) have "disk s' (unat m) = disk s (unat m)" if "m \<noteq> log_start s" for m
    using that by (simp add: wroteD(3) word_unat_eq_iff)
  ultimately show ?thesis by blast
qed

lemma recover_full:
  assumes f: "fresh p b" and ok: "log_ok s" and start: "log_start b = log_start s"
    and hd: "disk b (unat (log_start s)) = full_head s"
    and log: "\<And>i. i < nat (lh_n s) \<Longrightarrow> disk b (unat (log_blk s i)) = cached rootdev s (lh_block s i)"
  shows "\<exists>b'. recover_from_log b = Some b'
    \<and> (\<forall>m. m \<noteq> log_start s \<longrightarrow> disk b' (unat m) = wr_all (to_home s) (\<lambda>m. disk b (unat m)) m)"
proof -
  have blk: "log_blk b = log_blk s" using start by (simp add: log_blk_def fun_eq_iff)
  have n: "lh_n (loaded b) = lh_n s"
    using f hd start log_okD(2,3)[OF ok] by (simp add: fresh_def full_head_def put_head_n sint_small)
  have h: "lh_block (loaded b) i = lh_block s i" if "i < nat (lh_n s)" for i
    using f hd start log_okD(2,3)[OF ok] that
    by (simp add: fresh_def loaded_def Let_def head_blocks_apply full_head_def put_head_n sint_small put_head_block)
  have "map (lh_block (loaded b)) [0..<nat (lh_n s)] = map (lh_block s) [0..<nat (lh_n s)]" using h by simp
  then have "distinct (map (lh_block (loaded b)) [0..<nat (lh_n s)])" using log_okD(4)[OF ok] by argo
  then have ok': "log_ok (loaded b)"
    using log_okD[OF ok] f n h blk start unfolding log_ok_def by (simp add: fresh_def)
  have rep: "replay b = to_home s"
    unfolding replay_def to_home_def n blk using h log f by (intro map_cong refl) (simp add: fresh_def)
  obtain b' x where "recover_from_log b = Some b'" "wrote p {} (to_home s @ [(log_start s, x)]) ((loaded b)\<lparr>lh_n := 0\<rparr>) b'"
    using recover_spec[of p b] f ok' start unfolding rep by (auto simp: fresh_def)
  moreover from this(2) have "disk b' (unat m) = wr_all (to_home s) (\<lambda>m. disk b (unat m)) m" if "m \<noteq> log_start s" for m
    using wr_all_on_disk[of "to_home s @ [(log_start s, x)]" "disk b" m] that by (simp add: wroteD(3))
  ultimately show ?thesis by blast
qed

lemma commit_prefix:
  fixes s :: "'z logst_scheme"
  defines "n \<equiv> nat (lh_n s)"
  shows "k \<le> n \<Longrightarrow> take k (commit_writes s) = take k (to_log s)"
    and "n < k \<Longrightarrow> k \<le> 2 * n + 1 \<Longrightarrow>
      take k (commit_writes s) = to_log s @ (log_start s, full_head s) # take (k - n - 1) (to_home s)"
    and "2 * n + 2 \<le> k \<Longrightarrow> take k (commit_writes s) = commit_writes s"
proof -
  have len: "length (to_log s) = n" "length (to_home s) = n" by (simp_all add: to_log_def to_home_def n_def)
  show "take k (commit_writes s) = take k (to_log s)" if "k \<le> n"
    using that len by (simp add: commit_writes_def)
  show "take k (commit_writes s) = commit_writes s" if "2 * n + 2 \<le> k"
    using that len by (simp add: commit_writes_def)
  assume k: "n < k" "k \<le> 2 * n + 1"
  then obtain j where "k = n + Suc j" "j \<le> n" by (auto dest!: less_imp_Suc_add)
  then show "take k (commit_writes s) = to_log s @ (log_start s, full_head s) # take (k - n - 1) (to_home s)"
    using len by (simp add: commit_writes_def)
qed

definition log_area :: "'z logst_scheme \<Rightarrow> u32 set" where
  "log_area s = insert (log_start s) (log_blk s ` {..<nat (lh_n s)})"

lemma prefix_disk:
  fixes s :: "'z logst_scheme"
  assumes ok: "log_ok s" and m: "m \<notin> log_area s"
  shows "k \<le> nat (lh_n s) \<Longrightarrow> wr_all (take k (commit_writes s)) d m = d m"
    and "wr_all (commit_writes s) d m = wr_all (to_home s) d m"
    and "wr_all (to_home s) (wr_all (to_log s @ (log_start s, x) # take j (to_home s)) d) m = wr_all (to_home s) d m"
proof -
  have log: "m \<notin> fst ` set (to_log s)" and st: "m \<noteq> log_start s"
    using m unfolding log_area_def to_log_keys by simp_all
  then have "m \<notin> fst ` set (take k (to_log s))" by (meson image_mono set_take_subset subsetD)
  then show "k \<le> nat (lh_n s) \<Longrightarrow> wr_all (take k (commit_writes s)) d m = d m"
    by (simp add: commit_prefix(1) wr_all_notin)
  show "wr_all (commit_writes s) d m = wr_all (to_home s) d m"
    using wr_all_same[of m "to_home s" "(wr_all (to_log s) d)(log_start s := full_head s)" d]
      wr_all_notin[OF log, of d] st by (simp add: commit_writes_def)
  have "wr_all (to_home s) (wr_all (take j (to_home s)) ((wr_all (to_log s) d)(log_start s := x))) m =
      wr_all (to_home s) ((wr_all (to_log s) d)(log_start s := x)) m"
    by (rule wr_all_redo) (rule set_take_subset)
  also have "\<dots> = wr_all (to_home s) d m"
    using wr_all_notin[OF log, of d] st by (intro wr_all_same) simp
  finally show "wr_all (to_home s) (wr_all (to_log s @ (log_start s, x) # take j (to_home s)) d) m = wr_all (to_home s) d m"
    by simp
qed

lemma prefix_log:
  assumes ok: "log_ok s"
  shows "wr_all (to_log s @ (log_start s, x) # take j (to_home s)) d (log_start s) = x"
    and "i < nat (lh_n s) \<Longrightarrow> wr_all (to_log s @ (log_start s, x) # take j (to_home s)) d (log_blk s i)
      = cached rootdev s (lh_block s i)"
proof -
  have sub: "fst ` set (take j (to_home s)) \<subseteq> lh_block s ` {..<nat (lh_n s)}"
    unfolding to_home_keys[symmetric] by (intro image_mono set_take_subset)
  then have "log_start s \<notin> fst ` set (take j (to_home s))"
    using log_start_notin(2)[OF ok] unfolding to_home_keys by blast
  then show "wr_all (to_log s @ (log_start s, x) # take j (to_home s)) d (log_start s) = x"
    by (simp add: wr_all_notin)
  assume i: "i < nat (lh_n s)"
  then have "log_blk s i \<notin> lh_block s ` {..<nat (lh_n s)}" using log_okD(6)[OF ok _ i] by force
  then have "log_blk s i \<notin> fst ` set (take j (to_home s))" using sub by blast
  moreover have "log_blk s i \<noteq> log_start s"
    using log_blk_inj(2)[of i 0 s] i log_okD(3)[OF ok] by simp
  ultimately show "wr_all (to_log s @ (log_start s, x) # take j (to_home s)) d (log_blk s i) = cached rootdev s (lh_block s i)"
    using to_log_value[OF ok i] by (simp add: wr_all_notin)
qed

lemma commit_crash:
  assumes r: "rinv p PB {} s" and ok: "log_ok s" and pin: "pins PB s" and n: "lh_n s \<noteq> 0"
    and clean: "sint (get32 (disk s (unat (log_start s))) 0) = 0"
    and c: "commit s = Some s'" "wtrace s' = rev W @ wtrace s"
    and b: "fresh q b" "log_start b = log_start s" "disk b = wr_all (take k W) (disk s)"
  shows "\<exists>b'. recover_from_log b = Some b' \<and> (\<forall>m. m \<notin> log_area s \<longrightarrow>
    disk b' (unat m) = (if k \<le> nat (lh_n s) then disk s (unat m) else disk s' (unat m)))"
proof -
  let ?V = "commit_writes s" and ?D = "\<lambda>m. disk s (unat m)" and ?n = "nat (lh_n s)"
  obtain PB' where w: "wrote p PB' ?V (s\<lparr>lh_n := 0\<rparr>) s'" using commit_spec[OF r ok pin n] c(1) by auto
  have W: "W = on_disk ?V" using wroteD(4)[OF w] c(2) by simp
  then have db: "disk b (unat m) = wr_all (take k ?V) ?D m" for m
    using b(3) wr_all_on_disk[of "take k ?V"] by (simp add: on_disk_def take_map)
  have ds': "disk s' (unat m) = wr_all (to_home s) ?D m" if "m \<notin> log_area s" for m
    using prefix_disk(2)[OF ok that] wr_all_on_disk[of ?V "disk s" m] by (simp add: wroteD(3)[OF w])
  have st: "m \<noteq> log_start s" if "m \<notin> log_area s" for m using that by (auto simp: log_area_def)
  consider "k \<le> ?n" | "?n < k" "k \<le> 2 * ?n + 1" | "2 * ?n + 2 \<le> k" by linarith
  then show ?thesis
  proof cases
    case 1
    then have "log_start s \<notin> fst ` set (take k ?V)"
      using log_start_notin(1)[OF ok] unfolding commit_prefix(1)[OF 1] by (meson image_mono set_take_subset subsetD)
    then have "sint (get32 (disk b (unat (log_start b))) 0) = 0" using clean b(2) db by (simp add: wr_all_notin)
    from recover_empty[OF b(1) this] show ?thesis
      using 1 b(2) st db prefix_disk(1)[OF ok _ 1] by auto
  next
    case 2
    then have d: "disk b (unat m) = wr_all (to_log s @ (log_start s, full_head s) # take (k - ?n - 1) (to_home s)) ?D m" for m
      using db commit_prefix(2)[of s k] by simp
    then have db': "(\<lambda>m. disk b (unat m)) = wr_all (to_log s @ (log_start s, full_head s) # take (k - ?n - 1) (to_home s)) ?D"
      by blast
    have "\<exists>b'. recover_from_log b = Some b'
        \<and> (\<forall>m. m \<noteq> log_start s \<longrightarrow> disk b' (unat m) = wr_all (to_home s) (\<lambda>m. disk b (unat m)) m)"
      using d prefix_log[OF ok] by (intro recover_full[OF b(1) ok b(2)]) simp_all
    then show ?thesis using 2(1) st ds' prefix_disk(3)[OF ok] unfolding db' by (metis leD)
  next
    case 3
    then have d: "disk b (unat m) = wr_all ?V ?D m" for m using db commit_prefix(3)[of s k] by simp
    then have "sint (get32 (disk b (unat (log_start b))) 0) = 0"
      using b(2) by (simp add: commit_writes_def put_head_n)
    from recover_empty[OF b(1) this] show ?thesis
      using 3 b(2) st ds' d prefix_disk(2)[OF ok] by auto
  qed
qed

text \<open>
  C1. A transaction is atomic under crashes. Let \<^verbatim>\<open>commit\<close> run with a non-empty transaction whose
  blocks are pinned in the cache, with an empty header on the disk. It returns. Whatever prefix of its
  disk writes has reached the disk when the machine stops, after a reboot \<^verbatim>\<open>recover_from_log\<close>
  returns, and every block outside the log area then holds either what it held before the
  transaction (if the crash came before the header was written) or what the complete commit would
  have left (otherwise): never a mixture.
\<close>

theorem commit_crash_atomic:
  fixes s :: "'z logst_scheme"
  assumes r: "rinv p PB {} s" and ok: "log_ok s" and pin: "pins PB s" and n: "lh_n s \<noteq> 0"
    and clean: "sint (get32 (disk s (unat (log_start s))) 0) = 0"
  shows "\<exists>s' W. commit s = Some s' \<and> wtrace s' = rev W @ wtrace s \<and>
    (\<forall>k q (b :: 'z logst_scheme). fresh q b \<and> log_start b = log_start s \<and> disk b = wr_all (take k W) (disk s) \<longrightarrow>
      (\<exists>b'. recover_from_log b = Some b' \<and> (\<forall>m. m \<notin> log_area s \<longrightarrow>
        disk b' (unat m) = (if k \<le> nat (lh_n s) then disk s (unat m) else disk s' (unat m)))))"
proof -
  obtain s' PB' where c: "commit s = Some s'" "wrote p PB' (commit_writes s) (s\<lparr>lh_n := 0\<rparr>) s'"
    using commit_spec[OF r ok pin n] by blast
  then have "wtrace s' = rev (on_disk (commit_writes s)) @ wtrace s" using wroteD(4)[OF c(2)] by simp
  then show ?thesis
    using c(1) commit_crash[OF r ok pin n clean c(1)] by blast
qed

section \<open>An example\<close>

definition log_ex :: logst where
  "log_ex = \<lparr>lk = idle_lk (Some 0), mem = (\<lambda>_. 0), freelist = 0, kend = 0, procs = (\<lambda>_. proc0), nextpid = 1,
     initproc = None, kernel_pagetable = 0, etext = 0, trampoline = 0, satp = (\<lambda>_. 0),
     sleeplocks = (\<lambda>_. \<lparr>slocked = False, slname = [], slpid = 0\<rparr>),
     bufs = (\<lambda>_. \<lparr>bvalid = False, bdev = 0, bblockno = 0, brefcnt = 0, bdata = (\<lambda>_. 0)\<rparr>)
       (0 := \<lparr>bvalid = True, bdev = rootdev, bblockno = 40, brefcnt = 1, bdata = (\<lambda>_. 7)\<rparr>),
     lru = [0..<NBUF], disk = (\<lambda>_ _. 0), wtrace = [], log_start = 2, log_outstanding = 0, log_committing = False,
     log_dev = rootdev, lh_n = 1, lh_block = (\<lambda>_. 40)\<rparr>"

definition boot_ex :: "(nat \<Rightarrow> carr) \<Rightarrow> logst" where
  "boot_ex d = log_ex\<lparr>bufs := (\<lambda>_. \<lparr>bvalid = False, bdev = 0, bblockno = 0, brefcnt = 0, bdata = (\<lambda>_. 0)\<rparr>),
     disk := d, lh_n := 0, lh_block := (\<lambda>_. 0)\<rparr>"

lemma quiet_idle: "lk s = idle_lk (Some p) \<Longrightarrow> quiet p s"
  by (simp add: quiet_def)

lemma log_ex_rinv: "rinv 0 {0} {} log_ex" "log_ok log_ex" "pins {0} log_ex"
proof -
  have "quiet 0 log_ex" by (rule quiet_idle) (simp add: log_ex_def)
  then show "rinv 0 {0} {} log_ex"
    by (auto simp: rinv_def bio_inv_def log_ex_def bmatch_def refc_def NBUF_def MAXOPBLOCKS_def split: if_splits)
  show "log_ok log_ex" by (simp add: log_ok_def log_ex_def log_blk_def LOGBLOCKS_def MAXOPBLOCKS_def)
  show "pins {0} log_ex" by (simp add: pins_def log_ex_def bmatch_def)
qed

lemma fresh_boot_ex: "fresh 0 (boot_ex d)"
proof -
  have "quiet 0 (boot_ex d)" by (rule quiet_idle) (simp add: boot_ex_def log_ex_def)
  then have inv: "bio_inv 0 {} (boot_ex d)"
    by (auto simp: bio_inv_def boot_ex_def log_ex_def bmatch_def NBUF_def MAXOPBLOCKS_def)
  have "cached rootdev (boot_ex d) n = d (unat n)" for n
    using cached_nomatch[OF inv, of rootdev n] by (simp add: boot_ex_def bmatch_def)
  then show ?thesis
    using inv by (auto simp: fresh_def rinv_def boot_ex_def log_ex_def refc_def NBUF_def MAXOPBLOCKS_def)
qed

text \<open>A crash after the header write: the block is recovered from the log.\<close>

lemma log_ex_simps:
  "lh_n log_ex = 1" "log_start log_ex = 2" "disk log_ex = (\<lambda>_ _. 0)" "wtrace log_ex = []"
  "log_start (boot_ex d) = 2" "disk (boot_ex d) = d" "40 \<notin> log_area log_ex"
  by (simp_all add: log_ex_def boot_ex_def log_area_def log_blk_def image_iff)

theorem commit_crash_atomic_witness:
  "\<exists>s' W b'. commit log_ex = Some s' \<and> wtrace s' = rev W \<and>
     recover_from_log (boot_ex (wr_all (take 2 W) (\<lambda>_ _. 0))) = Some b' \<and> disk b' 40 = disk s' 40"
proof -
  have n: "lh_n log_ex \<noteq> 0" and clean: "sint (get32 (disk log_ex (unat (log_start log_ex))) 0) = 0"
    by (simp_all add: log_ex_simps get32_def)
  obtain s' W where c: "commit log_ex = Some s'" "wtrace s' = rev W @ wtrace log_ex"
    and all: "\<forall>k q (b :: logst). fresh q b \<and> log_start b = log_start log_ex \<and> disk b = wr_all (take k W) (disk log_ex) \<longrightarrow>
      (\<exists>b'. recover_from_log b = Some b' \<and> (\<forall>m. m \<notin> log_area log_ex \<longrightarrow>
        disk b' (unat m) = (if k \<le> nat (lh_n log_ex) then disk log_ex (unat m) else disk s' (unat m))))"
    using commit_crash_atomic[OF log_ex_rinv n clean] by blast
  let ?b = "boot_ex (wr_all (take 2 W) (\<lambda>_ _. 0))"
  obtain b' where b': "recover_from_log ?b = Some b'" "\<forall>m. m \<notin> log_area log_ex \<longrightarrow> disk b' (unat m) = disk s' (unat m)"
    using all[rule_format, of 0 ?b 2] fresh_boot_ex by (auto simp: log_ex_simps)
  then have "disk b' (unat (40 :: u32)) = disk s' (unat (40 :: u32))" using log_ex_simps(7) by blast
  then show ?thesis using c b'(1) by (simp add: log_ex_simps)
qed

end
