(* ===== verification/FsFacts.thy ===== *)
theory FsFacts
  imports Fs LogCrash
begin

text \<open>
  Facts about \<^verbatim>\<open>kernel/fs.c\<close> that do not involve the disk: the encodings of inodes and directory
  entries, the free bitmap, and the splitting of path names.
\<close>

section \<open>Inodes on disk\<close>

lemma get_put_addrs:
  "get32 (fold (\<lambda>i d. put32 (f i) (a + 12 + 4 * i) d) is d) (a + 12 + 4 * j)
     = (if j \<in> set is then f j else get32 d (a + 12 + 4 * j))"
proof (induction "is" arbitrary: d)
  case (Cons i "is")
  have "get32 (put32 (f i) (a + 12 + 4 * i) d) (a + 12 + 4 * j) = (if i = j then f j else get32 d (a + 12 + 4 * j))"
    by (cases i j rule: linorder_cases) auto
  then show ?case using Cons by auto
qed simp

lemma put_addrs_below:
  "x < a + 12 \<Longrightarrow> fold (\<lambda>i d. put32 (f i) (a + 12 + 4 * i) d) is d x = d x"
  by (induction "is" arbitrary: d) auto

lemma put_addrs_above:
  "(\<And>i. i \<in> set is \<Longrightarrow> i \<le> 12) \<Longrightarrow> a + 64 \<le> x \<Longrightarrow> fold (\<lambda>i d. put32 (f i) (a + 12 + 4 * i) d) is d x = d x"
proof (induction "is" arbitrary: d)
  case (Cons i "is")
  have "i \<le> 12" using Cons.prems(1) by simp
  then have "a + 12 + 4 * i + 4 \<le> x" using Cons.prems(2) by simp
  then show ?case using Cons by simp
qed simp

lemma get16_put_addrs: "j + 2 \<le> a + 12 \<Longrightarrow> get16 (fold (\<lambda>i d. put32 (f i) (a + 12 + 4 * i) d) is d) j = get16 d j"
  by (simp add: get16_def put_addrs_below)

lemma get32_put_addrs: "j + 4 \<le> a + 12 \<Longrightarrow> get32 (fold (\<lambda>i d. put32 (f i) (a + 12 + 4 * i) d) is d) j = get32 d j"
  by (simp add: get32_def put_addrs_below)

lemma put_dinode_outside:
  assumes "x < dip_at (inum y) \<or> dip_at (inum y) + 64 \<le> x"
  shows "put_dinode y d x = d x"
proof -
  let ?a = "dip_at (inum y)"
  have "fold (\<lambda>i d. put32 (iaddrs y i) (?a + 12 + 4 * i) d) [0..<NDIRECT + 1] e x = e x" for e
    using assms put_addrs_below[of x ?a] put_addrs_above[of "[0..<NDIRECT + 1]" ?a x] by (auto simp: NDIRECT_def)
  then show ?thesis unfolding put_dinode_def Let_def using assms by auto
qed

lemma get_put_dinode:
  assumes "inum x = inum y"
  shows "get_dinode (put_dinode y d) x =
    x\<lparr>itype := itype y, imajor := imajor y, iminor := iminor y, inlink := inlink y, isize := isize y,
      iaddrs := (\<lambda>i. if i \<le> NDIRECT then iaddrs y i else iaddrs x i)\<rparr>"
  using assms unfolding get_dinode_def put_dinode_def Let_def
  by (simp add: get16_put_addrs get32_put_addrs get_put_addrs fun_eq_iff NDIRECT_def del: upt_Suc fold_simps)

lemma dip_at_disjoint:
  assumes "unat m mod IPB \<noteq> unat n mod IPB"
  shows "dip_at m + 64 \<le> dip_at n \<or> dip_at n + 64 \<le> dip_at m"
  using assms by (auto simp: dip_at_def)

lemma get_dinode_cong:
  "(\<And>i. dip_at (inum x) \<le> i \<Longrightarrow> i < dip_at (inum x) + 64 \<Longrightarrow> d i = e i) \<Longrightarrow> get_dinode d x = get_dinode e x"
  by (auto simp: get_dinode_def Let_def get16_def get32_def NDIRECT_def fun_eq_iff)

text \<open>
  C20. Inodes round-trip through their disk blocks. What \<^verbatim>\<open>iupdate\<close> stores for an inode is what
  \<^verbatim>\<open>ilock\<close> loads for it, in every field that lives on the disk; the other fifteen inodes of the
  block are untouched.
\<close>

theorem dinode_roundtrip:
  "(inum x = inum y \<longrightarrow> get_dinode (put_dinode y d) x =
      x\<lparr>itype := itype y, imajor := imajor y, iminor := iminor y, inlink := inlink y, isize := isize y,
        iaddrs := (\<lambda>i. if i \<le> NDIRECT then iaddrs y i else iaddrs x i)\<rparr>)
   \<and> (unat (inum x) mod IPB \<noteq> unat (inum y) mod IPB \<longrightarrow> get_dinode (put_dinode y d) x = get_dinode d x)"
proof (intro conjI impI)
  assume "unat (inum x) mod IPB \<noteq> unat (inum y) mod IPB"
  then show "get_dinode (put_dinode y d) x = get_dinode d x"
    using dip_at_disjoint[of "inum x" "inum y"] by (intro get_dinode_cong put_dinode_outside) auto
qed (rule get_put_dinode)

definition inode_ex :: inode where
  "inode_ex = \<lparr>idev = 1, inum = 17, iref = 1, ivalid = True, itype = T_FILE, imajor = 0, iminor = 0, inlink = 1,
     isize = 600, iaddrs = (\<lambda>i. if i = 0 then 45 else 0)\<rparr>"

theorem dinode_roundtrip_witness:
  "isize (get_dinode (put_dinode inode_ex (\<lambda>_. 0)) (inode_ex\<lparr>isize := 0, ivalid := False\<rparr>)) = 600 \<and>
   get_dinode (put_dinode inode_ex (\<lambda>_. 0)) (inode_ex\<lparr>inum := 18\<rparr>) = get_dinode (\<lambda>_. 0) (inode_ex\<lparr>inum := 18\<rparr>)"
  using dinode_roundtrip[of "inode_ex\<lparr>isize := 0, ivalid := False\<rparr>" inode_ex "\<lambda>_. 0"]
    dinode_roundtrip[of "inode_ex\<lparr>inum := 18\<rparr>" inode_ex "\<lambda>_. 0"]
  by (simp add: inode_ex_def IPB_def BSIZE_def)

section \<open>Directory entries\<close>

lemma de_inum_mk: "de_inum (mk_dirent n name) = n"
proof -
  have "get16 (\<lambda>i. mk_dirent n name ! i) 0 = get16 (put16 n 0 (\<lambda>_. 0)) 0"
    by (simp add: get16_def mk_dirent_def)
  then show ?thesis by (simp add: de_inum_def)
qed

lemma de_name_mk: "i < DIRSIZ \<Longrightarrow> de_name (mk_dirent n name) i = strncpy (\<lambda>_. 0) name (int DIRSIZ) i"
  by (simp add: de_name_def mk_dirent_def nth_append)

lemma namecmp_eq_0: "namecmp p q = 0 \<longleftrightarrow> (\<forall>k<DIRSIZ. (\<forall>j<k. p j \<noteq> 0) \<longrightarrow> p k = q k)"
  by (simp add: namecmp_def strncmp_def strncmp_at_eq_0_iff)

definition nthz :: "u8 list \<Rightarrow> nat \<Rightarrow> u8" where
  "nthz xs i = (if i < length xs then xs ! i else 0)"

lemma nthz_simps [simp]: "nthz [] i = 0" "nthz (x # xs) 0 = x" "nthz (x # xs) (Suc i) = nthz xs i"
  by (simp_all add: nthz_def)

lemma nthz_eq_iff:
  assumes "0 \<notin> set xs" and "0 \<notin> set ys"
  shows "(\<forall>k<n. k \<le> length ys \<longrightarrow> nthz ys k = nthz xs k) \<longleftrightarrow> take n ys = take n xs"
  using assms
proof (induction ys arbitrary: xs n)
  case Nil
  then show ?case by (cases xs) auto
next
  case (Cons y ys)
  show ?case
  proof (cases n)
    case (Suc m)
    have "(\<forall>k<n. k \<le> length (y # ys) \<longrightarrow> nthz (y # ys) k = nthz xs k) \<longleftrightarrow>
        y = nthz xs 0 \<and> (\<forall>k<m. k \<le> length ys \<longrightarrow> nthz ys k = nthz xs (Suc k))"
      by (auto simp: Suc All_less_Suc2 simp del: All_less_Suc)
    then show ?thesis using Cons Suc by (cases xs) auto
  qed simp
qed

lemma is_cstr_nthz: "is_cstr p xs \<Longrightarrow> i \<le> length xs \<Longrightarrow> p i = nthz xs i"
  by (auto simp: is_cstr_def nthz_def)

lemma is_cstr_nonzero: "is_cstr p xs \<Longrightarrow> 0 \<notin> set xs"
  by (auto simp: is_cstr_def in_set_conv_nth)

lemma is_cstr_prefix:
  assumes "is_cstr p xs"
  shows "(\<forall>j<k. p j \<noteq> 0) \<longleftrightarrow> k \<le> length xs"
proof
  assume "\<forall>j<k. p j \<noteq> 0"
  moreover have "p (length xs) = 0" using assms by (simp add: is_cstr_def)
  ultimately show "k \<le> length xs" using leI by blast
next
  assume "k \<le> length xs"
  then show "\<forall>j<k. p j \<noteq> 0" using assms by (simp add: is_cstr_def)
qed

text \<open>
  C21. Directory entries round-trip. The sixteen bytes \<^verbatim>\<open>dirlink\<close> writes for a name and an inode
  number are read back by \<^verbatim>\<open>dirlookup\<close> as that inode number, and \<^verbatim>\<open>namecmp\<close> matches the stored name
  with exactly the C strings that agree with it on their first \<^verbatim>\<open>DIRSIZ\<close> bytes.
\<close>

theorem dirent_roundtrip:
  assumes "is_cstr name xs" and "is_cstr other ys"
  shows "length (mk_dirent n name) = 16 \<and> de_inum (mk_dirent n name) = n \<and>
    (namecmp other (de_name (mk_dirent n name)) = 0 \<longleftrightarrow> take DIRSIZ ys = take DIRSIZ xs)"
proof -
  let ?s = "de_name (mk_dirent n name)"
  have s: "?s i = nthz xs i" if "i < DIRSIZ" for i
    using strncpy_at_apply[OF assms(1), of 0 "\<lambda>_. 0" "DIRSIZ" i] that by (simp add: de_name_mk strncpy_def nthz_def)
  have pre: "(\<forall>j<k. other j \<noteq> 0) \<longleftrightarrow> k \<le> length ys" for k
    by (rule is_cstr_prefix[OF assms(2)])
  have "namecmp other ?s = 0 \<longleftrightarrow> (\<forall>k<DIRSIZ. k \<le> length ys \<longrightarrow> nthz ys k = nthz xs k)"
    using is_cstr_nthz[OF assms(2)] s by (auto simp: namecmp_eq_0 pre)
  then have "namecmp other ?s = 0 \<longleftrightarrow> take DIRSIZ ys = take DIRSIZ xs"
    using nthz_eq_iff is_cstr_nonzero[OF assms(1)] is_cstr_nonzero[OF assms(2)] by simp
  then show ?thesis by (simp add: de_inum_mk) (simp add: mk_dirent_def DIRSIZ_def)
qed

definition name_ex :: carr where
  "name_ex = (\<lambda>_. 0)(0 := 97, 1 := 98)"

theorem dirent_roundtrip_witness:
  "de_inum (mk_dirent 23 name_ex) = 23 \<and> namecmp name_ex (de_name (mk_dirent 23 name_ex)) = 0"
proof -
  have "is_cstr name_ex [97, 98]" by (simp add: is_cstr_def name_ex_def less_Suc_eq)
  from dirent_roundtrip[OF this this, of 23] show ?thesis by simp
qed

section \<open>Path names\<close>

text \<open>The elements of a path: its maximal runs of bytes other than the slash.\<close>

function split_path :: "u8 list \<Rightarrow> u8 list list" where
  "split_path xs =
     (let ys = dropWhile (\<lambda>c. c = slash) xs
      in if ys = [] then [] else takeWhile (\<lambda>c. c \<noteq> slash) ys # split_path (dropWhile (\<lambda>c. c \<noteq> slash) ys))"
  by pat_completeness auto
termination
proof (relation "measure length")
  fix xs ys :: "u8 list" assume ys: "ys = dropWhile (\<lambda>c. c = slash) xs" "ys \<noteq> []"
  then have "hd ys \<noteq> slash" using hd_dropWhile[of "\<lambda>c. c = slash" xs] by simp
  then have "length (dropWhile (\<lambda>c. c \<noteq> slash) ys) < length ys"
    using ys(2) by (cases ys) (auto simp: le_imp_less_Suc length_dropWhile_le)
  moreover have "length ys \<le> length xs" unfolding ys by (rule length_dropWhile_le)
  ultimately show "(dropWhile (\<lambda>c. c \<noteq> slash) ys, xs) \<in> measure length" by simp
qed simp

declare split_path.simps [simp del]

lemma skip_while_cstr:
  assumes "is_cstr path xs" and "i \<le> length xs" and "\<not> P 0"
  shows "skip_while P path i = Some (i + length (takeWhile P (drop i xs)))"
  using assms(2)
proof (induction "length xs - i" arbitrary: i)
  case 0
  then have "path i = 0" using assms(1) by (simp add: is_cstr_def)
  then show ?case using 0 assms(3) by (subst skip_while.simps) simp
next
  case (Suc k)
  then have i: "i < length xs" by simp
  have "path i = xs ! i" using assms(1) i by (simp add: is_cstr_def)
  moreover have "drop i xs = xs ! i # drop (Suc i) xs" using i by (simp add: Cons_nth_drop_Suc)
  ultimately show ?case
    using Suc.hyps(1)[of "Suc i"] Suc.hyps(2) i by (subst skip_while.simps) auto
qed

lemma drop_takeWhile: "drop (i + length (takeWhile P (drop i xs))) xs = dropWhile P (drop i xs)"
  by (metis add.commute drop_drop dropWhile_eq_drop)

lemma dropWhile_twice: "dropWhile P (dropWhile P xs) = dropWhile P xs"
  by (induction xs) auto

lemma split_path_slashes: "split_path (dropWhile (\<lambda>c. c = slash) xs) = split_path xs"
  by (simp add: split_path.simps[of xs] split_path.simps[of "dropWhile (\<lambda>c. c = slash) xs"] dropWhile_twice Let_def)

lemma split_path_Nil_iff: "split_path (dropWhile (\<lambda>c. c = slash) xs) = [] \<longleftrightarrow> dropWhile (\<lambda>c. c = slash) xs = []"
  unfolding split_path_slashes by (simp add: split_path.simps[of xs] Let_def)


definition path_ex :: carr where
  "path_ex = (\<lambda>_. 0)(0 := 47, 1 := 97, 2 := 47, 3 := 98)"


end
