(* ===== verification/Uart.thy ===== *)
theory Uart
  imports Fs
begin

text \<open>
  The UART driver \<^verbatim>\<open>kernel/uart.c\<close>. The device itself is hardware: its state is the list
  \<open>uart_out\<close> of bytes written to the transmit register (newest first), the queue \<open>uart_rx\<close>
  of received bytes and the bit \<open>uart_idle\<close> of the line status register; \<open>uart_regs\<close> holds
  the control registers. \<^verbatim>\<open>uartputc_sync\<close> spins until the device is idle, so the state of
  that bit does not show in its result. \<^verbatim>\<open>panicking\<close> and \<^verbatim>\<open>panicked\<close> are the flags of
  \<^verbatim>\<open>kernel/printf.c\<close>.

  \<open>uartwrite_start\<close> is \<^verbatim>\<open>uartwrite\<close> up to the point where it has sent everything or
  sleeps on \<^verbatim>\<open>tx_chan\<close>; the result \<open>Some (i, ie)\<close> is the position it sleeps at.
  \<open>uartwrite_resume\<close> continues from there, \<open>uartwrite\<close> is the call that need not wait.
\<close>

record uartst = fsst +
  panicking :: bool
  panicked :: bool
  tx_busy :: bool
  uart_out :: "u8 list"
  uart_rx :: "u8 list"
  uart_idle :: bool
  uart_regs :: "nat \<Rightarrow> u8"

definition RHR :: nat where "RHR = 0"
definition THR :: nat where "THR = 0"
definition IER :: nat where "IER = 1"
definition IER_RX_ENABLE :: u8 where "IER_RX_ENABLE = push_bit 0 1"
definition IER_TX_ENABLE :: u8 where "IER_TX_ENABLE = push_bit 1 1"
definition FCR :: nat where "FCR = 2"
definition FCR_FIFO_ENABLE :: u8 where "FCR_FIFO_ENABLE = push_bit 0 1"
definition FCR_FIFO_CLEAR :: u8 where "FCR_FIFO_CLEAR = push_bit 1 3"
definition ISR :: nat where "ISR = 2"
definition LCR :: nat where "LCR = 3"
definition LCR_EIGHT_BITS :: u8 where "LCR_EIGHT_BITS = push_bit 0 3"
definition LCR_BAUD_LATCH :: u8 where "LCR_BAUD_LATCH = push_bit 7 1"

definition WriteReg :: "nat \<Rightarrow> u8 \<Rightarrow> 'z uartst_scheme \<Rightarrow> 'z uartst_scheme" where
  "WriteReg r v s = s\<lparr>uart_regs := (uart_regs s)(r := v)\<rparr>"

definition write_thr :: "u8 \<Rightarrow> 'z uartst_scheme \<Rightarrow> 'z uartst_scheme" where
  "write_thr c s = s\<lparr>uart_out := c # uart_out s\<rparr>"

definition uartinit :: "'z uartst_scheme \<Rightarrow> 'z uartst_scheme" where
  "uartinit s =
     (let s = WriteReg IER 0 s;
          s = WriteReg LCR LCR_BAUD_LATCH s;
          s = WriteReg 0 3 s;
          s = WriteReg 1 0 s;
          s = WriteReg LCR LCR_EIGHT_BITS s;
          s = WriteReg FCR (FCR_FIFO_ENABLE OR FCR_FIFO_CLEAR) s;
          s = WriteReg IER (IER_TX_ENABLE OR IER_RX_ENABLE) s
      in s\<lparr>lk := initlock TxLock ''uart'' (lk s)\<rparr>)"

function uartwrite_loop ::
  "u8 list \<Rightarrow> nat \<Rightarrow> 'z uartst_scheme \<Rightarrow> ((nat \<times> bool) option \<times> 'z uartst_scheme) option" where
  "uartwrite_loop buf i s =
     (if i < length buf then
        (if tx_busy s then do {
           (ie, s) \<leftarrow> sleep_out (Some ChanTx) TxLock s;
           Some (Some (i, ie), s)
         } else do {
           let s = write_thr (buf ! i) s;
           let s = s\<lparr>tx_busy := True\<rparr>;
           uartwrite_loop buf (i + 1) s
         })
      else do {
        s \<leftarrow> release TxLock s;
        Some (None, s)
      })"
  by pat_completeness auto
termination
  by (relation "measure (\<lambda>(buf, i, s). length buf - i)") auto

definition uartwrite_start :: "u8 list \<Rightarrow> 'z uartst_scheme \<Rightarrow> ((nat \<times> bool) option \<times> 'z uartst_scheme) option" where
  "uartwrite_start buf s = do {
     s \<leftarrow> acquire TxLock s;
     uartwrite_loop buf 0 s
   }"

definition uartwrite_resume ::
  "nat \<Rightarrow> u8 list \<Rightarrow> nat \<times> bool \<Rightarrow> 'z uartst_scheme \<Rightarrow> ((nat \<times> bool) option \<times> 'z uartst_scheme) option" where
  "uartwrite_resume p buf w s = do {
     s \<leftarrow> sleep_in p TxLock (snd w) s;
     uartwrite_loop buf (fst w) s
   }"

definition uartwrite :: "u8 list \<Rightarrow> 'z uartst_scheme \<Rightarrow> 'z uartst_scheme option" where
  "uartwrite buf s = do {
     (w, s) \<leftarrow> uartwrite_start buf s;
     (case w of None \<Rightarrow> Some s | Some _ \<Rightarrow> None)
   }"

definition uartputc_sync :: "int \<Rightarrow> 'z uartst_scheme \<Rightarrow> 'z uartst_scheme option" where
  "uartputc_sync c s = do {
     let s = (if \<not> panicking s then s\<lparr>lk := push_off (lk s)\<rparr> else s);
     if panicked s then None
     else do {
       let s = write_thr (word_of_int c) s;
       if \<not> panicking s then do {
         l \<leftarrow> pop_off (lk s);
         Some (s\<lparr>lk := l\<rparr>)
       } else Some s
     }
   }"

definition uartgetc :: "'z uartst_scheme \<Rightarrow> int \<times> 'z uartst_scheme" where
  "uartgetc s = (case uart_rx s of [] \<Rightarrow> (-1, s) | c # cs \<Rightarrow> (uint c, s\<lparr>uart_rx := cs\<rparr>))"

text \<open>The first half of \<^verbatim>\<open>uartintr\<close>: the transmitter is ready again.\<close>

definition uartintr_tx :: "'z uartst_scheme \<Rightarrow> 'z uartst_scheme option" where
  "uartintr_tx s = do {
     s \<leftarrow> acquire TxLock s;
     s \<leftarrow> (if uart_idle s then wakeup (Some ChanTx) (s\<lparr>tx_busy := False\<rparr>) else Some s);
     release TxLock s
   }"

end
