(* ===== verification/Printf.thy ===== *)
theory Printf
  imports Uart
begin

text \<open>
  The formatter of \<^verbatim>\<open>kernel/printf.c\<close>, \<^verbatim>\<open>consputc\<close> of \<^verbatim>\<open>kernel/console.c\<close> and
  \<^verbatim>\<open>procdump\<close> of \<^verbatim>\<open>kernel/proc.c\<close>. A format is a list of bytes without NUL; reading past its
  end gives the terminating NUL. The variable arguments are a list: 64-bit values, of which the
  32-bit conversions use the low half, and strings, \<open>None\<close> being the null pointer. A conversion
  without an argument is undefined in C and has no result here. \<open>printf_out\<close> is the sequence of
  arguments to \<^verbatim>\<open>consputc\<close>.
\<close>

definition BACKSPACE :: int where "BACKSPACE = 0x100"

definition consputc :: "int \<Rightarrow> 'z uartst_scheme \<Rightarrow> 'z uartst_scheme option" where
  "consputc c s =
     (if c = BACKSPACE then do {
        s \<leftarrow> uartputc_sync 8 s;
        s \<leftarrow> uartputc_sync 32 s;
        uartputc_sync 8 s
      } else uartputc_sync c s)"

fun consputs :: "int list \<Rightarrow> 'z uartst_scheme \<Rightarrow> 'z uartst_scheme option" where
  "consputs [] s = Some s"
| "consputs (c # cs) s = do {
     s \<leftarrow> consputc c s;
     consputs cs s
   }"

section \<open>Numbers\<close>

datatype radix = Dec | Hex

fun base :: "radix \<Rightarrow> nat" where
  "base Dec = 10"
| "base Hex = 16"

definition digit :: "nat \<Rightarrow> int" where
  "digit d = (if d < 10 then 48 + int d else 87 + int d)"

function printint_buf :: "radix \<Rightarrow> nat \<Rightarrow> int list" where
  "printint_buf r x = digit (x mod base r) # (if x div base r \<noteq> 0 then printint_buf r (x div base r) else [])"
  by pat_completeness auto
termination
proof (relation "measure snd")
  fix r x assume "x div base r \<noteq> 0"
  then have "0 < x" "1 < base r" by (auto intro: gr0I simp: base.elims) (cases r; simp)
  then show "((r, x div base r), r, x) \<in> measure snd" by simp
qed simp

declare printint_buf.simps [simp del]

text \<open>\<open>printint\<close> yields the characters in the order they are printed.\<close>

definition printint :: "u64 \<Rightarrow> radix \<Rightarrow> bool \<Rightarrow> int list" where
  "printint xx r sign =
     (let sign = (sign \<and> sint xx < 0);
          x = (if sign then - xx else xx);
          buf = printint_buf r (unat x) @ (if sign then [45] else [])
      in rev buf)"

definition printptr :: "u64 \<Rightarrow> int list" where
  "printptr x = [48, 120] @ map (\<lambda>i. digit (unat (drop_bit 60 (push_bit (4 * i) x)))) [0..<16]"

section \<open>Formats\<close>

datatype parg = PVal u64 | PStr "u8 list option"

fun va_u64 :: "parg list \<Rightarrow> (u64 \<times> parg list) option" where
  "va_u64 (PVal v # ap) = Some (v, ap)"
| "va_u64 _ = None"

fun va_str :: "parg list \<Rightarrow> (u8 list \<times> parg list) option" where
  "va_str (PStr (Some p) # ap) = Some (p, ap)"
| "va_str (PStr None # ap) = Some ([40, 110, 117, 108, 108, 41], ap)"
| "va_str _ = None"

definition at :: "u8 list \<Rightarrow> nat \<Rightarrow> u8" where
  "at fmt i = (if i < length fmt then fmt ! i else 0)"

definition sext32 :: "u64 \<Rightarrow> u64" where
  "sext32 v = word_of_int (sint (ucast v :: u32))"

definition zext32 :: "u64 \<Rightarrow> u64" where
  "zext32 v = ucast (ucast v :: u32)"

text \<open>One conversion: the characters it prints, how many format bytes after \<^verbatim>\<open>%\<close> it uses (\<open>None\<close>
  stops the output) and the remaining arguments.\<close>

definition conv :: "u8 list \<Rightarrow> parg list \<Rightarrow> (int list \<times> nat option \<times> parg list) option" where
  "conv fmt ap =
     (let c0 = at fmt 0;
          c1 = (if c0 \<noteq> 0 then at fmt 1 else 0);
          c2 = (if c1 \<noteq> 0 then at fmt 2 else 0);
          num = (\<lambda>f r sign k. do { (v, ap) \<leftarrow> va_u64 ap; Some (printint (f v) r sign, Some k, ap) })
      in if c0 = 100 then num sext32 Dec True 1
         else if c0 = 108 \<and> c1 = 100 then num id Dec True 2
         else if c0 = 108 \<and> c1 = 108 \<and> c2 = 100 then num id Dec True 3
         else if c0 = 117 then num zext32 Dec False 1
         else if c0 = 108 \<and> c1 = 117 then num id Dec False 2
         else if c0 = 108 \<and> c1 = 108 \<and> c2 = 117 then num id Dec False 3
         else if c0 = 120 then num zext32 Hex False 1
         else if c0 = 108 \<and> c1 = 120 then num id Hex False 2
         else if c0 = 108 \<and> c1 = 108 \<and> c2 = 120 then num id Hex False 3
         else if c0 = 112 then do { (v, ap) \<leftarrow> va_u64 ap; Some (printptr v, Some 1, ap) }
         else if c0 = 99 then do { (v, ap) \<leftarrow> va_u64 ap; Some ([sint (ucast v :: u32)], Some 1, ap) }
         else if c0 = 115 then do { (p, ap) \<leftarrow> va_str ap; Some (map uint p, Some 1, ap) }
         else if c0 = 37 then Some ([37], Some 1, ap)
         else if c0 = 0 then Some ([], None, ap)
         else Some ([37, uint c0], Some 1, ap))"

function printf_out :: "u8 list \<Rightarrow> parg list \<Rightarrow> int list option" where
  "printf_out [] ap = Some []"
| "printf_out (cx # fmt) ap =
     (if cx \<noteq> 37 then do {
        out \<leftarrow> printf_out fmt ap;
        Some (uint cx # out)
      } else do {
        (cs, k, ap) \<leftarrow> conv fmt ap;
        (case k of
           None \<Rightarrow> Some cs
         | Some k \<Rightarrow> do {
             out \<leftarrow> printf_out (drop k fmt) ap;
             Some (cs @ out)
           })
      })"
  by pat_completeness auto
termination
  by (relation "measure (\<lambda>(fmt, ap). length fmt)") auto

definition kprintf :: "u8 list \<Rightarrow> parg list \<Rightarrow> 'z uartst_scheme \<Rightarrow> 'z uartst_scheme option" where
  "kprintf fmt ap s = do {
     s \<leftarrow> (if \<not> panicking s then acquire PrLock s else Some s);
     out \<leftarrow> printf_out fmt ap;
     s \<leftarrow> consputs out s;
     if \<not> panicking s then release PrLock s else Some s
   }"

definition printfinit :: "'z uartst_scheme \<Rightarrow> 'z uartst_scheme" where
  "printfinit s = s\<lparr>lk := initlock PrLock ''pr'' (lk s)\<rparr>"

section \<open>procdump\<close>

definition bytes :: "string \<Rightarrow> u8 list" where
  "bytes cs = map (\<lambda>c. of_nat (of_char c)) cs"

fun state_name :: "procstate \<Rightarrow> string" where
  "state_name UNUSED = ''unused''"
| "state_name USED = ''used''"
| "state_name SLEEPING = ''sleep ''"
| "state_name RUNNABLE = ''runble''"
| "state_name RUNNING = ''run   ''"
| "state_name ZOMBIE = ''zombie''"

text \<open>The name of a process as a C string; \<^verbatim>\<open>p->name\<close> is always terminated within 16 bytes.\<close>

definition cname :: "carr \<Rightarrow> u8 list" where
  "cname a = takeWhile (\<lambda>c. c \<noteq> 0) (map a [0..<16])"

fun procdump_from :: "nat list \<Rightarrow> 'z uartst_scheme \<Rightarrow> 'z uartst_scheme option" where
  "procdump_from [] s = Some s"
| "procdump_from (p # ps) s =
     (if pstate (procs s p) = UNUSED then procdump_from ps s
      else do {
        s \<leftarrow> kprintf (bytes ''%d %s %s'') [PVal (word_of_int (pid (procs s p))),
               PStr (Some (bytes (state_name (pstate (procs s p))))), PStr (Some (cname (pname (procs s p))))] s;
        s \<leftarrow> kprintf [10] [] s;
        procdump_from ps s
      })"

definition procdump :: "'z uartst_scheme \<Rightarrow> 'z uartst_scheme option" where
  "procdump s = do {
     s \<leftarrow> kprintf [10] [] s;
     procdump_from [0..<NPROC] s
   }"

section \<open>Properties\<close>

text \<open>The number a digit string denotes, most significant digit first.\<close>

definition undigit :: "int \<Rightarrow> nat" where
  "undigit c = nat (if c < 58 then c - 48 else c - 87)"

definition numeral_value :: "radix \<Rightarrow> int list \<Rightarrow> nat" where
  "numeral_value r cs = fold (\<lambda>c v. base r * v + undigit c) cs 0"

lemma undigit_digit: "d < 16 \<Longrightarrow> undigit (digit d) = d"
  by (simp add: undigit_def digit_def)

lemma base_bounds: "1 < base r" "base r \<le> 16"
  by (cases r; simp)+

lemma numeral_value_snoc: "numeral_value r (cs @ [c]) = base r * numeral_value r cs + undigit c"
  by (simp add: numeral_value_def)

lemma numeral_value_buf: "numeral_value r (rev (printint_buf r x)) = x"
proof (induction r x rule: printint_buf.induct)
  case (1 r x)
  have "x mod base r < 16" using base_bounds[of r] by (meson less_le_trans mod_less_divisor zero_less_one less_trans)
  then have "undigit (digit (x mod base r)) = x mod base r" by (rule undigit_digit)
  moreover have "x div base r = 0 \<Longrightarrow> x mod base r = x" by (metis mult_0_right add_0 mult_div_mod_eq)
  ultimately show ?case
    using 1 by (subst printint_buf.simps) (auto simp: numeral_value_snoc numeral_value_def[of r "[]"])
qed

lemma length_printint_buf: "x < base r ^ k \<Longrightarrow> 0 < k \<Longrightarrow> length (printint_buf r x) \<le> k"
proof (induction r x arbitrary: k rule: printint_buf.induct)
  case (1 r x)
  show ?case
  proof (cases "x div base r = 0")
    case True
    then show ?thesis using 1 by (subst printint_buf.simps) simp
  next
    case False
    then obtain j where k: "k = Suc j" "0 < j"
      using 1(2,3) base_bounds(1)[of r] by (cases k; cases "k - 1") auto
    have "x div base r < base r ^ j" using 1(2) k by (simp add: less_mult_imp_div_less mult.commute)
    then show ?thesis using 1(1)[OF False _ k(2)] False k by (subst printint_buf.simps) simp
  qed
qed

lemma u64_len: "LENGTH(64) = 64"
  by simp

lemma unat_minus_neg: "sint (x :: u64) < 0 \<Longrightarrow> int (unat (- x)) = - sint x"
proof -
  assume neg: "sint x < 0"
  have lo: "- (2 ^ 63) \<le> sint x" using sint_ge[of x] by simp
  have "- x = word_of_int (- sint x)" by simp
  then have "uint (- x) = (- sint x) mod 2 ^ 64" by (metis uint_word_of_int u64_len)
  also have "\<dots> = - sint x" using neg lo by (intro mod_pos_pos_trivial) auto
  finally show ?thesis by simp
qed



end
