(* ===== verification/Console.thy ===== *)
theory Console
  imports Printf
begin

text \<open>
  The console, \<^verbatim>\<open>kernel/console.c\<close>: the input ring with its read, write and edit indices, the
  line discipline of the interrupt handler and the device read and write functions.

  \<open>consoleread_start\<close> is \<^verbatim>\<open>consoleread\<close> up to its return or its first wait for input; a
  waiting call is described by the destination and count it continues with.
  \<open>consoleread\<close> and \<open>consolewrite\<close> are the calls that need not wait.
\<close>

definition INPUT_BUF_SIZE :: nat where "INPUT_BUF_SIZE = 128"

record consst = uartst +
  cons_buf :: carr
  cons_r :: u32
  cons_w :: u32
  cons_e :: u32

definition ctrl :: "char \<Rightarrow> int" where
  "ctrl x = int (of_char x) - 64"

definition ring_at :: "u32 \<Rightarrow> nat" where
  "ring_at i = unat i mod INPUT_BUF_SIZE"

section \<open>Writing\<close>

function consolewrite_loop :: "csrc \<Rightarrow> nat \<Rightarrow> nat \<Rightarrow> 'z consst_scheme \<Rightarrow> (nat \<times> 'z consst_scheme) option" where
  "consolewrite_loop src n i s =
     (if i < n then
        (let nn = min 32 (n - i)
         in do {
           (r, buf, s) \<leftarrow> either_copyin (csrc_add src i) nn s;
           if r = -1 then Some (i, s)
           else do {
             s \<leftarrow> uartwrite buf s;
             consolewrite_loop src n (i + nn) s
           }
         })
      else Some (i, s))"
  by pat_completeness auto
termination
  by (relation "measure (\<lambda>(src, n, i, s). n - i)") auto

declare consolewrite_loop.simps [simp del]

definition consolewrite :: "csrc \<Rightarrow> int \<Rightarrow> 'z consst_scheme \<Rightarrow> (int \<times> 'z consst_scheme) option" where
  "consolewrite src n s = do {
     (i, s) \<leftarrow> consolewrite_loop src (nat n) 0 s;
     Some (int i, s)
   }"

section \<open>Reading\<close>

datatype cons_ret = Ret int | Wait cdst int bool

text \<open>\<open>target\<close> is the count the call was made with.\<close>

function consoleread_loop ::
  "int \<Rightarrow> cdst \<Rightarrow> int \<Rightarrow> 'z consst_scheme \<Rightarrow> (cons_ret \<times> 'z consst_scheme) option" where
  "consoleread_loop target dst n s =
     (if n > 0 then
        (if cons_r s = cons_w s then do {
           (me, s) \<leftarrow> myproc s;
           p \<leftarrow> me;
           (k, s) \<leftarrow> killed p s;
           if k then do {
             s \<leftarrow> release ConsLock s;
             Some (Ret (-1), s)
           } else do {
             (ie, s) \<leftarrow> sleep_out (Some ChanConsR) ConsLock s;
             Some (Wait dst n ie, s)
           }
         } else do {
           let c = cons_buf s (ring_at (cons_r s));
           let s = s\<lparr>cons_r := cons_r s + 1\<rparr>;
           if uint c = ctrl CHR ''D'' then do {
             let s = (if n < target then s\<lparr>cons_r := cons_r s - 1\<rparr> else s);
             s \<leftarrow> release ConsLock s;
             Some (Ret (target - n), s)
           } else do {
             (r, s) \<leftarrow> either_copyout dst [c] s;
             if r = -1 then do {
               s \<leftarrow> release ConsLock s;
               Some (Ret (target - n), s)
             } else if c = 10 then do {
               s \<leftarrow> release ConsLock s;
               Some (Ret (target - (n - 1)), s)
             } else consoleread_loop target (cdst_add dst 1) (n - 1) s
           }
         })
      else do {
        s \<leftarrow> release ConsLock s;
        Some (Ret (target - n), s)
      })"
  by pat_completeness auto
termination
  by (relation "measure (\<lambda>(target, dst, n, s). nat n)") auto

declare consoleread_loop.simps [simp del]

definition consoleread_start :: "cdst \<Rightarrow> int \<Rightarrow> 'z consst_scheme \<Rightarrow> (cons_ret \<times> 'z consst_scheme) option" where
  "consoleread_start dst n s = do {
     s \<leftarrow> acquire ConsLock s;
     consoleread_loop n dst n s
   }"

definition consoleread_resume ::
  "nat \<Rightarrow> int \<Rightarrow> cdst \<Rightarrow> int \<Rightarrow> bool \<Rightarrow> 'z consst_scheme \<Rightarrow> (cons_ret \<times> 'z consst_scheme) option" where
  "consoleread_resume p target dst n ie s = do {
     s \<leftarrow> sleep_in p ConsLock ie s;
     consoleread_loop target dst n s
   }"

definition consoleread :: "cdst \<Rightarrow> int \<Rightarrow> 'z consst_scheme \<Rightarrow> (int \<times> 'z consst_scheme) option" where
  "consoleread dst n s = do {
     (w, s) \<leftarrow> consoleread_start dst n s;
     (case w of Ret r \<Rightarrow> Some (r, s) | Wait _ _ _ \<Rightarrow> None)
   }"

section \<open>Input interrupt\<close>

partial_function (option) kill_line :: "'z consst_scheme \<Rightarrow> 'z consst_scheme option" where
  "kill_line s =
     (if cons_e s \<noteq> cons_w s \<and> cons_buf s (ring_at (cons_e s - 1)) \<noteq> 10 then do {
        s \<leftarrow> consputc BACKSPACE (s\<lparr>cons_e := cons_e s - 1\<rparr>);
        kill_line s
      } else Some s)"

definition cons_store :: "int \<Rightarrow> 'z consst_scheme \<Rightarrow> 'z consst_scheme option" where
  "cons_store c s =
     (if c \<noteq> 0 \<and> unat (cons_e s - cons_r s) < INPUT_BUF_SIZE then do {
        let c = (if c = 13 then 10 else c);
        s \<leftarrow> consputc c s;
        let s = s\<lparr>cons_buf := (cons_buf s)(ring_at (cons_e s) := word_of_int c), cons_e := cons_e s + 1\<rparr>;
        if c = 10 \<or> c = ctrl CHR ''D'' \<or> unat (cons_e s - cons_r s) = INPUT_BUF_SIZE
        then wakeup (Some ChanConsR) (s\<lparr>cons_w := cons_e s\<rparr>)
        else Some s
      } else Some s)"

definition consoleintr :: "int \<Rightarrow> 'z consst_scheme \<Rightarrow> 'z consst_scheme option" where
  "consoleintr c s = do {
     s \<leftarrow> acquire ConsLock s;
     s \<leftarrow> (if c = ctrl CHR ''P'' then procdump s
          else if c = ctrl CHR ''U'' then kill_line s
          else if c = ctrl CHR ''H'' \<or> c = 127 then
            (if cons_e s \<noteq> cons_w s then consputc BACKSPACE (s\<lparr>cons_e := cons_e s - 1\<rparr>) else Some s)
          else cons_store c s);
     release ConsLock s
   }"

partial_function (option) uartintr_rx :: "'z consst_scheme \<Rightarrow> 'z consst_scheme option" where
  "uartintr_rx s =
     (let (c, s) = uartgetc s
      in if c = -1 then Some s
         else do {
           s \<leftarrow> consoleintr c s;
           uartintr_rx s
         })"

definition uartintr :: "'z consst_scheme \<Rightarrow> 'z consst_scheme option" where
  "uartintr s = do {
     s \<leftarrow> uartintr_tx s;
     uartintr_rx s
   }"

end
