(* ===== verification/Pipe.thy ===== *)
theory Pipe
  imports Console
begin

text \<open>
  Pipes, \<^verbatim>\<open>kernel/pipe.c\<close>. A pipe is named by the address of the page \<^verbatim>\<open>kalloc\<close> returned for
  it; the structure in that page is the entry of the table \<open>pipes\<close>. \<^verbatim>\<open>nread\<close> and \<^verbatim>\<open>nwrite\<close>
  count modulo \<open>2 ^ 32\<close> and index the ring modulo \<^verbatim>\<open>PIPESIZE\<close>.

  The \<open>_start\<close> and \<open>_resume\<close> forms split a blocking call at its \<^verbatim>\<open>sleep\<close>; the plain form
  is the call that need not wait. The allocation of a pipe is in theory \<open>File\<close>.
\<close>

definition PIPESIZE :: nat where "PIPESIZE = 512"

record pipe =
  pdata :: carr
  nread :: u32
  nwrite :: u32
  readopen :: bool
  writeopen :: bool

record pipest = consst +
  pipes :: "nat \<Rightarrow> pipe"

definition upd_pipe :: "nat \<Rightarrow> (pipe \<Rightarrow> pipe) \<Rightarrow> 'z pipest_scheme \<Rightarrow> 'z pipest_scheme" where
  "upd_pipe pi f s = s\<lparr>pipes := (pipes s)(pi := f (pipes s pi))\<rparr>"

definition pipeclose :: "nat \<Rightarrow> bool \<Rightarrow> 'z pipest_scheme \<Rightarrow> 'z pipest_scheme option" where
  "pipeclose pi writable s = do {
     s \<leftarrow> acquire (PipeLock pi) s;
     s \<leftarrow> (if writable then wakeup (Some (ChanPipeRead pi)) (upd_pipe pi (\<lambda>x. x\<lparr>writeopen := False\<rparr>) s)
          else wakeup (Some (ChanPipeWrite pi)) (upd_pipe pi (\<lambda>x. x\<lparr>readopen := False\<rparr>) s));
     let should_free = (\<not> readopen (pipes s pi) \<and> \<not> writeopen (pipes s pi));
     s \<leftarrow> release (PipeLock pi) s;
     if should_free then kfree pi s else Some s
   }"

section \<open>Write\<close>

definition pipe_can_write :: "pipe \<Rightarrow> bool" where
  "pipe_can_write x \<longleftrightarrow> nwrite x \<noteq> nread x + of_nat PIPESIZE"

definition pipe_put :: "u8 \<Rightarrow> pipe \<Rightarrow> pipe" where
  "pipe_put ch x = x\<lparr>pdata := (pdata x)(unat (nwrite x) mod PIPESIZE := ch), nwrite := nwrite x + 1\<rparr>"

datatype pipe_ret = PRet int | PWait int bool

function pipewrite_loop ::
  "nat \<Rightarrow> nat \<Rightarrow> u64 \<Rightarrow> int \<Rightarrow> int \<Rightarrow> 'z pipest_scheme \<Rightarrow> (pipe_ret \<times> 'z pipest_scheme) option" where
  "pipewrite_loop p pi addr n i s =
     (if i < n then do {
        (dead, s) \<leftarrow> (if \<not> readopen (pipes s pi) then Some (True, s) else killed p s);
        if dead then do {
          s \<leftarrow> release (PipeLock pi) s;
          Some (PRet (-1), s)
        } else if \<not> pipe_can_write (pipes s pi) then do {
          s \<leftarrow> wakeup (Some (ChanPipeRead pi)) s;
          (ie, s) \<leftarrow> sleep_out (Some (ChanPipeWrite pi)) (PipeLock pi) s;
          Some (PWait i ie, s)
        } else do {
          (r, ch, s) \<leftarrow> copyin (pagetable (procs s p)) (addr + word_of_int i) 1 s;
          if r = -1 then do {
            s \<leftarrow> wakeup (Some (ChanPipeRead pi)) s;
            s \<leftarrow> release (PipeLock pi) s;
            Some (PRet i, s)
          } else pipewrite_loop p pi addr n (i + 1) (upd_pipe pi (pipe_put (hd ch)) s)
        }
      } else do {
        s \<leftarrow> wakeup (Some (ChanPipeRead pi)) s;
        s \<leftarrow> release (PipeLock pi) s;
        Some (PRet i, s)
      })"
  by pat_completeness auto
termination
  by (relation "measure (\<lambda>(p, pi, addr, n, i, s). nat (n - i))") auto

declare pipewrite_loop.simps [simp del]

definition pipewrite_start :: "nat \<Rightarrow> u64 \<Rightarrow> int \<Rightarrow> 'z pipest_scheme \<Rightarrow> (pipe_ret \<times> 'z pipest_scheme) option" where
  "pipewrite_start pi addr n s = do {
     (me, s) \<leftarrow> myproc s;
     p \<leftarrow> me;
     s \<leftarrow> acquire (PipeLock pi) s;
     pipewrite_loop p pi addr n 0 s
   }"

definition pipewrite_resume ::
  "nat \<Rightarrow> nat \<Rightarrow> u64 \<Rightarrow> int \<Rightarrow> int \<Rightarrow> bool \<Rightarrow> 'z pipest_scheme \<Rightarrow> (pipe_ret \<times> 'z pipest_scheme) option" where
  "pipewrite_resume p pi addr n i ie s = do {
     s \<leftarrow> sleep_in p (PipeLock pi) ie s;
     pipewrite_loop p pi addr n i s
   }"

definition pipewrite :: "nat \<Rightarrow> u64 \<Rightarrow> int \<Rightarrow> 'z pipest_scheme \<Rightarrow> (int \<times> 'z pipest_scheme) option" where
  "pipewrite pi addr n s = do {
     (w, s) \<leftarrow> pipewrite_start pi addr n s;
     (case w of PRet r \<Rightarrow> Some (r, s) | PWait _ _ \<Rightarrow> None)
   }"

section \<open>Read\<close>

definition pipe_empty :: "pipe \<Rightarrow> bool" where
  "pipe_empty x \<longleftrightarrow> nread x = nwrite x"

definition pipe_next :: "pipe \<Rightarrow> u8" where
  "pipe_next x = pdata x (unat (nread x) mod PIPESIZE)"

function piperead_copy ::
  "nat \<Rightarrow> nat \<Rightarrow> u64 \<Rightarrow> int \<Rightarrow> int \<Rightarrow> 'z pipest_scheme \<Rightarrow> (int \<times> 'z pipest_scheme) option" where
  "piperead_copy p pi addr n i s =
     (if i < n then
        (if pipe_empty (pipes s pi) then Some (i, s)
         else do {
           let ch = pipe_next (pipes s pi);
           (r, s) \<leftarrow> copyout (pagetable (procs s p)) (addr + word_of_int i) [ch] s;
           if r = -1 then Some (if i = 0 then -1 else i, s)
           else piperead_copy p pi addr n (i + 1) (upd_pipe pi (\<lambda>x. x\<lparr>nread := nread x + 1\<rparr>) s)
         })
      else Some (i, s))"
  by pat_completeness auto
termination
  by (relation "measure (\<lambda>(p, pi, addr, n, i, s). nat (n - i))") auto

declare piperead_copy.simps [simp del]

definition piperead_loop ::
  "nat \<Rightarrow> nat \<Rightarrow> u64 \<Rightarrow> int \<Rightarrow> 'z pipest_scheme \<Rightarrow> (pipe_ret \<times> 'z pipest_scheme) option" where
  "piperead_loop p pi addr n s =
     (if pipe_empty (pipes s pi) \<and> writeopen (pipes s pi) then do {
        (k, s) \<leftarrow> killed p s;
        if k then do {
          s \<leftarrow> release (PipeLock pi) s;
          Some (PRet (-1), s)
        } else do {
          (ie, s) \<leftarrow> sleep_out (Some (ChanPipeRead pi)) (PipeLock pi) s;
          Some (PWait 0 ie, s)
        }
      } else do {
        (i, s) \<leftarrow> piperead_copy p pi addr n 0 s;
        s \<leftarrow> wakeup (Some (ChanPipeWrite pi)) s;
        s \<leftarrow> release (PipeLock pi) s;
        Some (PRet i, s)
      })"

definition piperead_start :: "nat \<Rightarrow> u64 \<Rightarrow> int \<Rightarrow> 'z pipest_scheme \<Rightarrow> (pipe_ret \<times> 'z pipest_scheme) option" where
  "piperead_start pi addr n s = do {
     (me, s) \<leftarrow> myproc s;
     p \<leftarrow> me;
     s \<leftarrow> acquire (PipeLock pi) s;
     piperead_loop p pi addr n s
   }"

definition piperead_resume ::
  "nat \<Rightarrow> nat \<Rightarrow> u64 \<Rightarrow> int \<Rightarrow> bool \<Rightarrow> 'z pipest_scheme \<Rightarrow> (pipe_ret \<times> 'z pipest_scheme) option" where
  "piperead_resume p pi addr n ie s = do {
     s \<leftarrow> sleep_in p (PipeLock pi) ie s;
     piperead_loop p pi addr n s
   }"

definition piperead :: "nat \<Rightarrow> u64 \<Rightarrow> int \<Rightarrow> 'z pipest_scheme \<Rightarrow> (int \<times> 'z pipest_scheme) option" where
  "piperead pi addr n s = do {
     (w, s) \<leftarrow> piperead_start pi addr n s;
     (case w of PRet r \<Rightarrow> Some (r, s) | PWait _ _ \<Rightarrow> None)
   }"

end
