(* ===== verification/File.thy ===== *)
theory File
  imports Pipe
begin

text \<open>
  The open-file table, \<^verbatim>\<open>kernel/file.c\<close>, and the allocation of a pipe with its two files,
  \<^verbatim>\<open>pipealloc\<close> of \<^verbatim>\<open>kernel/pipe.c\<close>. A \<^verbatim>\<open>struct file *\<close> is an index into the table,
  \<open>None\<close> the null pointer. The device switch holds which function a slot is connected to; the
  console is the only device of the kernel. Calls that read or write are the ones that need not
  wait.
\<close>

datatype ftype = FD_NONE | FD_PIPE | FD_INODE | FD_DEVICE

record kfile =
  ftype :: ftype
  fref :: int
  freadable :: bool
  fwritable :: bool
  fpipe :: nat
  fip :: nat
  foff :: u32
  fmajor :: u16

datatype devfn = ConsoleDev

record filest = pipest +
  files :: "nat \<Rightarrow> kfile"
  devsw_read :: "nat \<Rightarrow> devfn option"
  devsw_write :: "nat \<Rightarrow> devfn option"

definition CONSOLE :: nat where "CONSOLE = 1"

definition upd_file :: "nat \<Rightarrow> (kfile \<Rightarrow> kfile) \<Rightarrow> 'z filest_scheme \<Rightarrow> 'z filest_scheme" where
  "upd_file f g s = s\<lparr>files := (files s)(f := g (files s f))\<rparr>"

definition consoleinit :: "'z filest_scheme \<Rightarrow> 'z filest_scheme" where
  "consoleinit s =
     (let s = s\<lparr>lk := initlock ConsLock ''cons'' (lk s)\<rparr>;
          s = uartinit s;
          s = s\<lparr>devsw_read := (devsw_read s)(CONSOLE := Some ConsoleDev)\<rparr>
      in s\<lparr>devsw_write := (devsw_write s)(CONSOLE := Some ConsoleDev)\<rparr>)"

section \<open>Table\<close>

definition fileinit :: "'z filest_scheme \<Rightarrow> 'z filest_scheme" where
  "fileinit s = s\<lparr>lk := initlock FtableLock ''ftable'' (lk s)\<rparr>"

definition file_find_free :: "'z filest_scheme \<Rightarrow> nat option \<times> 'z filest_scheme" where
  "file_find_free s =
     (case find (\<lambda>f. fref (files s f) = 0) [0..<NFILE] of
        Some f \<Rightarrow> (Some f, upd_file f (\<lambda>x. x\<lparr>fref := 1\<rparr>) s)
      | None \<Rightarrow> (None, s))"

definition filealloc :: "'z filest_scheme \<Rightarrow> (nat option \<times> 'z filest_scheme) option" where
  "filealloc s = do {
     s \<leftarrow> acquire FtableLock s;
     let (f, s) = file_find_free s;
     s \<leftarrow> release FtableLock s;
     Some (f, s)
   }"

definition filedup :: "nat \<Rightarrow> 'z filest_scheme \<Rightarrow> (nat \<times> 'z filest_scheme) option" where
  "filedup f s = do {
     s \<leftarrow> acquire FtableLock s;
     if fref (files s f) < 1 then None
     else do {
       let s = upd_file f (\<lambda>x. x\<lparr>fref := fref x + 1\<rparr>) s;
       s \<leftarrow> release FtableLock s;
       Some (f, s)
     }
   }"

definition fileclose :: "nat \<Rightarrow> 'z filest_scheme \<Rightarrow> 'z filest_scheme option" where
  "fileclose f s = do {
     s \<leftarrow> acquire FtableLock s;
     if fref (files s f) < 1 then None
     else do {
       let s = upd_file f (\<lambda>x. x\<lparr>fref := fref x - 1\<rparr>) s;
       if fref (files s f) > 0 then release FtableLock s
       else do {
         let ff = files s f;
         let s = upd_file f (\<lambda>x. x\<lparr>fref := 0, ftype := FD_NONE\<rparr>) s;
         s \<leftarrow> release FtableLock s;
         (case ftype ff of
            FD_PIPE \<Rightarrow> pipeclose (fpipe ff) (fwritable ff) s
          | FD_NONE \<Rightarrow> Some s
          | _ \<Rightarrow> do {
              s \<leftarrow> begin_op s;
              s \<leftarrow> iput (fip ff) s;
              end_op s
            })
       }
     }
   }"

definition pipealloc :: "'z filest_scheme \<Rightarrow> ((nat \<times> nat) option \<times> 'z filest_scheme) option" where
  "pipealloc s = do {
     (f0, s) \<leftarrow> filealloc s;
     (f1, s) \<leftarrow> (case f0 of None \<Rightarrow> Some (None, s) | Some _ \<Rightarrow> filealloc s);
     (pi, s) \<leftarrow> (case f1 of None \<Rightarrow> Some (0, s) | Some _ \<Rightarrow> kalloc s);
     (case (f0, f1) of
        (Some r, Some w) \<Rightarrow>
          if pi \<noteq> 0 then do {
            let s = upd_pipe pi (\<lambda>x. x\<lparr>readopen := True, writeopen := True, nread := 0, nwrite := 0\<rparr>) s;
            let s = s\<lparr>lk := initlock (PipeLock pi) ''pipe'' (lk s)\<rparr>;
            let s = upd_file r (\<lambda>x. x\<lparr>ftype := FD_PIPE, freadable := True, fwritable := False, fpipe := pi\<rparr>) s;
            let s = upd_file w (\<lambda>x. x\<lparr>ftype := FD_PIPE, freadable := False, fwritable := True, fpipe := pi\<rparr>) s;
            Some (Some (r, w), s)
          } else do {
            s \<leftarrow> fileclose r s;
            s \<leftarrow> fileclose w s;
            Some (None, s)
          }
      | (Some r, None) \<Rightarrow> do {
          s \<leftarrow> fileclose r s;
          Some (None, s)
        }
      | _ \<Rightarrow> Some (None, s))
   }"

section \<open>Metadata\<close>

text \<open>\<^verbatim>\<open>sizeof(struct stat)\<close> is 24: \<^verbatim>\<open>dev\<close> at 0, \<^verbatim>\<open>ino\<close> at 4, \<^verbatim>\<open>type\<close> at 8, \<^verbatim>\<open>nlink\<close> at 10,
  four bytes of padding and \<^verbatim>\<open>size\<close> at 16. \<open>pad\<close> is what the padding holds.\<close>

definition stat_bytes :: "u8 list \<Rightarrow> stat \<Rightarrow> u8 list" where
  "stat_bytes pad st =
     map (put16 (st_nlink st) 10 (put16 (st_type st) 8 (put32 (st_ino st) 4 (put32 (word_of_int (st_dev st)) 0 (\<lambda>_. 0))))) [0..<12]
     @ take 4 pad @ map (\<lambda>i. ucast (drop_bit (8 * i) (st_size st))) [0..<8]"

definition filestat :: "u8 list \<Rightarrow> nat \<Rightarrow> u64 \<Rightarrow> 'z filest_scheme \<Rightarrow> (int \<times> 'z filest_scheme) option" where
  "filestat pad f addr s = do {
     (me, s) \<leftarrow> myproc s;
     p \<leftarrow> me;
     if ftype (files s f) \<noteq> FD_INODE \<and> ftype (files s f) \<noteq> FD_DEVICE then Some (-1, s)
     else do {
       s \<leftarrow> ilock (fip (files s f)) s;
       let st = stati (fip (files s f)) s;
       s \<leftarrow> iunlock (fip (files s f)) s;
       (r, s) \<leftarrow> copyout (pagetable (procs s p)) addr (stat_bytes pad st) s;
       Some (if r < 0 then -1 else 0, s)
     }
   }"

section \<open>Read\<close>

definition fileread_pipe :: "nat \<Rightarrow> u64 \<Rightarrow> int \<Rightarrow> 'z filest_scheme \<Rightarrow> (int \<times> 'z filest_scheme) option" where
  "fileread_pipe f addr n s = piperead (fpipe (files s f)) addr n s"

definition fileread_device :: "nat \<Rightarrow> u64 \<Rightarrow> int \<Rightarrow> 'z filest_scheme \<Rightarrow> (int \<times> 'z filest_scheme) option" where
  "fileread_device f addr n s =
     (let m = sint (fmajor (files s f))
      in if m < 0 \<or> m \<ge> int NDEV \<or> devsw_read s (nat m) = None then Some (-1, s)
         else consoleread (UserDst addr) n s)"

definition fileread_inode :: "nat \<Rightarrow> u64 \<Rightarrow> int \<Rightarrow> 'z filest_scheme \<Rightarrow> (int \<times> 'z filest_scheme) option" where
  "fileread_inode f addr n s = do {
     let ip = fip (files s f);
     s \<leftarrow> ilock ip s;
     (r, _, s) \<leftarrow> readi ip (UserDst addr) (foff (files s f)) (word_of_int n) s;
     let s = (if r > 0 then upd_file f (\<lambda>x. x\<lparr>foff := foff x + word_of_int r\<rparr>) s else s);
     s \<leftarrow> iunlock ip s;
     Some (r, s)
   }"

definition fileread :: "nat \<Rightarrow> u64 \<Rightarrow> int \<Rightarrow> 'z filest_scheme \<Rightarrow> (int \<times> 'z filest_scheme) option" where
  "fileread f addr n s =
     (if \<not> freadable (files s f) then Some (-1, s)
      else case ftype (files s f) of
        FD_PIPE \<Rightarrow> fileread_pipe f addr n s
      | FD_DEVICE \<Rightarrow> fileread_device f addr n s
      | FD_INODE \<Rightarrow> fileread_inode f addr n s
      | FD_NONE \<Rightarrow> None)"

section \<open>Write\<close>

definition filewrite_device :: "nat \<Rightarrow> u64 \<Rightarrow> int \<Rightarrow> 'z filest_scheme \<Rightarrow> (int \<times> 'z filest_scheme) option" where
  "filewrite_device f addr n s =
     (let m = sint (fmajor (files s f))
      in if m < 0 \<or> m \<ge> int NDEV \<or> devsw_write s (nat m) = None then Some (-1, s)
         else consolewrite (UserSrc addr) n s)"

definition filewrite_pipe :: "nat \<Rightarrow> u64 \<Rightarrow> int \<Rightarrow> 'z filest_scheme \<Rightarrow> (int \<times> 'z filest_scheme) option" where
  "filewrite_pipe f addr n s = pipewrite (fpipe (files s f)) addr n s"

definition write_max :: int where
  "write_max = int (((MAXOPBLOCKS - 1 - 1 - 2) div 2) * BSIZE)"

lemma write_max_pos: "0 < write_max"
  by (simp add: write_max_def MAXOPBLOCKS_def BSIZE_def)

function filewrite_loop ::
  "nat \<Rightarrow> u64 \<Rightarrow> int \<Rightarrow> int \<Rightarrow> 'z filest_scheme \<Rightarrow> (int \<times> 'z filest_scheme) option" where
  "filewrite_loop f addr n i s =
     (if i < n then do {
        let n1 = (if n - i > write_max then write_max else n - i);
        s \<leftarrow> begin_op s;
        s \<leftarrow> ilock (fip (files s f)) s;
        (r, s) \<leftarrow> writei (fip (files s f)) (UserSrc (addr + word_of_int i)) (foff (files s f)) (word_of_int n1) s;
        let s = (if r > 0 then upd_file f (\<lambda>x. x\<lparr>foff := foff x + word_of_int r\<rparr>) s else s);
        s \<leftarrow> iunlock (fip (files s f)) s;
        s \<leftarrow> end_op s;
        if r \<noteq> n1 then Some (i, s)
        else filewrite_loop f addr n (i + r) s
      } else Some (i, s))"
  by pat_completeness auto
termination
  by (relation "measure (\<lambda>(f, addr, n, i, s). nat (n - i))") (use write_max_pos in \<open>auto split: if_splits\<close>)

declare filewrite_loop.simps [simp del]

definition filewrite_inode :: "nat \<Rightarrow> u64 \<Rightarrow> int \<Rightarrow> 'z filest_scheme \<Rightarrow> (int \<times> 'z filest_scheme) option" where
  "filewrite_inode f addr n s = do {
     (i, s) \<leftarrow> filewrite_loop f addr n 0 s;
     Some (if i = n then n else -1, s)
   }"

definition filewrite :: "nat \<Rightarrow> u64 \<Rightarrow> int \<Rightarrow> 'z filest_scheme \<Rightarrow> (int \<times> 'z filest_scheme) option" where
  "filewrite f addr n s =
     (if \<not> fwritable (files s f) then Some (-1, s)
      else case ftype (files s f) of
        FD_PIPE \<Rightarrow> filewrite_pipe f addr n s
      | FD_DEVICE \<Rightarrow> filewrite_device f addr n s
      | FD_INODE \<Rightarrow> filewrite_inode f addr n s
      | FD_NONE \<Rightarrow> None)"

end
