(* ===== verification/Process.thy ===== *)
theory Process
  imports File
begin

text \<open>
  Process life cycle, the part of \<^verbatim>\<open>kernel/proc.c\<close> above memory and files: allocation and
  release of table entries, \<^verbatim>\<open>fork\<close>, \<^verbatim>\<open>exit\<close>, \<^verbatim>\<open>wait\<close>, memory growth and kernel threads.

  The trapframe of a process is the page at \<^verbatim>\<open>p->trapframe\<close>; its fields are 64-bit words of the
  byte memory at the offsets of \<^verbatim>\<open>kernel/proc.h\<close>. The address of \<^verbatim>\<open>forkret\<close> in the kernel text
  is a field of the state. \<open>kexit\<close> yields the state in which the exiting process has switched to
  the scheduler, together with the saved interrupt flag; it never returns to its caller.
  \<open>kwait_start\<close> and \<open>kwait_resume\<close> split \<^verbatim>\<open>kwait\<close> at its \<^verbatim>\<open>sleep\<close>, \<open>kwait\<close> is the call
  that finds its answer at once.
\<close>

record procst = filest +
  forkret_pc :: u64
  ticks :: u32

section \<open>Trapframe\<close>

definition tf_kernel_satp :: nat where "tf_kernel_satp = 0"
definition tf_kernel_sp :: nat where "tf_kernel_sp = 8"
definition tf_kernel_trap :: nat where "tf_kernel_trap = 16"
definition tf_epc :: nat where "tf_epc = 24"
definition tf_kernel_hartid :: nat where "tf_kernel_hartid = 32"
definition tf_sp :: nat where "tf_sp = 48"
definition tf_a :: "nat \<Rightarrow> nat" where "tf_a n = 112 + 8 * n"
definition tf_size :: nat where "tf_size = 288"

lemmas tf_defs = tf_kernel_satp_def tf_kernel_sp_def tf_kernel_trap_def tf_epc_def tf_kernel_hartid_def
  tf_sp_def tf_a_def tf_size_def

definition tf_get :: "nat \<Rightarrow> nat \<Rightarrow> 'z ptable_scheme \<Rightarrow> u64" where
  "tf_get p fld s = load64 (mem s) (trapframe (procs s p) + fld)"

definition tf_set :: "nat \<Rightarrow> nat \<Rightarrow> u64 \<Rightarrow> 'z ptable_scheme \<Rightarrow> 'z ptable_scheme" where
  "tf_set p fld v s = s\<lparr>mem := store64 (trapframe (procs s p) + fld) v (mem s)\<rparr>"

text \<open>\<^verbatim>\<open>*(np->trapframe) = *(p->trapframe)\<close>\<close>

definition tf_copy :: "nat \<Rightarrow> nat \<Rightarrow> 'z ptable_scheme \<Rightarrow> 'z ptable_scheme" where
  "tf_copy np p s = s\<lparr>mem := memmove (trapframe (procs s np)) (trapframe (procs s p)) tf_size (mem s)\<rparr>"

section \<open>Table entries\<close>

definition freeproc :: "nat \<Rightarrow> 'z ptable_scheme \<Rightarrow> 'z ptable_scheme option" where
  "freeproc p s = do {
     s \<leftarrow> (if trapframe (procs s p) \<noteq> 0 then kfree (trapframe (procs s p)) s else Some s);
     let s = upd_proc p (\<lambda>x. x\<lparr>trapframe := 0\<rparr>) s;
     s \<leftarrow> (if pagetable (procs s p) \<noteq> 0 then proc_freepagetable (pagetable (procs s p)) (psz (procs s p)) s else Some s);
     Some (upd_proc p (\<lambda>x. x\<lparr>pagetable := 0, psz := 0, pid := 0, parent := None, pname := (pname x)(0 := 0),
             pchan := None, pkilled := False, xstate := 0, pstate := UNUSED\<rparr>) s)
   }"

fun find_unused :: "nat list \<Rightarrow> 'z ptable_scheme \<Rightarrow> (nat option \<times> 'z ptable_scheme) option" where
  "find_unused [] s = Some (None, s)"
| "find_unused (p # ps) s = do {
     s \<leftarrow> acquire (ProcLock p) s;
     if pstate (procs s p) = UNUSED then Some (Some p, s)
     else do {
       s \<leftarrow> release (ProcLock p) s;
       find_unused ps s
     }
   }"

definition allocproc_fail :: "nat \<Rightarrow> 'z ptable_scheme \<Rightarrow> (nat option \<times> 'z ptable_scheme) option" where
  "allocproc_fail p s = do {
     s \<leftarrow> freeproc p s;
     s \<leftarrow> release (ProcLock p) s;
     Some (None, s)
   }"

definition allocproc :: "'z procst_scheme \<Rightarrow> (nat option \<times> 'z procst_scheme) option" where
  "allocproc s = do {
     (e, s) \<leftarrow> find_unused [0..<NPROC] s;
     (case e of
        None \<Rightarrow> Some (None, s)
      | Some p \<Rightarrow> do {
          (i, s) \<leftarrow> allocpid s;
          let s = upd_proc p (\<lambda>x. x\<lparr>pid := i, pstate := USED\<rparr>) s;
          (tf, s) \<leftarrow> kalloc s;
          let s = upd_proc p (\<lambda>x. x\<lparr>trapframe := tf\<rparr>) s;
          if tf = 0 then allocproc_fail p s
          else do {
            (pt, s) \<leftarrow> proc_pagetable p s;
            let s = upd_proc p (\<lambda>x. x\<lparr>pagetable := pt\<rparr>) s;
            if pt = 0 then allocproc_fail p s
            else Some (Some p, upd_proc p (\<lambda>x. x\<lparr>pcontext :=
                    \<lparr>ctx_ra = forkret_pc s, ctx_sp = kstack x + of_nat PGSIZE, ctx_s = (\<lambda>_. 0)\<rparr>\<rparr>) s)
          }
        })
   }"

definition userinit :: "'z procst_scheme \<Rightarrow> 'z procst_scheme option" where
  "userinit s = do {
     (e, s) \<leftarrow> allocproc s;
     p \<leftarrow> e;
     let s = s\<lparr>initproc := Some p\<rparr>;
     (ip, s) \<leftarrow> namei (\<lambda>i. if i = 0 then slash else 0) s;
     let s = upd_proc p (\<lambda>x. x\<lparr>cwd := ip\<rparr>) s;
     let s = upd_proc p (\<lambda>x. x\<lparr>pstate := RUNNABLE\<rparr>) s;
     release (ProcLock p) s
   }"

definition growproc :: "int \<Rightarrow> 'z ptable_scheme \<Rightarrow> (int \<times> 'z ptable_scheme) option" where
  "growproc n s = do {
     (me, s) \<leftarrow> myproc s;
     p \<leftarrow> me;
     let sz = psz (procs s p);
     if n > 0 then
       (if sz + word_of_int n > TRAPFRAME then Some (-1, s)
        else do {
          (sz, s) \<leftarrow> uvmalloc (pagetable (procs s p)) sz (sz + word_of_int n) PTE_W s;
          if sz = 0 then Some (-1, s)
          else Some (0, upd_proc p (\<lambda>x. x\<lparr>psz := sz\<rparr>) s)
        })
     else if n < 0 then do {
       (sz, s) \<leftarrow> uvmdealloc (pagetable (procs s p)) sz (sz + word_of_int n) s;
       Some (0, upd_proc p (\<lambda>x. x\<lparr>psz := sz\<rparr>) s)
     } else Some (0, upd_proc p (\<lambda>x. x\<lparr>psz := sz\<rparr>) s)
   }"

section \<open>fork\<close>

text \<open>\<^verbatim>\<open>for(i = 0; i < NOFILE; i++) if(p->ofile[i]) np->ofile[i] = filedup(p->ofile[i]);\<close>\<close>

fun dup_files :: "nat \<Rightarrow> nat \<Rightarrow> nat list \<Rightarrow> 'z filest_scheme \<Rightarrow> 'z filest_scheme option" where
  "dup_files p np [] s = Some s"
| "dup_files p np (i # is) s =
     (case ofile (procs s p) i of
        None \<Rightarrow> dup_files p np is s
      | Some f \<Rightarrow> do {
          (f, s) \<leftarrow> filedup f s;
          dup_files p np is (upd_proc np (\<lambda>x. x\<lparr>ofile := (ofile x)(i := Some f)\<rparr>) s)
        })"

text \<open>What \<^verbatim>\<open>kfork\<close> and \<^verbatim>\<open>kthread_create\<close> share: descriptors, directory and name.\<close>

definition dup_env :: "nat \<Rightarrow> nat \<Rightarrow> 'z filest_scheme \<Rightarrow> 'z filest_scheme option" where
  "dup_env p np s = do {
     s \<leftarrow> dup_files p np [0..<NOFILE] s;
     ip \<leftarrow> cwd (procs s p);
     (ip, s) \<leftarrow> idup ip s;
     let s = upd_proc np (\<lambda>x. x\<lparr>cwd := Some ip\<rparr>) s;
     Some (upd_proc np (\<lambda>x. x\<lparr>pname := safestrcpy (pname x) (pname (procs s p)) 16\<rparr>) s)
   }"

text \<open>Their common end: publish the child.\<close>

definition start_child :: "nat \<Rightarrow> nat \<Rightarrow> 'z ptable_scheme \<Rightarrow> 'z ptable_scheme option" where
  "start_child p np s = do {
     s \<leftarrow> release (ProcLock np) s;
     s \<leftarrow> acquire WaitLock s;
     let s = upd_proc np (\<lambda>x. x\<lparr>parent := Some p\<rparr>) s;
     s \<leftarrow> release WaitLock s;
     s \<leftarrow> acquire (ProcLock np) s;
     let s = upd_proc np (\<lambda>x. x\<lparr>pstate := RUNNABLE\<rparr>) s;
     release (ProcLock np) s
   }"

definition kfork :: "'z procst_scheme \<Rightarrow> (int \<times> 'z procst_scheme) option" where
  "kfork s = do {
     (me, s) \<leftarrow> myproc s;
     p \<leftarrow> me;
     (e, s) \<leftarrow> allocproc s;
     (case e of
        None \<Rightarrow> Some (-1, s)
      | Some np \<Rightarrow> do {
          (r, s) \<leftarrow> uvmcopy (pagetable (procs s p)) (pagetable (procs s np)) (psz (procs s p)) s;
          if r < 0 then do {
            s \<leftarrow> freeproc np s;
            s \<leftarrow> release (ProcLock np) s;
            Some (-1, s)
          } else do {
            let s = upd_proc np (\<lambda>x. x\<lparr>psz := psz (procs s p)\<rparr>) s;
            let s = tf_copy np p s;
            let s = tf_set np (tf_a 0) 0 s;
            s \<leftarrow> dup_env p np s;
            let i = pid (procs s np);
            s \<leftarrow> start_child p np s;
            Some (i, s)
          }
        })
   }"

definition kthread_create :: "u64 \<Rightarrow> u64 \<Rightarrow> u64 \<Rightarrow> 'z procst_scheme \<Rightarrow> (int \<times> 'z procst_scheme) option" where
  "kthread_create fn arg stack s = do {
     (me, s) \<leftarrow> myproc s;
     p \<leftarrow> me;
     (e, s) \<leftarrow> allocproc s;
     (case e of
        None \<Rightarrow> Some (-1, s)
      | Some np \<Rightarrow> do {
          let s = upd_proc np (\<lambda>x. x\<lparr>pagetable := pagetable (procs s p), psz := psz (procs s p)\<rparr>) s;
          let s = tf_copy np p s;
          let s = tf_set np tf_epc fn s;
          let s = tf_set np (tf_a 0) arg s;
          let s = tf_set np tf_sp stack s;
          s \<leftarrow> dup_env p np s;
          let i = pid (procs s np);
          s \<leftarrow> start_child p np s;
          Some (i, s)
        })
   }"

section \<open>exit and wait\<close>

fun reparent_from :: "nat \<Rightarrow> nat list \<Rightarrow> 'z ptable_scheme \<Rightarrow> 'z ptable_scheme option" where
  "reparent_from p [] s = Some s"
| "reparent_from p (pp # ps) s =
     (if parent (procs s pp) = Some p then do {
        let s = upd_proc pp (\<lambda>x. x\<lparr>parent := initproc s\<rparr>) s;
        s \<leftarrow> wakeup (map_option ChanProc (initproc s)) s;
        reparent_from p ps s
      } else reparent_from p ps s)"

definition reparent :: "nat \<Rightarrow> 'z ptable_scheme \<Rightarrow> 'z ptable_scheme option" where
  "reparent p s = reparent_from p [0..<NPROC] s"

fun close_files :: "nat \<Rightarrow> nat list \<Rightarrow> 'z filest_scheme \<Rightarrow> 'z filest_scheme option" where
  "close_files p [] s = Some s"
| "close_files p (fd # fds) s =
     (case ofile (procs s p) fd of
        None \<Rightarrow> close_files p fds s
      | Some f \<Rightarrow> do {
          s \<leftarrow> fileclose f s;
          close_files p fds (upd_proc p (\<lambda>x. x\<lparr>ofile := (ofile x)(fd := None)\<rparr>) s)
        })"

definition kexit :: "int \<Rightarrow> 'z filest_scheme \<Rightarrow> (bool \<times> 'z filest_scheme) option" where
  "kexit status s = do {
     (me, s) \<leftarrow> myproc s;
     p \<leftarrow> me;
     if initproc s = Some p then None
     else do {
       s \<leftarrow> close_files p [0..<NOFILE] s;
       s \<leftarrow> begin_op s;
       ip \<leftarrow> cwd (procs s p);
       s \<leftarrow> iput ip s;
       s \<leftarrow> end_op s;
       let s = upd_proc p (\<lambda>x. x\<lparr>cwd := None\<rparr>) s;
       s \<leftarrow> acquire WaitLock s;
       s \<leftarrow> reparent p s;
       s \<leftarrow> wakeup (map_option ChanProc (parent (procs s p))) s;
       s \<leftarrow> acquire (ProcLock p) s;
       let s = upd_proc p (\<lambda>x. x\<lparr>xstate := status, pstate := ZOMBIE\<rparr>) s;
       s \<leftarrow> release WaitLock s;
       sched_out s
     }
   }"

definition int_bytes :: "int \<Rightarrow> u8 list" where
  "int_bytes v = map (put32 (word_of_int v) 0 (\<lambda>_. 0)) [0..<4]"

text \<open>One scan of the table: \<open>Inl r\<close> is a return with \<open>r\<close>, \<open>Inr havekids\<close> the end of the scan.\<close>

fun kwait_scan ::
  "nat \<Rightarrow> u64 \<Rightarrow> bool \<Rightarrow> nat list \<Rightarrow> 'z ptable_scheme \<Rightarrow> ((int + bool) \<times> 'z ptable_scheme) option" where
  "kwait_scan p addr havekids [] s = Some (Inr havekids, s)"
| "kwait_scan p addr havekids (pp # ps) s =
     (if parent (procs s pp) = Some p then do {
        s \<leftarrow> acquire (ProcLock pp) s;
        if pstate (procs s pp) = ZOMBIE then do {
          let i = pid (procs s pp);
          (r, s) \<leftarrow> (if addr \<noteq> 0 then copyout (pagetable (procs s p)) addr (int_bytes (xstate (procs s pp))) s
                     else Some (0, s));
          if r < 0 then do {
            s \<leftarrow> release (ProcLock pp) s;
            s \<leftarrow> release WaitLock s;
            Some (Inl (-1), s)
          } else do {
            s \<leftarrow> freeproc pp s;
            s \<leftarrow> release (ProcLock pp) s;
            s \<leftarrow> release WaitLock s;
            Some (Inl i, s)
          }
        } else do {
          s \<leftarrow> release (ProcLock pp) s;
          kwait_scan p addr True ps s
        }
      } else kwait_scan p addr havekids ps s)"

definition kwait_loop :: "nat \<Rightarrow> u64 \<Rightarrow> 'z ptable_scheme \<Rightarrow> (pipe_ret \<times> 'z ptable_scheme) option" where
  "kwait_loop p addr s = do {
     (e, s) \<leftarrow> kwait_scan p addr False [0..<NPROC] s;
     (case e of
        Inl r \<Rightarrow> Some (PRet r, s)
      | Inr havekids \<Rightarrow> do {
          (k, s) \<leftarrow> (if \<not> havekids then Some (True, s) else killed p s);
          if k then do {
            s \<leftarrow> release WaitLock s;
            Some (PRet (-1), s)
          } else do {
            (ie, s) \<leftarrow> sleep_out (Some (ChanProc p)) WaitLock s;
            Some (PWait 0 ie, s)
          }
        })
   }"

definition kwait_start :: "u64 \<Rightarrow> 'z ptable_scheme \<Rightarrow> (pipe_ret \<times> 'z ptable_scheme) option" where
  "kwait_start addr s = do {
     (me, s) \<leftarrow> myproc s;
     p \<leftarrow> me;
     s \<leftarrow> acquire WaitLock s;
     kwait_loop p addr s
   }"

definition kwait_resume :: "nat \<Rightarrow> u64 \<Rightarrow> bool \<Rightarrow> 'z ptable_scheme \<Rightarrow> (pipe_ret \<times> 'z ptable_scheme) option" where
  "kwait_resume p addr ie s = do {
     s \<leftarrow> sleep_in p WaitLock ie s;
     kwait_loop p addr s
   }"

definition kwait :: "u64 \<Rightarrow> 'z ptable_scheme \<Rightarrow> (int \<times> 'z ptable_scheme) option" where
  "kwait addr s = do {
     (w, s) \<leftarrow> kwait_start addr s;
     (case w of PRet r \<Rightarrow> Some (r, s) | PWait _ _ \<Rightarrow> None)
   }"

end
