(* ===== verification/Sysfile.thy ===== *)
theory Sysfile
  imports Process
begin

text \<open>
  System-call arguments, \<^verbatim>\<open>kernel/syscall.c\<close>, and the file-system calls of
  \<^verbatim>\<open>kernel/sysfile.c\<close> except \<^verbatim>\<open>sys_exec\<close>, which is in theory \<open>Exec\<close>. A system call returns its
  64-bit result, \<open>-1\<close> being the error value. The local path and name arrays are byte arrays that
  start out as zero; every byte that is read was written before.
\<close>

section \<open>Arguments\<close>

definition fetchaddr :: "u64 \<Rightarrow> 'z ptable_scheme \<Rightarrow> (int \<times> u64 \<times> 'z ptable_scheme) option" where
  "fetchaddr addr s = do {
     (me, s) \<leftarrow> myproc s;
     p \<leftarrow> me;
     if addr \<ge> psz (procs s p) \<or> addr + 8 > psz (procs s p) then Some (-1, 0, s)
     else do {
       (r, bs, s) \<leftarrow> copyin (pagetable (procs s p)) addr 8 s;
       if r \<noteq> 0 then Some (-1, 0, s)
       else Some (0, load64 (\<lambda>i. bs ! i) 0, s)
     }
   }"

text \<open>The array \<^verbatim>\<open>buf\<close> after the bytes \<open>bs\<close> were copied to its start.\<close>

definition fill :: "u8 list \<Rightarrow> carr" where
  "fill bs = (\<lambda>i. if i < length bs then bs ! i else 0)"

definition fetchstr :: "u64 \<Rightarrow> nat \<Rightarrow> 'z ptable_scheme \<Rightarrow> (int \<times> u8 list \<times> 'z ptable_scheme) option" where
  "fetchstr addr mx s = do {
     (me, s) \<leftarrow> myproc s;
     p \<leftarrow> me;
     (r, bs, s) \<leftarrow> copyinstr (pagetable (procs s p)) addr mx s;
     if r < 0 then Some (-1, bs, s)
     else do {
       n \<leftarrow> strlen (fill bs);
       Some (int n, bs, s)
     }
   }"

definition argraw :: "nat \<Rightarrow> 'z ptable_scheme \<Rightarrow> (u64 \<times> 'z ptable_scheme) option" where
  "argraw n s = do {
     (me, s) \<leftarrow> myproc s;
     p \<leftarrow> me;
     if n \<le> 5 then Some (tf_get p (tf_a n) s, s) else None
   }"

definition argint :: "nat \<Rightarrow> 'z ptable_scheme \<Rightarrow> (int \<times> 'z ptable_scheme) option" where
  "argint n s = do {
     (v, s) \<leftarrow> argraw n s;
     Some (c_int v, s)
   }"

definition argaddr :: "nat \<Rightarrow> 'z ptable_scheme \<Rightarrow> (u64 \<times> 'z ptable_scheme) option" where
  "argaddr n s = argraw n s"

definition argstr :: "nat \<Rightarrow> nat \<Rightarrow> 'z ptable_scheme \<Rightarrow> (int \<times> carr \<times> 'z ptable_scheme) option" where
  "argstr n mx s = do {
     (addr, s) \<leftarrow> argaddr n s;
     (r, bs, s) \<leftarrow> fetchstr addr mx s;
     Some (r, fill bs, s)
   }"

definition argfd :: "nat \<Rightarrow> 'z ptable_scheme \<Rightarrow> ((nat \<times> nat) option \<times> 'z ptable_scheme) option" where
  "argfd n s = do {
     (fd, s) \<leftarrow> argint n s;
     if fd < 0 \<or> fd \<ge> int NOFILE then Some (None, s)
     else do {
       (me, s) \<leftarrow> myproc s;
       p \<leftarrow> me;
       Some (map_option (\<lambda>f. (nat fd, f)) (ofile (procs s p) (nat fd)), s)
     }
   }"

section \<open>Descriptors\<close>

definition fdalloc :: "nat \<Rightarrow> 'z ptable_scheme \<Rightarrow> (int \<times> 'z ptable_scheme) option" where
  "fdalloc f s = do {
     (me, s) \<leftarrow> myproc s;
     p \<leftarrow> me;
     (case find (\<lambda>fd. ofile (procs s p) fd = None) [0..<NOFILE] of
        Some fd \<Rightarrow> Some (int fd, upd_proc p (\<lambda>x. x\<lparr>ofile := (ofile x)(fd := Some f)\<rparr>) s)
      | None \<Rightarrow> Some (-1, s))
   }"

definition sys_dup :: "'z procst_scheme \<Rightarrow> (u64 \<times> 'z procst_scheme) option" where
  "sys_dup s = do {
     (e, s) \<leftarrow> argfd 0 s;
     (case e of
        None \<Rightarrow> Some (-1, s)
      | Some (_, f) \<Rightarrow> do {
          (fd, s) \<leftarrow> fdalloc f s;
          if fd < 0 then Some (-1, s)
          else do {
            (_, s) \<leftarrow> filedup f s;
            Some (to_u64 fd, s)
          }
        })
   }"

definition sys_read :: "'z procst_scheme \<Rightarrow> (u64 \<times> 'z procst_scheme) option" where
  "sys_read s = do {
     (p, s) \<leftarrow> argaddr 1 s;
     (n, s) \<leftarrow> argint 2 s;
     (e, s) \<leftarrow> argfd 0 s;
     (case e of
        None \<Rightarrow> Some (-1, s)
      | Some (_, f) \<Rightarrow> do {
          (r, s) \<leftarrow> fileread f p n s;
          Some (to_u64 r, s)
        })
   }"

definition sys_write :: "'z procst_scheme \<Rightarrow> (u64 \<times> 'z procst_scheme) option" where
  "sys_write s = do {
     (p, s) \<leftarrow> argaddr 1 s;
     (n, s) \<leftarrow> argint 2 s;
     (e, s) \<leftarrow> argfd 0 s;
     (case e of
        None \<Rightarrow> Some (-1, s)
      | Some (_, f) \<Rightarrow> do {
          (r, s) \<leftarrow> filewrite f p n s;
          Some (to_u64 r, s)
        })
   }"

definition sys_close :: "'z procst_scheme \<Rightarrow> (u64 \<times> 'z procst_scheme) option" where
  "sys_close s = do {
     (e, s) \<leftarrow> argfd 0 s;
     (case e of
        None \<Rightarrow> Some (-1, s)
      | Some (fd, f) \<Rightarrow> do {
          (me, s) \<leftarrow> myproc s;
          p \<leftarrow> me;
          let s = upd_proc p (\<lambda>x. x\<lparr>ofile := (ofile x)(fd := None)\<rparr>) s;
          s \<leftarrow> fileclose f s;
          Some (0, s)
        })
   }"

text \<open>\<open>pad\<close> stands for the uninitialised padding of the local \<^verbatim>\<open>struct stat\<close>.\<close>

definition sys_fstat :: "u8 list \<Rightarrow> 'z procst_scheme \<Rightarrow> (u64 \<times> 'z procst_scheme) option" where
  "sys_fstat pad s = do {
     (st, s) \<leftarrow> argaddr 1 s;
     (e, s) \<leftarrow> argfd 0 s;
     (case e of
        None \<Rightarrow> Some (-1, s)
      | Some (_, f) \<Rightarrow> do {
          (r, s) \<leftarrow> filestat pad f st s;
          Some (to_u64 r, s)
        })
   }"

section \<open>Links\<close>

definition end_ret :: "u64 \<Rightarrow> 'z logst_scheme \<Rightarrow> (u64 \<times> 'z logst_scheme) option" where
  "end_ret v s = do {
     s \<leftarrow> end_op s;
     Some (v, s)
   }"

definition sys_link_bad :: "nat \<Rightarrow> 'z procst_scheme \<Rightarrow> (u64 \<times> 'z procst_scheme) option" where
  "sys_link_bad ip s = do {
     s \<leftarrow> ilock ip s;
     let s = upd_inode ip (\<lambda>x. x\<lparr>inlink := inlink x - 1\<rparr>) s;
     s \<leftarrow> iupdate ip s;
     s \<leftarrow> iunlockput ip s;
     end_ret (-1) s
   }"

definition sys_link :: "'z procst_scheme \<Rightarrow> (u64 \<times> 'z procst_scheme) option" where
  "sys_link s = do {
     (r, old, s) \<leftarrow> argstr 0 MAXPATH s;
     (r', new, s) \<leftarrow> (if r < 0 then Some (-1, (\<lambda>_. 0), s) else argstr 1 MAXPATH s);
     if r' < 0 then Some (-1, s)
     else do {
       s \<leftarrow> begin_op s;
       (e, s) \<leftarrow> namei old s;
       (case e of
          None \<Rightarrow> end_ret (-1) s
        | Some ip \<Rightarrow> do {
            s \<leftarrow> ilock ip s;
            if itype (inodes s ip) = T_DIR then do {
              s \<leftarrow> iunlockput ip s;
              end_ret (-1) s
            } else do {
              let s = upd_inode ip (\<lambda>x. x\<lparr>inlink := inlink x + 1\<rparr>) s;
              s \<leftarrow> iupdate ip s;
              s \<leftarrow> iunlock ip s;
              (d, name, s) \<leftarrow> nameiparent new (\<lambda>_. 0) s;
              (case d of
                 None \<Rightarrow> sys_link_bad ip s
               | Some dp \<Rightarrow> do {
                   s \<leftarrow> ilock dp s;
                   (q, s) \<leftarrow> (if idev (inodes s dp) \<noteq> idev (inodes s ip) then Some (-1, s)
                             else dirlink dp name (inum (inodes s ip)) s);
                   if q < 0 then do {
                     s \<leftarrow> iunlockput dp s;
                     sys_link_bad ip s
                   } else do {
                     s \<leftarrow> iunlockput dp s;
                     s \<leftarrow> iput ip s;
                     end_ret 0 s
                   }
                 })
            }
          })
     }
   }"

partial_function (option) isdirempty_from :: "nat \<Rightarrow> u32 \<Rightarrow> 'z fsst_scheme \<Rightarrow> (bool \<times> 'z fsst_scheme) option" where
  "isdirempty_from dp off s =
     (if off < isize (inodes s dp) then do {
        (r, de, s) \<leftarrow> readi dp KernObj off 16 s;
        if r \<noteq> 16 then None
        else if de_inum de \<noteq> 0 then Some (False, s)
        else isdirempty_from dp (off + 16) s
      } else Some (True, s))"

definition isdirempty :: "nat \<Rightarrow> 'z fsst_scheme \<Rightarrow> (bool \<times> 'z fsst_scheme) option" where
  "isdirempty dp s = isdirempty_from dp 32 s"

definition dot :: carr where "dot = fill [46]"
definition dotdot :: carr where "dotdot = fill [46, 46]"

definition sys_unlink_bad :: "nat \<Rightarrow> 'z procst_scheme \<Rightarrow> (u64 \<times> 'z procst_scheme) option" where
  "sys_unlink_bad dp s = do {
     s \<leftarrow> iunlockput dp s;
     end_ret (-1) s
   }"

definition sys_unlink :: "'z procst_scheme \<Rightarrow> (u64 \<times> 'z procst_scheme) option" where
  "sys_unlink s = do {
     (r, path, s) \<leftarrow> argstr 0 MAXPATH s;
     if r < 0 then Some (-1, s)
     else do {
       s \<leftarrow> begin_op s;
       (d, name, s) \<leftarrow> nameiparent path (\<lambda>_. 0) s;
       (case d of
          None \<Rightarrow> end_ret (-1) s
        | Some dp \<Rightarrow> do {
            s \<leftarrow> ilock dp s;
            if namecmp name dot = 0 \<or> namecmp name dotdot = 0 then sys_unlink_bad dp s
            else do {
              (e, s) \<leftarrow> dirlookup dp name s;
              (case e of
                 None \<Rightarrow> sys_unlink_bad dp s
               | Some (ip, off) \<Rightarrow> do {
                   s \<leftarrow> ilock ip s;
                   if sint (inlink (inodes s ip)) < 1 then None
                   else do {
                     (empty, s) \<leftarrow> (if itype (inodes s ip) = T_DIR then isdirempty ip s else Some (True, s));
                     if itype (inodes s ip) = T_DIR \<and> \<not> empty then do {
                       s \<leftarrow> iunlockput ip s;
                       sys_unlink_bad dp s
                     } else do {
                       (w, s) \<leftarrow> writei dp (KernSrc (replicate 16 0)) off 16 s;
                       if w \<noteq> 16 then None
                       else do {
                         s \<leftarrow> (if itype (inodes s ip) = T_DIR
                               then iupdate dp (upd_inode dp (\<lambda>x. x\<lparr>inlink := inlink x - 1\<rparr>) s) else Some s);
                         s \<leftarrow> iunlockput dp s;
                         let s = upd_inode ip (\<lambda>x. x\<lparr>inlink := inlink x - 1\<rparr>) s;
                         s \<leftarrow> iupdate ip s;
                         s \<leftarrow> iunlockput ip s;
                         end_ret 0 s
                       }
                     }
                   }
                 })
            }
          })
     }
   }"

section \<open>Creation\<close>

definition create_fail :: "nat \<Rightarrow> nat \<Rightarrow> 'z fsst_scheme \<Rightarrow> (nat option \<times> 'z fsst_scheme) option" where
  "create_fail ip dp s = do {
     let s = upd_inode ip (\<lambda>x. x\<lparr>inlink := 0\<rparr>) s;
     s \<leftarrow> iupdate ip s;
     s \<leftarrow> iunlockput ip s;
     s \<leftarrow> iunlockput dp s;
     Some (None, s)
   }"

definition create_new :: "carr \<Rightarrow> u16 \<Rightarrow> u16 \<Rightarrow> u16 \<Rightarrow> nat \<Rightarrow> nat \<Rightarrow> 'z fsst_scheme \<Rightarrow> (nat option \<times> 'z fsst_scheme) option" where
  "create_new name type mj mn dp ip s = do {
     s \<leftarrow> ilock ip s;
     let s = upd_inode ip (\<lambda>x. x\<lparr>imajor := mj, iminor := mn, inlink := 1\<rparr>) s;
     s \<leftarrow> iupdate ip s;
     (r, s) \<leftarrow> (if type = T_DIR then do {
         (r, s) \<leftarrow> dirlink ip dot (inum (inodes s ip)) s;
         if r < 0 then Some (r, s) else dirlink ip dotdot (inum (inodes s dp)) s
       } else Some (0, s));
     if r < 0 then create_fail ip dp s
     else do {
       (r, s) \<leftarrow> dirlink dp name (inum (inodes s ip)) s;
       if r < 0 then create_fail ip dp s
       else do {
         s \<leftarrow> (if type = T_DIR then iupdate dp (upd_inode dp (\<lambda>x. x\<lparr>inlink := inlink x + 1\<rparr>) s) else Some s);
         s \<leftarrow> iunlockput dp s;
         Some (Some ip, s)
       }
     }
   }"

definition create :: "carr \<Rightarrow> u16 \<Rightarrow> u16 \<Rightarrow> u16 \<Rightarrow> 'z fsst_scheme \<Rightarrow> (nat option \<times> 'z fsst_scheme) option" where
  "create path type mj mn s = do {
     (d, name, s) \<leftarrow> nameiparent path (\<lambda>_. 0) s;
     (case d of
        None \<Rightarrow> Some (None, s)
      | Some dp \<Rightarrow> do {
          s \<leftarrow> ilock dp s;
          (e, s) \<leftarrow> dirlookup dp name s;
          (case e of
             Some (ip, _) \<Rightarrow> do {
               s \<leftarrow> iunlockput dp s;
               s \<leftarrow> ilock ip s;
               if type = T_FILE \<and> (itype (inodes s ip) = T_FILE \<or> itype (inodes s ip) = T_DEVICE) then Some (Some ip, s)
               else do {
                 s \<leftarrow> iunlockput ip s;
                 Some (None, s)
               }
             }
           | None \<Rightarrow> do {
               (a, s) \<leftarrow> ialloc (idev (inodes s dp)) type s;
               (case a of
                  None \<Rightarrow> do {
                    s \<leftarrow> iunlockput dp s;
                    Some (None, s)
                  }
                | Some ip \<Rightarrow> create_new name type mj mn dp ip s)
             })
        })
   }"

definition O_RDONLY :: int where "O_RDONLY = 0"
definition O_WRONLY :: int where "O_WRONLY = 0x001"
definition O_RDWR :: int where "O_RDWR = 0x002"
definition O_CREATE :: int where "O_CREATE = 0x200"
definition O_TRUNC :: int where "O_TRUNC = 0x400"

text \<open>\<^verbatim>\<open>sys_open\<close> from the point where the inode is locked.\<close>

definition open_inode :: "int \<Rightarrow> nat \<Rightarrow> 'z procst_scheme \<Rightarrow> (u64 \<times> 'z procst_scheme) option" where
  "open_inode omode ip s =
     (if itype (inodes s ip) = T_DEVICE \<and> (sint (imajor (inodes s ip)) < 0 \<or> sint (imajor (inodes s ip)) \<ge> int NDEV) then do {
        s \<leftarrow> iunlockput ip s;
        end_ret (-1) s
      } else do {
        (e, s) \<leftarrow> filealloc s;
        (fd, s) \<leftarrow> (case e of None \<Rightarrow> Some (-1, s) | Some f \<Rightarrow> fdalloc f s);
        (case e of
           None \<Rightarrow> do {
             s \<leftarrow> iunlockput ip s;
             end_ret (-1) s
           }
         | Some f \<Rightarrow>
             if fd < 0 then do {
               s \<leftarrow> fileclose f s;
               s \<leftarrow> iunlockput ip s;
               end_ret (-1) s
             } else do {
               let s = (if itype (inodes s ip) = T_DEVICE
                        then upd_file f (\<lambda>x. x\<lparr>ftype := FD_DEVICE, fmajor := imajor (inodes s ip)\<rparr>) s
                        else upd_file f (\<lambda>x. x\<lparr>ftype := FD_INODE, foff := 0\<rparr>) s);
               let s = upd_file f (\<lambda>x. x\<lparr>fip := ip, freadable := (omode AND O_WRONLY = 0),
                          fwritable := (omode AND O_WRONLY \<noteq> 0 \<or> omode AND O_RDWR \<noteq> 0)\<rparr>) s;
               s \<leftarrow> (if omode AND O_TRUNC \<noteq> 0 \<and> itype (inodes s ip) = T_FILE then itrunc ip s else Some s);
               s \<leftarrow> iunlock ip s;
               end_ret (to_u64 fd) s
             })
      })"

definition sys_open :: "'z procst_scheme \<Rightarrow> (u64 \<times> 'z procst_scheme) option" where
  "sys_open s = do {
     (omode, s) \<leftarrow> argint 1 s;
     (r, path, s) \<leftarrow> argstr 0 MAXPATH s;
     if r < 0 then Some (-1, s)
     else do {
       s \<leftarrow> begin_op s;
       if omode AND O_CREATE \<noteq> 0 then do {
         (e, s) \<leftarrow> create path T_FILE 0 0 s;
         (case e of
            None \<Rightarrow> end_ret (-1) s
          | Some ip \<Rightarrow> open_inode omode ip s)
       } else do {
         (e, s) \<leftarrow> namei path s;
         (case e of
            None \<Rightarrow> end_ret (-1) s
          | Some ip \<Rightarrow> do {
              s \<leftarrow> ilock ip s;
              if itype (inodes s ip) = T_DIR \<and> omode \<noteq> O_RDONLY then do {
                s \<leftarrow> iunlockput ip s;
                end_ret (-1) s
              } else open_inode omode ip s
            })
       }
     }
   }"

text \<open>The common end of \<^verbatim>\<open>sys_mkdir\<close> and \<^verbatim>\<open>sys_mknod\<close>.\<close>

definition created :: "nat option \<Rightarrow> 'z procst_scheme \<Rightarrow> (u64 \<times> 'z procst_scheme) option" where
  "created e s =
     (case e of
        None \<Rightarrow> end_ret (-1) s
      | Some ip \<Rightarrow> do {
          s \<leftarrow> iunlockput ip s;
          end_ret 0 s
        })"

definition sys_mkdir :: "'z procst_scheme \<Rightarrow> (u64 \<times> 'z procst_scheme) option" where
  "sys_mkdir s = do {
     s \<leftarrow> begin_op s;
     (r, path, s) \<leftarrow> argstr 0 MAXPATH s;
     (e, s) \<leftarrow> (if r < 0 then Some (None, s) else create path T_DIR 0 0 s);
     created e s
   }"

definition sys_mknod :: "'z procst_scheme \<Rightarrow> (u64 \<times> 'z procst_scheme) option" where
  "sys_mknod s = do {
     s \<leftarrow> begin_op s;
     (mj, s) \<leftarrow> argint 1 s;
     (mn, s) \<leftarrow> argint 2 s;
     (r, path, s) \<leftarrow> argstr 0 MAXPATH s;
     (e, s) \<leftarrow> (if r < 0 then Some (None, s) else create path T_DEVICE (word_of_int mj) (word_of_int mn) s);
     created e s
   }"

definition sys_chdir :: "'z procst_scheme \<Rightarrow> (u64 \<times> 'z procst_scheme) option" where
  "sys_chdir s = do {
     (me, s) \<leftarrow> myproc s;
     p \<leftarrow> me;
     s \<leftarrow> begin_op s;
     (r, path, s) \<leftarrow> argstr 0 MAXPATH s;
     (e, s) \<leftarrow> (if r < 0 then Some (None, s) else namei path s);
     (case e of
        None \<Rightarrow> end_ret (-1) s
      | Some ip \<Rightarrow> do {
          s \<leftarrow> ilock ip s;
          if itype (inodes s ip) \<noteq> T_DIR then do {
            s \<leftarrow> iunlockput ip s;
            end_ret (-1) s
          } else do {
            s \<leftarrow> iunlock ip s;
            c \<leftarrow> cwd (procs s p);
            s \<leftarrow> iput c s;
            s \<leftarrow> end_op s;
            Some (0, upd_proc p (\<lambda>x. x\<lparr>cwd := Some ip\<rparr>) s)
          }
        })
   }"

section \<open>Pipes\<close>

definition set_ofile :: "nat \<Rightarrow> int \<Rightarrow> nat option \<Rightarrow> 'z ptable_scheme \<Rightarrow> 'z ptable_scheme" where
  "set_ofile p fd v s = upd_proc p (\<lambda>x. x\<lparr>ofile := (ofile x)(nat fd := v)\<rparr>) s"

definition close_pair :: "nat \<Rightarrow> nat \<Rightarrow> 'z procst_scheme \<Rightarrow> (u64 \<times> 'z procst_scheme) option" where
  "close_pair rfl wfl s = do {
     s \<leftarrow> fileclose rfl s;
     s \<leftarrow> fileclose wfl s;
     Some (-1, s)
   }"

text \<open>The body of \<^verbatim>\<open>sys_pipe\<close> after its argument; \<^verbatim>\<open>sys_pipe2\<close> repeats the same statements.\<close>

definition make_pipe :: "nat \<Rightarrow> u64 \<Rightarrow> 'z procst_scheme \<Rightarrow> (u64 \<times> 'z procst_scheme) option" where
  "make_pipe p fdarray s = do {
     (e, s) \<leftarrow> pipealloc s;
     (case e of
        None \<Rightarrow> Some (-1, s)
      | Some (rfl, wfl) \<Rightarrow> do {
          (fd0, s) \<leftarrow> fdalloc rfl s;
          (fd1, s) \<leftarrow> (if fd0 < 0 then Some (-1, s) else fdalloc wfl s);
          if fd0 < 0 \<or> fd1 < 0 then do {
            let s = (if fd0 \<ge> 0 then set_ofile p fd0 None s else s);
            close_pair rfl wfl s
          } else do {
            (r, s) \<leftarrow> copyout (pagetable (procs s p)) fdarray (int_bytes fd0) s;
            (r, s) \<leftarrow> (if r < 0 then Some (-1, s)
                      else copyout (pagetable (procs s p)) (fdarray + 4) (int_bytes fd1) s);
            if r < 0 then do {
              let s = set_ofile p fd0 None s;
              let s = set_ofile p fd1 None s;
              close_pair rfl wfl s
            } else Some (0, s)
          }
        })
   }"

definition sys_pipe :: "'z procst_scheme \<Rightarrow> (u64 \<times> 'z procst_scheme) option" where
  "sys_pipe s = do {
     (me, s) \<leftarrow> myproc s;
     p \<leftarrow> me;
     (fdarray, s) \<leftarrow> argaddr 0 s;
     make_pipe p fdarray s
   }"

end
