(* ===== verification/Exec.thy ===== *)
theory Exec
  imports Sysfile
begin

text \<open>
  \<^verbatim>\<open>kernel/exec.c\<close> and \<^verbatim>\<open>sys_exec\<close> of \<^verbatim>\<open>kernel/sysfile.c\<close>. The ELF structures are read at their
  byte offsets. The argument strings of \<^verbatim>\<open>kexec\<close> are passed by content, as lists of bytes
  without the NUL; \<open>sys_exec\<close> reads them from the pages it allocated for them. The label
  \<^verbatim>\<open>bad\<close> is \<open>kexec_bad\<close>, whose arguments are the values of the locals at the jump.
\<close>

definition ELF_MAGIC :: u32 where "ELF_MAGIC = 0x464C457F"
definition ELF_PROG_LOAD :: u32 where "ELF_PROG_LOAD = 1"

definition get64 :: "carr \<Rightarrow> nat \<Rightarrow> u64" where
  "get64 d i = load64 d i"

record elfhdr =
  elf_magic :: u32
  elf_entry :: u64
  elf_phoff :: u64
  elf_phnum :: u16

definition get_elfhdr :: "carr \<Rightarrow> elfhdr" where
  "get_elfhdr d = \<lparr>elf_magic = get32 d 0, elf_entry = get64 d 24, elf_phoff = get64 d 32, elf_phnum = get16 d 56\<rparr>"

record proghdr =
  ph_type :: u32
  ph_flags :: u32
  ph_off :: u64
  ph_vaddr :: u64
  ph_filesz :: u64
  ph_memsz :: u64

definition get_proghdr :: "carr \<Rightarrow> proghdr" where
  "get_proghdr d = \<lparr>ph_type = get32 d 0, ph_flags = get32 d 4, ph_off = get64 d 8, ph_vaddr = get64 d 16,
     ph_filesz = get64 d 32, ph_memsz = get64 d 40\<rparr>"

definition flags2perm :: "u32 \<Rightarrow> u64" where
  "flags2perm flags =
     (let perm = (if flags AND 1 \<noteq> 0 then PTE_X else 0)
      in if flags AND 2 \<noteq> 0 then perm OR PTE_W else perm)"

partial_function (option) loadseg_from ::
  "nat \<Rightarrow> u64 \<Rightarrow> nat \<Rightarrow> u32 \<Rightarrow> u32 \<Rightarrow> u32 \<Rightarrow> 'z fsst_scheme \<Rightarrow> (int \<times> 'z fsst_scheme) option" where
  "loadseg_from pt va ip offset sz i s =
     (if i < sz then do {
        (pa, s) \<leftarrow> walkaddr pt (va + ucast i) s;
        if pa = 0 then None
        else do {
          let n = (if sz - i < of_nat PGSIZE then sz - i else of_nat PGSIZE);
          (r, _, s) \<leftarrow> readi ip (KernDst pa) (offset + i) n s;
          if word_of_int r \<noteq> n then Some (-1, s)
          else loadseg_from pt va ip offset sz (i + of_nat PGSIZE) s
        }
      } else Some (0, s))"

definition loadseg :: "nat \<Rightarrow> u64 \<Rightarrow> nat \<Rightarrow> u32 \<Rightarrow> u32 \<Rightarrow> 'z fsst_scheme \<Rightarrow> (int \<times> 'z fsst_scheme) option" where
  "loadseg pt va ip offset sz s = loadseg_from pt va ip offset sz 0 s"

definition kexec_bad :: "nat \<Rightarrow> u64 \<Rightarrow> nat option \<Rightarrow> 'z procst_scheme \<Rightarrow> (int \<times> 'z procst_scheme) option" where
  "kexec_bad pt sz ip s = do {
     s \<leftarrow> (if pt \<noteq> 0 then proc_freepagetable pt sz s else Some s);
     (case ip of
        None \<Rightarrow> Some (-1, s)
      | Some ip \<Rightarrow> do {
          s \<leftarrow> iunlockput ip s;
          s \<leftarrow> end_op s;
          Some (-1, s)
        })
   }"

text \<open>The loop over the program headers, with the number of headers left; the flag says whether it
  ran to its end.\<close>

fun kexec_load :: "nat \<Rightarrow> nat \<Rightarrow> u32 \<Rightarrow> nat \<Rightarrow> u64 \<Rightarrow> 'z procst_scheme \<Rightarrow> (bool \<times> u64 \<times> 'z procst_scheme) option" where
  "kexec_load ip pt off 0 sz s = Some (True, sz, s)"
| "kexec_load ip pt off (Suc k) sz s = do {
     (r, bs, s) \<leftarrow> readi ip KernObj off 56 s;
     if r \<noteq> 56 then Some (False, sz, s)
     else let ph = get_proghdr (fill bs)
     in if ph_type ph \<noteq> ELF_PROG_LOAD then kexec_load ip pt (off + 56) k sz s
     else if ph_memsz ph < ph_filesz ph then Some (False, sz, s)
     else if ph_vaddr ph + ph_memsz ph < ph_vaddr ph then Some (False, sz, s)
     else if ph_vaddr ph mod of_nat PGSIZE \<noteq> 0 then Some (False, sz, s)
     else do {
       (sz1, s) \<leftarrow> uvmalloc pt sz (ph_vaddr ph + ph_memsz ph) (flags2perm (ph_flags ph)) s;
       if sz1 = 0 then Some (False, sz, s)
       else do {
         (r, s) \<leftarrow> loadseg pt (ph_vaddr ph) ip (ucast (ph_off ph)) (ucast (ph_filesz ph)) s;
         if r < 0 then Some (False, sz1, s)
         else kexec_load ip pt (off + 56) k sz1 s
       }
     }
   }"

text \<open>Copying the argument strings; \<open>ustack\<close> are the addresses pushed so far.\<close>

fun push_args ::
  "nat \<Rightarrow> u64 \<Rightarrow> u64 \<Rightarrow> u64 list \<Rightarrow> u8 list list \<Rightarrow> 'z procst_scheme \<Rightarrow> ((u64 \<times> u64 list) option \<times> 'z procst_scheme) option" where
  "push_args pt stackbase sp ustack [] s = Some (Some (sp, ustack), s)"
| "push_args pt stackbase sp ustack (a # as) s =
     (if length ustack \<ge> MAXARG then Some (None, s)
      else let sp = sp - (of_nat (length a) + 1);
               sp = sp - sp mod 16
           in if sp < stackbase then Some (None, s)
              else do {
                (r, s) \<leftarrow> copyout pt sp (a @ [0]) s;
                if r < 0 then Some (None, s)
                else push_args pt stackbase sp (ustack @ [sp]) as s
              })"

definition u64_bytes :: "u64 \<Rightarrow> u8 list" where
  "u64_bytes v = map (\<lambda>i. ucast (drop_bit (8 * i) v)) [0..<8]"

text \<open>The part of the path after its last slash.\<close>

definition last_elem :: "carr \<Rightarrow> nat \<Rightarrow> nat" where
  "last_elem path n = fold (\<lambda>i lst. if path i = slash then i + 1 else lst) [0..<n] 0"

text \<open>From the stack set-up to the end, \<open>sz\<close> being the size of the loaded image.\<close>

definition kexec_stack ::
  "nat \<Rightarrow> carr \<Rightarrow> u8 list list \<Rightarrow> u64 \<Rightarrow> nat \<Rightarrow> u64 \<Rightarrow> 'z procst_scheme \<Rightarrow> (int \<times> 'z procst_scheme) option" where
  "kexec_stack p path argv entry pt sz s = do {
     let oldsz = psz (procs s p);
     let sz = PGROUNDUP sz;
     (sz1, s) \<leftarrow> uvmalloc pt sz (sz + of_nat ((USERSTACK + 1) * PGSIZE)) PTE_W s;
     if sz1 = 0 then kexec_bad pt sz None s
     else do {
       let sz = sz1;
       s \<leftarrow> uvmclear pt (sz - of_nat ((USERSTACK + 1) * PGSIZE)) s;
       let stackbase = sz - of_nat (USERSTACK * PGSIZE);
       (e, s) \<leftarrow> push_args pt stackbase sz [] argv s;
       (case e of
          None \<Rightarrow> kexec_bad pt sz None s
        | Some (sp, ustack) \<Rightarrow> do {
            let argc = length ustack;
            let sp = sp - of_nat ((argc + 1) * 8);
            let sp = sp - sp mod 16;
            if sp < stackbase then kexec_bad pt sz None s
            else do {
              (r, s) \<leftarrow> copyout pt sp (concat (map u64_bytes (ustack @ [0]))) s;
              if r < 0 then kexec_bad pt sz None s
              else do {
                let s = tf_set p (tf_a 1) sp s;
                n \<leftarrow> strlen path;
                let lst = last_elem path n;
                let s = upd_proc p (\<lambda>x. x\<lparr>pname := safestrcpy (pname x) (\<lambda>i. path (lst + i)) 16\<rparr>) s;
                let oldpt = pagetable (procs s p);
                let s = upd_proc p (\<lambda>x. x\<lparr>pagetable := pt, psz := sz\<rparr>) s;
                let s = tf_set p tf_epc entry s;
                let s = tf_set p tf_sp sp s;
                s \<leftarrow> proc_freepagetable oldpt oldsz s;
                Some (int argc, s)
              }
            }
          })
     }
   }"

definition kexec :: "carr \<Rightarrow> u8 list list \<Rightarrow> 'z procst_scheme \<Rightarrow> (int \<times> 'z procst_scheme) option" where
  "kexec path argv s = do {
     (me, s) \<leftarrow> myproc s;
     p \<leftarrow> me;
     s \<leftarrow> begin_op s;
     (e, s) \<leftarrow> namei path s;
     (case e of
        None \<Rightarrow> do {
          s \<leftarrow> end_op s;
          Some (-1, s)
        }
      | Some ip \<Rightarrow> do {
          s \<leftarrow> ilock ip s;
          (r, bs, s) \<leftarrow> readi ip KernObj 0 64 s;
          let elf = get_elfhdr (fill bs);
          if r \<noteq> 64 then kexec_bad 0 0 (Some ip) s
          else if elf_magic elf \<noteq> ELF_MAGIC then kexec_bad 0 0 (Some ip) s
          else do {
            (pt, s) \<leftarrow> proc_pagetable p s;
            if pt = 0 then kexec_bad 0 0 (Some ip) s
            else do {
              (done, sz, s) \<leftarrow> kexec_load ip pt (ucast (elf_phoff elf)) (unat (elf_phnum elf)) 0 s;
              if \<not> done then kexec_bad pt sz (Some ip) s
              else do {
                s \<leftarrow> iunlockput ip s;
                s \<leftarrow> end_op s;
                kexec_stack p path argv (elf_entry elf) pt sz s
              }
            }
          }
        })
   }"

section \<open>sys\_exec\<close>

text \<open>The loop that fetches the argument vector; \<open>ps\<close> are the pages allocated so far. The flag is
  false for a jump to \<^verbatim>\<open>bad\<close>.\<close>

fun exec_args :: "u64 \<Rightarrow> nat list \<Rightarrow> nat list \<Rightarrow> 'z procst_scheme \<Rightarrow> (bool \<times> nat list \<times> 'z procst_scheme) option" where
  "exec_args uargv [] ps s = Some (False, ps, s)"
| "exec_args uargv (i # is) ps s = do {
     (r, uarg, s) \<leftarrow> fetchaddr (uargv + of_nat (8 * i)) s;
     if r < 0 then Some (False, ps, s)
     else if uarg = 0 then Some (True, ps, s)
     else do {
       (pg, s) \<leftarrow> kalloc s;
       if pg = 0 then Some (False, ps, s)
       else do {
         (r, bs, s) \<leftarrow> fetchstr uarg PGSIZE s;
         let s = s\<lparr>mem := mem_put pg bs (mem s)\<rparr>;
         if r < 0 then Some (False, ps @ [pg], s)
         else exec_args uargv is (ps @ [pg]) s
       }
     }
   }"

fun free_pages :: "nat list \<Rightarrow> 'z kmem_scheme \<Rightarrow> 'z kmem_scheme option" where
  "free_pages [] s = Some s"
| "free_pages (pg # ps) s = do {
     s \<leftarrow> kfree pg s;
     free_pages ps s
   }"

definition str_at :: "memory \<Rightarrow> nat \<Rightarrow> u8 list" where
  "str_at m a = takeWhile (\<lambda>c. c \<noteq> 0) (mem_get m a PGSIZE)"

definition sys_exec :: "'z procst_scheme \<Rightarrow> (u64 \<times> 'z procst_scheme) option" where
  "sys_exec s = do {
     (uargv, s) \<leftarrow> argaddr 1 s;
     (r, path, s) \<leftarrow> argstr 0 MAXPATH s;
     if r < 0 then Some (-1, s)
     else do {
       (ok, ps, s) \<leftarrow> exec_args uargv [0..<MAXARG] [] s;
       if \<not> ok then do {
         s \<leftarrow> free_pages ps s;
         Some (-1, s)
       } else do {
         (ret, s) \<leftarrow> kexec path (map (str_at (mem s)) ps) s;
         s \<leftarrow> free_pages ps s;
         Some (to_u64 ret, s)
       }
     }
   }"

end
