(* ===== verification/Sysproc.thy ===== *)
theory Sysproc
  imports Exec
begin

text \<open>
  The process system calls of \<^verbatim>\<open>kernel/sysproc.c\<close>, the calls \<^verbatim>\<open>kernel/sysproc_custom.c\<close> adds
  to the kernel, and the dispatcher \<^verbatim>\<open>syscall()\<close> of \<^verbatim>\<open>kernel/syscall.c\<close>.

  Calls that may block are split at the point where they give up the processor:
  \<open>sys_pause_start\<close> and \<open>sys_mutex_lock_start\<close> run up to it, the \<open>_resume\<close> forms go on from
  there, and the plain forms are the calls that need not wait.
\<close>

section \<open>sysproc.c\<close>

definition sys_exit :: "'z procst_scheme \<Rightarrow> (bool \<times> 'z procst_scheme) option" where
  "sys_exit s = do {
     (n, s) \<leftarrow> argint 0 s;
     kexit n s
   }"

definition sys_getpid :: "'z procst_scheme \<Rightarrow> (u64 \<times> 'z procst_scheme) option" where
  "sys_getpid s = do {
     (me, s) \<leftarrow> myproc s;
     p \<leftarrow> me;
     Some (to_u64 (pid (procs s p)), s)
   }"

definition sys_fork :: "'z procst_scheme \<Rightarrow> (u64 \<times> 'z procst_scheme) option" where
  "sys_fork s = do {
     (r, s) \<leftarrow> kfork s;
     Some (to_u64 r, s)
   }"

definition sys_wait :: "'z procst_scheme \<Rightarrow> (u64 \<times> 'z procst_scheme) option" where
  "sys_wait s = do {
     (p, s) \<leftarrow> argaddr 0 s;
     (r, s) \<leftarrow> kwait p s;
     Some (to_u64 r, s)
   }"

definition SBRK_EAGER :: int where "SBRK_EAGER = 1"
definition SBRK_LAZY :: int where "SBRK_LAZY = 2"

definition sys_sbrk :: "'z procst_scheme \<Rightarrow> (u64 \<times> 'z procst_scheme) option" where
  "sys_sbrk s = do {
     (n, s) \<leftarrow> argint 0 s;
     (t, s) \<leftarrow> argint 1 s;
     (me, s) \<leftarrow> myproc s;
     p \<leftarrow> me;
     let addr = psz (procs s p);
     if t = SBRK_EAGER \<or> n < 0 then do {
       (r, s) \<leftarrow> growproc n s;
       Some (if r < 0 then -1 else addr, s)
     } else if addr + word_of_int n < addr then Some (-1, s)
     else if addr + word_of_int n > TRAPFRAME then Some (-1, s)
     else do {
       (me, s) \<leftarrow> myproc s;
       p \<leftarrow> me;
       Some (addr, upd_proc p (\<lambda>x. x\<lparr>psz := psz x + word_of_int n\<rparr>) s)
     }
   }"

definition sys_pause_loop :: "int \<Rightarrow> u32 \<Rightarrow> 'z procst_scheme \<Rightarrow> (pipe_ret \<times> 'z procst_scheme) option" where
  "sys_pause_loop n ticks0 s =
     (if ticks s - ticks0 < word_of_int n then do {
        (me, s) \<leftarrow> myproc s;
        p \<leftarrow> me;
        (k, s) \<leftarrow> killed p s;
        if k then do {
          s \<leftarrow> release TicksLock s;
          Some (PRet (-1), s)
        } else do {
          (ie, s) \<leftarrow> sleep_out (Some ChanTicks) TicksLock s;
          Some (PWait n ie, s)
        }
      } else do {
        s \<leftarrow> release TicksLock s;
        Some (PRet 0, s)
      })"

text \<open>The second component of the result is \<^verbatim>\<open>ticks0\<close>, which a waiting call keeps.\<close>

definition sys_pause_start :: "'z procst_scheme \<Rightarrow> (pipe_ret \<times> u32 \<times> 'z procst_scheme) option" where
  "sys_pause_start s = do {
     (n, s) \<leftarrow> argint 0 s;
     let n = (if n < 0 then 0 else n);
     s \<leftarrow> acquire TicksLock s;
     let ticks0 = ticks s;
     (r, s) \<leftarrow> sys_pause_loop n ticks0 s;
     Some (r, ticks0, s)
   }"

definition sys_pause_resume ::
  "nat \<Rightarrow> int \<Rightarrow> u32 \<Rightarrow> bool \<Rightarrow> 'z procst_scheme \<Rightarrow> (pipe_ret \<times> 'z procst_scheme) option" where
  "sys_pause_resume p n ticks0 ie s = do {
     s \<leftarrow> sleep_in p TicksLock ie s;
     sys_pause_loop n ticks0 s
   }"

definition sys_pause :: "'z procst_scheme \<Rightarrow> (u64 \<times> 'z procst_scheme) option" where
  "sys_pause s = do {
     (r, _, s) \<leftarrow> sys_pause_start s;
     (case r of PRet v \<Rightarrow> Some (to_u64 v, s) | PWait _ _ \<Rightarrow> None)
   }"

definition sys_kill :: "'z procst_scheme \<Rightarrow> (u64 \<times> 'z procst_scheme) option" where
  "sys_kill s = do {
     (i, s) \<leftarrow> argint 0 s;
     (r, s) \<leftarrow> kkill i s;
     Some (to_u64 r, s)
   }"

definition sys_uptime :: "'z procst_scheme \<Rightarrow> (u64 \<times> 'z procst_scheme) option" where
  "sys_uptime s = do {
     s \<leftarrow> acquire TicksLock s;
     let xticks = ticks s;
     s \<leftarrow> release TicksLock s;
     Some (ucast xticks, s)
   }"

section \<open>sysproc\_custom.c\<close>

fun state_num :: "procstate \<Rightarrow> int" where
  "state_num UNUSED = 0"
| "state_num USED = 1"
| "state_num SLEEPING = 2"
| "state_num RUNNABLE = 3"
| "state_num RUNNING = 4"
| "state_num ZOMBIE = 5"

record pinfo =
  pi_pid :: int
  pi_state :: int
  pi_ppid :: int
  pi_name :: carr

text \<open>The 28 bytes of a \<^verbatim>\<open>struct pinfo\<close>.\<close>

definition pinfo_bytes :: "pinfo \<Rightarrow> u8 list" where
  "pinfo_bytes x = int_bytes (pi_pid x) @ int_bytes (pi_state x) @ int_bytes (pi_ppid x) @ map (pi_name x) [0..<16]"

text \<open>\<open>junk\<close> is what the local \<^verbatim>\<open>info.name\<close> held before \<^verbatim>\<open>safestrcpy\<close>.\<close>

fun getpinfo_from ::
  "carr \<Rightarrow> int \<Rightarrow> u64 \<Rightarrow> nat list \<Rightarrow> 'z procst_scheme \<Rightarrow> (u64 \<times> 'z procst_scheme) option" where
  "getpinfo_from junk i addr [] s = Some (-1, s)"
| "getpinfo_from junk i addr (p # ps) s = do {
     s \<leftarrow> acquire (ProcLock p) s;
     if pid (procs s p) = i then do {
       let x = procs s p;
       let info = \<lparr>pi_pid = pid x, pi_state = state_num (pstate x),
                   pi_ppid = (case parent x of None \<Rightarrow> 0 | Some q \<Rightarrow> pid (procs s q)),
                   pi_name = safestrcpy junk (pname x) 16\<rparr>;
       s \<leftarrow> release (ProcLock p) s;
       (me, s) \<leftarrow> myproc s;
       caller \<leftarrow> me;
       (r, s) \<leftarrow> copyout (pagetable (procs s caller)) addr (pinfo_bytes info) s;
       Some (if r < 0 then -1 else 0, s)
     } else do {
       s \<leftarrow> release (ProcLock p) s;
       getpinfo_from junk i addr ps s
     }
   }"

definition sys_getpinfo :: "carr \<Rightarrow> 'z procst_scheme \<Rightarrow> (u64 \<times> 'z procst_scheme) option" where
  "sys_getpinfo junk s = do {
     (i, s) \<leftarrow> argint 0 s;
     (addr, s) \<leftarrow> argaddr 1 s;
     if addr = 0 then Some (-1, s)
     else getpinfo_from junk i addr [0..<NPROC] s
   }"

text \<open>The flags are fetched and then not used.\<close>

definition sys_pipe2 :: "'z procst_scheme \<Rightarrow> (u64 \<times> 'z procst_scheme) option" where
  "sys_pipe2 s = do {
     (fdarray, s) \<leftarrow> argaddr 0 s;
     (flags, s) \<leftarrow> argint 1 s;
     (me, s) \<leftarrow> myproc s;
     p \<leftarrow> me;
     make_pipe p fdarray s
   }"

definition sys_thread_create :: "'z procst_scheme \<Rightarrow> (u64 \<times> 'z procst_scheme) option" where
  "sys_thread_create s = do {
     (fcn, s) \<leftarrow> argaddr 0 s;
     (arg, s) \<leftarrow> argaddr 1 s;
     (stack, s) \<leftarrow> argaddr 2 s;
     if stack = 0 then Some (-1, s)
     else do {
       (me, s) \<leftarrow> myproc s;
       pa \<leftarrow> me;
       (e, s) \<leftarrow> allocproc s;
       (case e of
          None \<Rightarrow> Some (-1, s)
        | Some t \<Rightarrow> do {
            (r, s) \<leftarrow> uvmcopy (pagetable (procs s pa)) (pagetable (procs s t)) (psz (procs s pa)) s;
            if r < 0 then do {
              s \<leftarrow> freeproc t s;
              s \<leftarrow> release (ProcLock t) s;
              Some (-1, s)
            } else do {
              let s = upd_proc t (\<lambda>x. x\<lparr>psz := psz (procs s pa)\<rparr>) s;
              let s = tf_copy t pa s;
              let s = tf_set t tf_epc fcn s;
              let s = tf_set t tf_sp stack s;
              let s = tf_set t (tf_a 0) arg s;
              s \<leftarrow> dup_env pa t s;
              let tid = pid (procs s t);
              let s = upd_proc t (\<lambda>x. x\<lparr>parent := Some pa, pstate := RUNNABLE\<rparr>) s;
              s \<leftarrow> release (ProcLock t) s;
              Some (to_u64 tid, s)
            }
          })
     }
   }"

text \<open>One round of the loop of \<^verbatim>\<open>sys_mutex_lock\<close>; it ends in a return or in \<^verbatim>\<open>yield\<close>.\<close>

definition mutex_round :: "nat \<Rightarrow> u64 \<Rightarrow> 'z procst_scheme \<Rightarrow> (pipe_ret \<times> 'z procst_scheme) option" where
  "mutex_round p addr s = do {
     (r, bs, s) \<leftarrow> copyin (pagetable (procs s p)) addr 4 s;
     if r < 0 then Some (PRet (-1), s)
     else if get32 (fill bs) 0 = 0 then do {
       (r, s) \<leftarrow> copyout (pagetable (procs s p)) addr (int_bytes 1) s;
       Some (PRet (if r < 0 then -1 else 0), s)
     } else do {
       (ie, s) \<leftarrow> yield_out s;
       Some (PWait 0 ie, s)
     }
   }"

definition sys_mutex_lock_start :: "'z procst_scheme \<Rightarrow> (pipe_ret \<times> 'z procst_scheme) option" where
  "sys_mutex_lock_start s = do {
     (addr, s) \<leftarrow> argaddr 0 s;
     if addr = 0 then Some (PRet (-1), s)
     else do {
       (me, s) \<leftarrow> myproc s;
       p \<leftarrow> me;
       mutex_round p addr s
     }
   }"

definition sys_mutex_lock_resume :: "nat \<Rightarrow> u64 \<Rightarrow> bool \<Rightarrow> 'z procst_scheme \<Rightarrow> (pipe_ret \<times> 'z procst_scheme) option" where
  "sys_mutex_lock_resume p addr ie s = do {
     s \<leftarrow> yield_in p ie s;
     mutex_round p addr s
   }"

definition sys_mutex_lock :: "'z procst_scheme \<Rightarrow> (u64 \<times> 'z procst_scheme) option" where
  "sys_mutex_lock s = do {
     (r, s) \<leftarrow> sys_mutex_lock_start s;
     (case r of PRet v \<Rightarrow> Some (to_u64 v, s) | PWait _ _ \<Rightarrow> None)
   }"

definition sys_mutex_unlock :: "'z procst_scheme \<Rightarrow> (u64 \<times> 'z procst_scheme) option" where
  "sys_mutex_unlock s = do {
     (addr, s) \<leftarrow> argaddr 0 s;
     if addr = 0 then Some (-1, s)
     else do {
       (me, s) \<leftarrow> myproc s;
       p \<leftarrow> me;
       (r, s) \<leftarrow> copyout (pagetable (procs s p)) addr (int_bytes 0) s;
       Some (if r < 0 then -1 else 0, s)
     }
   }"

text \<open>What a signal does to the entry of its target.\<close>

definition signal :: "int \<Rightarrow> proc \<Rightarrow> proc" where
  "signal signum x =
     (let x = x\<lparr>pending_sig := signum\<rparr>
      in if signum = 1 then
           (let x = x\<lparr>pkilled := True\<rparr> in if pstate x = SLEEPING then x\<lparr>pstate := RUNNABLE\<rparr> else x)
         else if signum = 2 then
           (if pstate x = RUNNABLE \<or> pstate x = RUNNING then x\<lparr>pstate := SLEEPING\<rparr> else x)
         else if signum = 3 then
           (if pstate x = SLEEPING then x\<lparr>pstate := RUNNABLE\<rparr> else x)
         else x)"

fun sendsig_from :: "int \<Rightarrow> int \<Rightarrow> nat list \<Rightarrow> 'z ptable_scheme \<Rightarrow> (u64 \<times> 'z ptable_scheme) option" where
  "sendsig_from i signum [] s = Some (-1, s)"
| "sendsig_from i signum (p # ps) s = do {
     s \<leftarrow> acquire (ProcLock p) s;
     if pid (procs s p) = i \<and> pstate (procs s p) \<noteq> UNUSED then do {
       let s = upd_proc p (signal signum) s;
       s \<leftarrow> release (ProcLock p) s;
       Some (0, s)
     } else do {
       s \<leftarrow> release (ProcLock p) s;
       sendsig_from i signum ps s
     }
   }"

definition sys_sendsig :: "'z procst_scheme \<Rightarrow> (u64 \<times> 'z procst_scheme) option" where
  "sys_sendsig s = do {
     (i, s) \<leftarrow> argint 0 s;
     (signum, s) \<leftarrow> argint 1 s;
     if i \<le> 0 \<or> signum \<le> 0 then Some (-1, s)
     else sendsig_from i signum [0..<NPROC] s
   }"

section \<open>Dispatch\<close>

text \<open>
  \<open>Back\<close>: the call returned and its result is in \<^verbatim>\<open>a0\<close>. \<open>Gone ie\<close>: the process exited and has
  switched to the scheduler.
\<close>

datatype sys_end = Back | Gone bool

definition sys_table :: "u8 list \<Rightarrow> carr \<Rightarrow> int \<Rightarrow> ('z procst_scheme \<Rightarrow> (u64 \<times> 'z procst_scheme) option) option" where
  "sys_table pad junk num =
     map_of [(1, sys_fork), (3, sys_wait), (4, sys_pipe), (5, sys_read), (6, sys_kill), (7, sys_exec),
       (8, sys_fstat pad), (9, sys_chdir), (10, sys_dup), (11, sys_getpid), (12, sys_sbrk), (13, sys_pause),
       (14, sys_uptime), (15, sys_open), (16, sys_write), (17, sys_mknod), (18, sys_unlink), (19, sys_link),
       (20, sys_mkdir), (21, sys_close), (22, sys_getpinfo junk), (23, sys_pipe2), (24, sys_thread_create),
       (25, sys_mutex_lock), (26, sys_mutex_unlock), (27, sys_sendsig)] num"

definition syscall :: "u8 list \<Rightarrow> carr \<Rightarrow> 'z procst_scheme \<Rightarrow> (sys_end \<times> 'z procst_scheme) option" where
  "syscall pad junk s = do {
     (me, s) \<leftarrow> myproc s;
     p \<leftarrow> me;
     let num = c_int (tf_get p (tf_a 7) s);
     if num = 2 then do {
       (ie, s) \<leftarrow> sys_exit s;
       Some (Gone ie, s)
     } else case sys_table pad junk num of
       Some f \<Rightarrow> do {
         (v, s) \<leftarrow> f s;
         Some (Back, tf_set p (tf_a 0) v s)
       }
     | None \<Rightarrow> Some (Back, tf_set p (tf_a 0) (-1) s)
   }"

end
