(* ===== verification/Virtio.thy ===== *)
theory Virtio
  imports Sysproc
begin

text \<open>
  The disk driver, \<^verbatim>\<open>kernel/virtio_disk.c\<close> and \<^verbatim>\<open>kernel/virtio.h\<close>. The three queues live in pages
  the driver shares with the device; here they are tables of the state, and the address in a
  descriptor is named by what it points to (\<open>vaddr\<close>). \<open>vd_owned b\<close> is the field \<^verbatim>\<open>disk\<close> of
  buffer \<open>b\<close>. Memory-mapped registers that the driver reads are given by a parameter of
  \<open>virtio_disk_init\<close>; those it writes are \<open>vd_regs\<close>.

  \<^verbatim>\<open>virtio_disk_rw\<close> is split where it sleeps: for descriptors, or for the completion of its
  request. The device is the relation \<open>vdev_serve\<close>, which states what the virtio specification
  says a block device does with one request.
\<close>

definition NUM :: nat where "NUM = 8"
definition VRING_DESC_F_NEXT :: u16 where "VRING_DESC_F_NEXT = 1"
definition VRING_DESC_F_WRITE :: u16 where "VRING_DESC_F_WRITE = 2"
definition VIRTIO_BLK_T_IN :: u32 where "VIRTIO_BLK_T_IN = 0"
definition VIRTIO_BLK_T_OUT :: u32 where "VIRTIO_BLK_T_OUT = 1"

datatype vaddr = VNull | VReq nat | VData nat | VStatus nat

record virtq_desc =
  vaddr :: vaddr
  vlen :: u32
  vflags :: u16
  vnext :: u16

record virtio_blk_req =
  rtype :: u32
  rreserved :: u32
  rsector :: u64

record vdst = procst +
  vd_desc :: "nat \<Rightarrow> virtq_desc"
  vd_avail_idx :: u16
  vd_avail_ring :: "nat \<Rightarrow> u16"
  vd_used_hw :: u16
  vd_used_ring :: "nat \<Rightarrow> u32"
  vd_free :: "nat \<Rightarrow> bool"
  vd_used_idx :: u16
  vd_info_b :: "nat \<Rightarrow> nat option"
  vd_info_status :: "nat \<Rightarrow> u8"
  vd_ops :: "nat \<Rightarrow> virtio_blk_req"
  vd_owned :: "nat \<Rightarrow> bool"
  vd_regs :: "nat \<Rightarrow> u32"

section \<open>Initialisation\<close>

definition VIRTIO_MMIO_MAGIC_VALUE :: nat where "VIRTIO_MMIO_MAGIC_VALUE = 0x000"
definition VIRTIO_MMIO_VERSION :: nat where "VIRTIO_MMIO_VERSION = 0x004"
definition VIRTIO_MMIO_DEVICE_ID :: nat where "VIRTIO_MMIO_DEVICE_ID = 0x008"
definition VIRTIO_MMIO_VENDOR_ID :: nat where "VIRTIO_MMIO_VENDOR_ID = 0x00c"
definition VIRTIO_MMIO_DEVICE_FEATURES :: nat where "VIRTIO_MMIO_DEVICE_FEATURES = 0x010"
definition VIRTIO_MMIO_DRIVER_FEATURES :: nat where "VIRTIO_MMIO_DRIVER_FEATURES = 0x020"
definition VIRTIO_MMIO_QUEUE_SEL :: nat where "VIRTIO_MMIO_QUEUE_SEL = 0x030"
definition VIRTIO_MMIO_QUEUE_NUM_MAX :: nat where "VIRTIO_MMIO_QUEUE_NUM_MAX = 0x034"
definition VIRTIO_MMIO_QUEUE_NUM :: nat where "VIRTIO_MMIO_QUEUE_NUM = 0x038"
definition VIRTIO_MMIO_QUEUE_READY :: nat where "VIRTIO_MMIO_QUEUE_READY = 0x044"
definition VIRTIO_MMIO_QUEUE_NOTIFY :: nat where "VIRTIO_MMIO_QUEUE_NOTIFY = 0x050"
definition VIRTIO_MMIO_INTERRUPT_ACK :: nat where "VIRTIO_MMIO_INTERRUPT_ACK = 0x064"
definition VIRTIO_MMIO_STATUS :: nat where "VIRTIO_MMIO_STATUS = 0x070"
definition VIRTIO_MMIO_QUEUE_DESC_LOW :: nat where "VIRTIO_MMIO_QUEUE_DESC_LOW = 0x080"
definition VIRTIO_MMIO_QUEUE_DESC_HIGH :: nat where "VIRTIO_MMIO_QUEUE_DESC_HIGH = 0x084"
definition VIRTIO_MMIO_DRIVER_DESC_LOW :: nat where "VIRTIO_MMIO_DRIVER_DESC_LOW = 0x090"
definition VIRTIO_MMIO_DRIVER_DESC_HIGH :: nat where "VIRTIO_MMIO_DRIVER_DESC_HIGH = 0x094"
definition VIRTIO_MMIO_DEVICE_DESC_LOW :: nat where "VIRTIO_MMIO_DEVICE_DESC_LOW = 0x0a0"
definition VIRTIO_MMIO_DEVICE_DESC_HIGH :: nat where "VIRTIO_MMIO_DEVICE_DESC_HIGH = 0x0a4"

definition wreg :: "nat \<Rightarrow> u32 \<Rightarrow> 'z vdst_scheme \<Rightarrow> 'z vdst_scheme" where
  "wreg r v s = s\<lparr>vd_regs := (vd_regs s)(r := v)\<rparr>"

text \<open>The feature bits the driver turns off: 5, 7, 11, 12, 27, 29 and 28.\<close>

definition driver_features :: "u32 \<Rightarrow> u32" where
  "driver_features f = fold (\<lambda>b f. f AND NOT (push_bit b 1)) [5, 7, 11, 12, 27, 29, 28] f"

definition zero_desc :: virtq_desc where
  "zero_desc = \<lparr>vaddr = VNull, vlen = 0, vflags = 0, vnext = 0\<rparr>"

text \<open>\<open>rd\<close> gives the registers as the device presents them; \<open>status\<close> is what it shows in the status
  register after feature negotiation.\<close>

definition virtio_disk_init :: "(nat \<Rightarrow> u32) \<Rightarrow> u32 \<Rightarrow> 'z vdst_scheme \<Rightarrow> 'z vdst_scheme option" where
  "virtio_disk_init rd status s = do {
     let s = s\<lparr>lk := initlock VdiskLock ''virtio_disk'' (lk s)\<rparr>;
     if rd VIRTIO_MMIO_MAGIC_VALUE \<noteq> 0x74726976 \<or> rd VIRTIO_MMIO_VERSION \<noteq> 2
        \<or> rd VIRTIO_MMIO_DEVICE_ID \<noteq> 2 \<or> rd VIRTIO_MMIO_VENDOR_ID \<noteq> 0x554d4551 then None
     else do {
       let s = wreg VIRTIO_MMIO_STATUS 0 s;
       let s = wreg VIRTIO_MMIO_STATUS 1 s;
       let s = wreg VIRTIO_MMIO_STATUS 3 s;
       let s = wreg VIRTIO_MMIO_DRIVER_FEATURES (driver_features (rd VIRTIO_MMIO_DEVICE_FEATURES)) s;
       let s = wreg VIRTIO_MMIO_STATUS 11 s;
       if status AND 8 = 0 then None
       else do {
         let s = wreg VIRTIO_MMIO_QUEUE_SEL 0 s;
         if rd VIRTIO_MMIO_QUEUE_READY \<noteq> 0 then None
         else if rd VIRTIO_MMIO_QUEUE_NUM_MAX = 0 then None
         else if unat (rd VIRTIO_MMIO_QUEUE_NUM_MAX) < NUM then None
         else do {
           (d, s) \<leftarrow> kalloc s;
           (a, s) \<leftarrow> kalloc s;
           (u, s) \<leftarrow> kalloc s;
           if d = 0 \<or> a = 0 \<or> u = 0 then None
           else do {
             let s = s\<lparr>vd_desc := (\<lambda>_. zero_desc)\<rparr>;
             let s = s\<lparr>vd_avail_idx := 0, vd_avail_ring := (\<lambda>_. 0)\<rparr>;
             let s = s\<lparr>vd_used_hw := 0, vd_used_ring := (\<lambda>_. 0)\<rparr>;
             let s = s\<lparr>mem := memset d 0 PGSIZE (mem s)\<rparr>;
             let s = s\<lparr>mem := memset a 0 PGSIZE (mem s)\<rparr>;
             let s = s\<lparr>mem := memset u 0 PGSIZE (mem s)\<rparr>;
             let s = wreg VIRTIO_MMIO_QUEUE_NUM (of_nat NUM) s;
             let s = wreg VIRTIO_MMIO_QUEUE_DESC_LOW (of_nat d) s;
             let s = wreg VIRTIO_MMIO_QUEUE_DESC_HIGH (of_nat (d div 2 ^ 32)) s;
             let s = wreg VIRTIO_MMIO_DRIVER_DESC_LOW (of_nat a) s;
             let s = wreg VIRTIO_MMIO_DRIVER_DESC_HIGH (of_nat (a div 2 ^ 32)) s;
             let s = wreg VIRTIO_MMIO_DEVICE_DESC_LOW (of_nat u) s;
             let s = wreg VIRTIO_MMIO_DEVICE_DESC_HIGH (of_nat (u div 2 ^ 32)) s;
             let s = wreg VIRTIO_MMIO_QUEUE_READY 1 s;
             let s = s\<lparr>vd_free := (\<lambda>i. if i < NUM then True else vd_free s i)\<rparr>;
             Some (wreg VIRTIO_MMIO_STATUS (status OR 4) s)
           }
         }
       }
     }
   }"

section \<open>Descriptors\<close>

definition alloc_desc :: "'z vdst_scheme \<Rightarrow> nat option \<times> 'z vdst_scheme" where
  "alloc_desc s =
     (case find (vd_free s) [0..<NUM] of
        Some i \<Rightarrow> (Some i, s\<lparr>vd_free := (vd_free s)(i := False)\<rparr>)
      | None \<Rightarrow> (None, s))"

definition free_desc :: "nat \<Rightarrow> 'z vdst_scheme \<Rightarrow> 'z vdst_scheme option" where
  "free_desc i s =
     (if i \<ge> NUM then None
      else if vd_free s i then None
      else wakeup (Some ChanDiskFree)
        (s\<lparr>vd_desc := (vd_desc s)(i := zero_desc), vd_free := (vd_free s)(i := True)\<rparr>))"

partial_function (option) free_chain :: "nat \<Rightarrow> 'z vdst_scheme \<Rightarrow> 'z vdst_scheme option" where
  "free_chain i s = do {
     let flag = vflags (vd_desc s i);
     let nxt = unat (vnext (vd_desc s i));
     s \<leftarrow> free_desc i s;
     if flag AND VRING_DESC_F_NEXT \<noteq> 0 then free_chain nxt s else Some s
   }"

fun free_descs :: "nat list \<Rightarrow> 'z vdst_scheme \<Rightarrow> 'z vdst_scheme option" where
  "free_descs [] s = Some s"
| "free_descs (i # is) s = do {
     s \<leftarrow> free_desc i s;
     free_descs is s
   }"

text \<open>\<open>idx\<close> holds the descriptors allocated so far.\<close>

fun alloc3_desc :: "nat \<Rightarrow> nat list \<Rightarrow> 'z vdst_scheme \<Rightarrow> (nat list option \<times> 'z vdst_scheme) option" where
  "alloc3_desc 0 idx s = Some (Some idx, s)"
| "alloc3_desc (Suc k) idx s =
     (case alloc_desc s of
        (Some i, s) \<Rightarrow> alloc3_desc k (idx @ [i]) s
      | (None, s) \<Rightarrow> do {
          s \<leftarrow> free_descs idx s;
          Some (None, s)
        })"

section \<open>Requests\<close>

datatype vd_ret = VDone | VWaitDesc bool | VWaitBuf nat bool

definition put_desc :: "nat \<Rightarrow> virtq_desc \<Rightarrow> 'z vdst_scheme \<Rightarrow> 'z vdst_scheme" where
  "put_desc i d s = s\<lparr>vd_desc := (vd_desc s)(i := d)\<rparr>"

definition submit :: "nat \<Rightarrow> bool \<Rightarrow> nat list \<Rightarrow> 'z vdst_scheme \<Rightarrow> 'z vdst_scheme" where
  "submit b write idx s =
     (let i0 = idx ! 0; i1 = idx ! 1; i2 = idx ! 2;
          sector = ucast (bblockno (bufs s b) * of_nat (BSIZE div 512));
          s = s\<lparr>vd_ops := (vd_ops s)(i0 :=
                \<lparr>rtype = (if write then VIRTIO_BLK_T_OUT else VIRTIO_BLK_T_IN), rreserved = 0, rsector = sector\<rparr>)\<rparr>;
          s = put_desc i0 \<lparr>vaddr = VReq i0, vlen = 16, vflags = VRING_DESC_F_NEXT, vnext = of_nat i1\<rparr> s;
          s = put_desc i1 \<lparr>vaddr = VData b, vlen = of_nat BSIZE,
                vflags = (if write then 0 else VRING_DESC_F_WRITE) OR VRING_DESC_F_NEXT, vnext = of_nat i2\<rparr> s;
          s = s\<lparr>vd_info_status := (vd_info_status s)(i0 := 0xff)\<rparr>;
          s = put_desc i2 \<lparr>vaddr = VStatus i0, vlen = 1, vflags = VRING_DESC_F_WRITE, vnext = 0\<rparr> s;
          s = s\<lparr>vd_owned := (vd_owned s)(b := True), vd_info_b := (vd_info_b s)(i0 := Some b)\<rparr>;
          s = s\<lparr>vd_avail_ring := (vd_avail_ring s)(unat (vd_avail_idx s) mod NUM := of_nat i0)\<rparr>;
          s = s\<lparr>vd_avail_idx := vd_avail_idx s + 1\<rparr>
      in wreg VIRTIO_MMIO_QUEUE_NOTIFY 0 s)"

definition rw_finish :: "nat \<Rightarrow> nat \<Rightarrow> 'z vdst_scheme \<Rightarrow> (vd_ret \<times> 'z vdst_scheme) option" where
  "rw_finish b i0 s =
     (if vd_owned s b then do {
        (ie, s) \<leftarrow> sleep_out (Some (ChanBuf b)) VdiskLock s;
        Some (VWaitBuf i0 ie, s)
      } else do {
        let s = s\<lparr>vd_info_b := (vd_info_b s)(i0 := None)\<rparr>;
        s \<leftarrow> free_chain i0 s;
        s \<leftarrow> release VdiskLock s;
        Some (VDone, s)
      })"

definition rw_alloc :: "nat \<Rightarrow> bool \<Rightarrow> 'z vdst_scheme \<Rightarrow> (vd_ret \<times> 'z vdst_scheme) option" where
  "rw_alloc b write s = do {
     (idx, s) \<leftarrow> alloc3_desc 3 [] s;
     (case idx of
        None \<Rightarrow> do {
          (ie, s) \<leftarrow> sleep_out (Some ChanDiskFree) VdiskLock s;
          Some (VWaitDesc ie, s)
        }
      | Some idx \<Rightarrow> rw_finish b (idx ! 0) (submit b write idx s))
   }"

definition virtio_disk_rw_start :: "nat \<Rightarrow> bool \<Rightarrow> 'z vdst_scheme \<Rightarrow> (vd_ret \<times> 'z vdst_scheme) option" where
  "virtio_disk_rw_start b write s = do {
     s \<leftarrow> acquire VdiskLock s;
     rw_alloc b write s
   }"

definition virtio_disk_rw_resume ::
  "nat \<Rightarrow> nat \<Rightarrow> bool \<Rightarrow> vd_ret \<Rightarrow> 'z vdst_scheme \<Rightarrow> (vd_ret \<times> 'z vdst_scheme) option" where
  "virtio_disk_rw_resume p b write w s =
     (case w of
        VDone \<Rightarrow> Some (VDone, s)
      | VWaitDesc ie \<Rightarrow> do {
          s \<leftarrow> sleep_in p VdiskLock ie s;
          rw_alloc b write s
        }
      | VWaitBuf i0 ie \<Rightarrow> do {
          s \<leftarrow> sleep_in p VdiskLock ie s;
          rw_finish b i0 s
        })"

section \<open>Completion interrupt\<close>

partial_function (option) intr_loop :: "'z vdst_scheme \<Rightarrow> 'z vdst_scheme option" where
  "intr_loop s =
     (if vd_used_idx s \<noteq> vd_used_hw s then do {
        let i = unat (vd_used_ring s (unat (vd_used_idx s) mod NUM));
        if vd_info_status s i \<noteq> 0 then None
        else do {
          b \<leftarrow> vd_info_b s i;
          s \<leftarrow> wakeup (Some (ChanBuf b)) (s\<lparr>vd_owned := (vd_owned s)(b := False)\<rparr>);
          intr_loop (s\<lparr>vd_used_idx := vd_used_idx s + 1\<rparr>)
        }
      } else Some s)"

definition virtio_disk_intr :: "u32 \<Rightarrow> 'z vdst_scheme \<Rightarrow> 'z vdst_scheme option" where
  "virtio_disk_intr status s = do {
     s \<leftarrow> acquire VdiskLock s;
     let s = wreg VIRTIO_MMIO_INTERRUPT_ACK (status AND 3) s;
     s \<leftarrow> intr_loop s;
     release VdiskLock s
   }"

section \<open>The device\<close>

text \<open>
  What a virtio block device does with the chain at the next entry of the available ring: it reads
  the request header, transfers the data between the sectors and the buffer the second descriptor
  names, writes status 0 through the third and publishes the chain head in the used ring. Sectors
  are half a block, and every request of the driver is for a whole block. \<open>seen\<close> is the device's
  own position in the available ring.
\<close>

definition vdev_serve :: "u16 \<Rightarrow> 'z vdst_scheme \<Rightarrow> 'z vdst_scheme option" where
  "vdev_serve seen s =
     (let i0 = unat (vd_avail_ring s (unat seen mod NUM));
          i1 = unat (vnext (vd_desc s i0));
          i2 = unat (vnext (vd_desc s i1))
      in case (vaddr (vd_desc s i0), vaddr (vd_desc s i1), vaddr (vd_desc s i2)) of
           (VReq r, VData b, VStatus k) \<Rightarrow>
             (let n = unat (rsector (vd_ops s r)) div 2;
                  s = (if rtype (vd_ops s r) = VIRTIO_BLK_T_OUT
                       then s\<lparr>disk := (disk s)(n := bdata (bufs s b)), wtrace := (n, bdata (bufs s b)) # wtrace s\<rparr>
                       else upd_buf b (\<lambda>x. x\<lparr>bdata := disk s n\<rparr>) s);
                  s = s\<lparr>vd_info_status := (vd_info_status s)(k := 0)\<rparr>
              in Some (s\<lparr>vd_used_ring := (vd_used_ring s)(unat (vd_used_hw s) mod NUM := of_nat i0),
                         vd_used_hw := vd_used_hw s + 1\<rparr>))
         | _ \<Rightarrow> None)"

end
