(* ===== verification/Trap.thy ===== *)
theory Trap
  imports Virtio
begin

text \<open>
  Traps and interrupts: \<^verbatim>\<open>kernel/trap.c\<close>, \<^verbatim>\<open>kernel/plic.c\<close> and \<^verbatim>\<open>forkret\<close> of \<^verbatim>\<open>kernel/proc.c\<close>.
  The control registers are those of the executing hart; of \<^verbatim>\<open>sstatus\<close> the bits SPP and SPIE are
  fields and SIE is the interrupt bit of theory \<open>Spinlock\<close>. Addresses in the kernel text and
  the value the PLIC offers for claiming are fields of the state as well.

  \<open>usertrap\<close> is the whole of \<^verbatim>\<open>usertrap()\<close> for a trap in which the process keeps the processor;
  a process that exits ends in \<open>TGone\<close>, one that yields in \<open>TYield\<close> with the rest of the function
  in \<open>usertrap_resume\<close>.
\<close>

record trapst = vdst +
  spp :: bool
  spie :: bool
  sepc :: u64
  scause :: u64
  stval :: u64
  stvec :: u64
  stimecmp :: u64
  mtime :: u64
  kernelvec_pc :: u64
  usertrap_pc :: u64
  uservec_off :: u64
  userret_off :: u64
  plic_irq :: u32
  plic_regs :: "nat \<Rightarrow> u32"
  virtio_isr :: u32
  first :: bool

section \<open>PLIC\<close>

definition plic_write :: "nat \<Rightarrow> u32 \<Rightarrow> 'z trapst_scheme \<Rightarrow> 'z trapst_scheme" where
  "plic_write a v s = s\<lparr>plic_regs := (plic_regs s)(a := v)\<rparr>"

definition PLIC_SENABLE :: "nat \<Rightarrow> nat" where "PLIC_SENABLE hart = PLIC + 0x2080 + hart * 0x100"
definition PLIC_SPRIORITY :: "nat \<Rightarrow> nat" where "PLIC_SPRIORITY hart = PLIC + 0x201000 + hart * 0x2000"
definition PLIC_SCLAIM :: "nat \<Rightarrow> nat" where "PLIC_SCLAIM hart = PLIC + 0x201004 + hart * 0x2000"

definition plicinit :: "'z trapst_scheme \<Rightarrow> 'z trapst_scheme" where
  "plicinit s =
     (let s = plic_write (PLIC + UART0_IRQ * 4) 1 s
      in plic_write (PLIC + VIRTIO0_IRQ * 4) 1 s)"

definition plicinithart :: "'z trapst_scheme \<Rightarrow> 'z trapst_scheme" where
  "plicinithart s =
     (let hart = cpuid (lk s);
          s = plic_write (PLIC_SENABLE hart) (push_bit UART0_IRQ 1 OR push_bit VIRTIO0_IRQ 1) s
      in plic_write (PLIC_SPRIORITY hart) 0 s)"

definition plic_claim :: "'z trapst_scheme \<Rightarrow> int" where
  "plic_claim s = sint (plic_irq s)"

definition plic_complete :: "int \<Rightarrow> 'z trapst_scheme \<Rightarrow> 'z trapst_scheme" where
  "plic_complete irq s = plic_write (PLIC_SCLAIM (cpuid (lk s))) (word_of_int irq) s"

section \<open>Set-up and interrupts\<close>

definition trapinit :: "'z trapst_scheme \<Rightarrow> 'z trapst_scheme" where
  "trapinit s = s\<lparr>lk := initlock TicksLock ''time'' (lk s)\<rparr>"

definition trapinithart :: "'z trapst_scheme \<Rightarrow> 'z trapst_scheme" where
  "trapinithart s = s\<lparr>stvec := kernelvec_pc s\<rparr>"

definition clockintr :: "'z trapst_scheme \<Rightarrow> 'z trapst_scheme option" where
  "clockintr s = do {
     s \<leftarrow> (if cpuid (lk s) = 0 then do {
         s \<leftarrow> acquire TicksLock s;
         let s = s\<lparr>ticks := ticks s + 1\<rparr>;
         s \<leftarrow> wakeup (Some ChanTicks) s;
         release TicksLock s
       } else Some s);
     Some (s\<lparr>stimecmp := mtime s + 1000000\<rparr>)
   }"

definition devintr :: "'z trapst_scheme \<Rightarrow> (nat \<times> 'z trapst_scheme) option" where
  "devintr s =
     (if scause s = 0x8000000000000009 then do {
        let irq = plic_claim s;
        s \<leftarrow> (if irq = int UART0_IRQ then uartintr s
             else if irq = int VIRTIO0_IRQ then virtio_disk_intr (virtio_isr s) s
             else Some s);
        let s = (if irq \<noteq> 0 then plic_complete irq s else s);
        Some (1, s)
      } else if scause s = 0x8000000000000005 then do {
        s \<leftarrow> clockintr s;
        Some (2, s)
      } else Some (0, s))"

section \<open>Returning to user space\<close>

definition prepare_return :: "'z trapst_scheme \<Rightarrow> 'z trapst_scheme option" where
  "prepare_return s = do {
     (me, s) \<leftarrow> myproc s;
     p \<leftarrow> me;
     let s = s\<lparr>lk := intr_off (lk s)\<rparr>;
     let s = s\<lparr>stvec := TRAMPOLINE + uservec_off s\<rparr>;
     let s = tf_set p tf_kernel_satp (satp s (tp (lk s))) s;
     let s = tf_set p tf_kernel_sp (kstack (procs s p) + of_nat PGSIZE) s;
     let s = tf_set p tf_kernel_trap (usertrap_pc s) s;
     let s = tf_set p tf_kernel_hartid (of_nat (tp (lk s))) s;
     let s = s\<lparr>spp := False, spie := True\<rparr>;
     Some (s\<lparr>sepc := tf_get p tf_epc s\<rparr>)
   }"

section \<open>Traps from user space\<close>

datatype trap_end = TUser u64 | TGone bool | TYield bool

text \<open>\<open>pad\<close> and \<open>junk\<close> are the uninitialised locals of the system calls, as in \<open>Sysproc\<close>.\<close>

definition handle_syscall ::
  "u8 list \<Rightarrow> carr \<Rightarrow> nat \<Rightarrow> 'z trapst_scheme \<Rightarrow> (sys_end \<times> 'z trapst_scheme) option" where
  "handle_syscall pad junk p s = do {
     (k, s) \<leftarrow> killed p s;
     if k then do {
       (ie, s) \<leftarrow> kexit (-1) s;
       Some (Gone ie, s)
     } else do {
       let s = tf_set p tf_epc (tf_get p tf_epc s + 4) s;
       let s = s\<lparr>lk := intr_on (lk s)\<rparr>;
       syscall pad junk s
     }
   }"

definition handle_page_fault :: "nat \<Rightarrow> 'z trapst_scheme \<Rightarrow> 'z trapst_scheme option" where
  "handle_page_fault p s = do {
     (pa, s) \<leftarrow> vmfault (pagetable (procs s p)) (stval s) (scause s = 15) s;
     if pa = 0 then setkilled p s else Some s
   }"

definition usertrap_resume :: "nat \<Rightarrow> 'z trapst_scheme \<Rightarrow> (trap_end \<times> 'z trapst_scheme) option" where
  "usertrap_resume p s = do {
     s \<leftarrow> prepare_return s;
     Some (TUser (MAKE_SATP (pagetable (procs s p))), s)
   }"

definition usertrap_tail :: "nat \<Rightarrow> nat \<Rightarrow> 'z trapst_scheme \<Rightarrow> (trap_end \<times> 'z trapst_scheme) option" where
  "usertrap_tail p which_dev s = do {
     (k, s) \<leftarrow> killed p s;
     if k then do {
       (ie, s) \<leftarrow> kexit (-1) s;
       Some (TGone ie, s)
     } else if which_dev = 2 then do {
       (ie, s) \<leftarrow> yield_out s;
       Some (TYield ie, s)
     } else usertrap_resume p s
   }"

definition usertrap :: "u8 list \<Rightarrow> carr \<Rightarrow> 'z trapst_scheme \<Rightarrow> (trap_end \<times> 'z trapst_scheme) option" where
  "usertrap pad junk s =
     (if spp s then None
      else do {
        let s = s\<lparr>stvec := kernelvec_pc s\<rparr>;
        (me, s) \<leftarrow> myproc s;
        p \<leftarrow> me;
        let s = tf_set p tf_epc (sepc s) s;
        let cause = scause s;
        if cause = 8 then do {
          (e, s) \<leftarrow> handle_syscall pad junk p s;
          (case e of
             Gone ie \<Rightarrow> Some (TGone ie, s)
           | Back \<Rightarrow> usertrap_tail p 0 s)
        } else do {
          (which_dev, s) \<leftarrow> devintr s;
          if which_dev \<noteq> 0 then usertrap_tail p which_dev s
          else if cause = 15 \<or> cause = 13 then do {
            s \<leftarrow> handle_page_fault p s;
            usertrap_tail p 0 s
          } else do {
            s \<leftarrow> setkilled p s;
            usertrap_tail p 0 s
          }
        }
      })"

section \<open>Traps from the kernel\<close>

text \<open>\<open>None\<close> in the result means that the interrupted kernel code continues; \<open>Some ie\<close> that the
  process was preempted and \<open>kerneltrap_resume\<close> is still to run.\<close>

definition kerneltrap_resume :: "u64 \<Rightarrow> bool \<Rightarrow> bool \<Rightarrow> bool \<Rightarrow> 'z trapst_scheme \<Rightarrow> 'z trapst_scheme" where
  "kerneltrap_resume pc p ie e s =
     s\<lparr>sepc := pc, spp := p, spie := ie, lk := (if e then intr_on (lk s) else intr_off (lk s))\<rparr>"

definition kerneltrap :: "'z trapst_scheme \<Rightarrow> (bool option \<times> 'z trapst_scheme) option" where
  "kerneltrap s =
     (if \<not> spp s then None
      else if intr_get (lk s) then None
      else do {
        let (pc, p, ie, e) = (sepc s, spp s, spie s, intr_get (lk s));
        (which_dev, s) \<leftarrow> devintr s;
        if which_dev = 0 then None
        else do {
          (me, s) \<leftarrow> (if which_dev = 2 then myproc s else Some (None, s));
          (case me of
             Some _ \<Rightarrow> do {
               (saved, s) \<leftarrow> yield_out s;
               Some (Some saved, s)
             }
           | None \<Rightarrow> Some (None, kerneltrap_resume pc p ie e s))
        }
      })"

section \<open>First return of a new process\<close>

text \<open>\<open>forkret\<close> yields the address in the trampoline it jumps to and the page table it passes.\<close>

definition forkret :: "'z trapst_scheme \<Rightarrow> (u64 \<times> u64 \<times> 'z trapst_scheme) option" where
  "forkret s = do {
     (me, s) \<leftarrow> myproc s;
     p \<leftarrow> me;
     s \<leftarrow> release (ProcLock p) s;
     s \<leftarrow> (if first s then do {
         s \<leftarrow> fsinit rootdev s;
         let s = s\<lparr>first := False\<rparr>;
         (r, s) \<leftarrow> kexec (fill (bytes ''/init'')) [bytes ''/init''] s;
         let s = tf_set p (tf_a 0) (to_u64 r) s;
         if tf_get p (tf_a 0) s = -1 then None else Some s
       } else Some s);
     s \<leftarrow> prepare_return s;
     Some (TRAMPOLINE + userret_off s, MAKE_SATP (pagetable (procs s p)), s)
   }"

end
