(* ===== verification/Boot.thy ===== *)
theory Boot
  imports Trap
begin

text \<open>
  Start-up: \<^verbatim>\<open>start()\<close> and \<^verbatim>\<open>timerinit()\<close> of \<^verbatim>\<open>kernel/start.c\<close>, which run in machine mode, and
  \<^verbatim>\<open>main()\<close> of \<^verbatim>\<open>kernel/main.c\<close>. The machine-mode registers are the record \<open>mregs\<close>; its field
  \<open>mode_pc\<close> is where \<^verbatim>\<open>mret\<close> continues, with the privilege taken from the MPP field.
  \<open>boot_main\<close> is \<^verbatim>\<open>main\<close> up to the call of \<^verbatim>\<open>scheduler\<close>; a hart other than 0 that arrives before
  \<^verbatim>\<open>started\<close> is set waits for it, so its result is \<open>None\<close>.
\<close>

record mregs =
  mstatus :: u64
  mepc :: u64
  m_satp :: u64
  medeleg :: u64
  mideleg :: u64
  m_sie :: u64
  pmpaddr0 :: u64
  pmpcfg0 :: u64
  mie :: u64
  menvcfg :: u64
  mcounteren :: u64
  m_stimecmp :: u64
  m_time :: u64
  mhartid :: u64
  m_tp :: u64
  mode_pc :: u64

definition MSTATUS_MPP_MASK :: u64 where "MSTATUS_MPP_MASK = push_bit 11 3"
definition MSTATUS_MPP_S :: u64 where "MSTATUS_MPP_S = push_bit 11 1"
definition SIE_SEIE :: u64 where "SIE_SEIE = push_bit 9 1"
definition SIE_STIE :: u64 where "SIE_STIE = push_bit 5 1"
definition MIE_STIE :: u64 where "MIE_STIE = push_bit 5 1"

definition timerinit :: "mregs \<Rightarrow> mregs" where
  "timerinit m =
     (let m = m\<lparr>mie := mie m OR MIE_STIE\<rparr>;
          m = m\<lparr>menvcfg := menvcfg m OR push_bit 63 1\<rparr>;
          m = m\<lparr>mcounteren := mcounteren m OR 2\<rparr>
      in m\<lparr>m_stimecmp := m_time m + 1000000\<rparr>)"

definition start :: "u64 \<Rightarrow> mregs \<Rightarrow> mregs" where
  "start main_pc m =
     (let x = mstatus m;
          x = x AND NOT MSTATUS_MPP_MASK;
          x = x OR MSTATUS_MPP_S;
          m = m\<lparr>mstatus := x\<rparr>;
          m = m\<lparr>mepc := main_pc\<rparr>;
          m = m\<lparr>m_satp := 0\<rparr>;
          m = m\<lparr>medeleg := 0xffff\<rparr>;
          m = m\<lparr>mideleg := 0xffff\<rparr>;
          m = m\<lparr>m_sie := m_sie m OR SIE_SEIE OR SIE_STIE\<rparr>;
          m = m\<lparr>pmpaddr0 := 0x3fffffffffffff\<rparr>;
          m = m\<lparr>pmpcfg0 := 0xf\<rparr>;
          m = timerinit m;
          m = m\<lparr>m_tp := mhartid m\<rparr>
      in m\<lparr>mode_pc := mepc m\<rparr>)"

record bootst = trapst +
  started :: bool

definition boot_main :: "(nat \<Rightarrow> u32) \<Rightarrow> u32 \<Rightarrow> 'z bootst_scheme \<Rightarrow> 'z bootst_scheme option" where
  "boot_main rd status s =
     (if cpuid (lk s) = 0 then do {
        let s = consoleinit s;
        let s = printfinit s;
        s \<leftarrow> kprintf [10] [] s;
        s \<leftarrow> kprintf (bytes ''xv6 kernel is booting'' @ [10]) [] s;
        s \<leftarrow> kprintf [10] [] s;
        s \<leftarrow> kinit s;
        s \<leftarrow> kvminit s;
        let s = kvminithart s;
        let s = procinit s;
        let s = trapinit s;
        let s = trapinithart s;
        let s = plicinit s;
        let s = plicinithart s;
        let s = binit s;
        let s = iinit s;
        let s = fileinit s;
        s \<leftarrow> virtio_disk_init rd status s;
        s \<leftarrow> userinit s;
        Some (s\<lparr>started := True\<rparr>)
      } else if \<not> started s then None
      else do {
        s \<leftarrow> kprintf (bytes ''hart %d starting'' @ [10]) [PVal (of_nat (cpuid (lk s)))] s;
        let s = kvminithart s;
        let s = trapinithart s;
        Some (plicinithart s)
      })"

end
