(* ===== verification/UserCopy.thy ===== *)
theory UserCopy
  imports UserMem
begin

text \<open>
  What the copy routines of \<^verbatim>\<open>kernel/vm.c\<close> promise to their callers: a copy to a writable user
  range succeeds and touches nothing but memory, what \<^verbatim>\<open>copyout\<close> wrote \<^verbatim>\<open>copyin\<close> reads
  back, and a page fault below the process size is served as long as three pages are free.
\<close>

section \<open>Copies to present, writable ranges\<close>

definition uwritable :: "memory \<Rightarrow> nat \<Rightarrow> u64 \<Rightarrow> bool" where
  "uwritable m root va \<longleftrightarrow> (let e = leaf m root va in bit e 0 \<and> bit e 2 \<and> bit e 4)"

lemma uwritable_leaf_cong: "leaf m' root v = leaf m root v \<Longrightarrow> uwritable m' root v = uwritable m root v"
  by (simp add: uwritable_def)

lemma fault_in_present:
  assumes "uvm_wf s xs root" and "va < MAXVA" and "upa (mem s) root va = Some pa"
  shows "fault_in root va s = Some (pa, s)"
  using assms uvm_wfD(3)[OF assms(1,2,3)] walkaddr_eq[OF uvm_wfD(2)[OF assms(1)], of va]
  by (auto simp: fault_in_def)

lemma copyout_step_writable:
  assumes wf: "uvm_wf s xs root" and ne: "src \<noteq> []" and va: "va < MAXVA" and w: "uwritable (mem s) root va"
  obtains pa where "upa (mem s) root (PGROUNDDOWN va) = Some pa"
    "copyout root va src s = copyout root (PGROUNDDOWN va + of_nat PGSIZE) (drop (min (page_room va) (length src)) src)
       (s\<lparr>mem := mem_put (pa + unat va mod 4096) (take (min (page_room va) (length src)) src) (mem s)\<rparr>)"
proof -
  let ?va = "PGROUNDDOWN va"
  have va': "?va < MAXVA" by (rule PGROUNDDOWN_lt[OF va])
  then have nle: "\<not> MAXVA \<le> ?va" by simp
  have lf: "leaf (mem s) root ?va = leaf (mem s) root va" by (rule leaf_page_cong) (simp_all add: va va')
  then have pa: "upa (mem s) root ?va = Some (PTE2PA (leaf (mem s) root va))"
    using w by (simp add: upa_def uwritable_def Let_def)
  have "0 < PTE2PA (leaf (mem s) root va)" using uvm_wfD(3)[OF wf va' pa] by simp
  moreover have "load64 (mem s) (leaf_addr (mem s) root ?va) AND PTE_W \<noteq> 0"
    using leaf_addr_load(2)[OF uvm_wfD(2)[OF wf], of ?va] w
    by (simp add: lf uwritable_def Let_def and_PTE_eq_0)
  ultimately show thesis
    using ne va' nle fault_in_present[OF wf va' pa] next_page(2)[OF va']
    by (intro that[OF pa]) (subst copyout_unfold, simp add: Let_def)
qed

lemma copyout_writable:
  assumes "uvm_wf s xs root" and "unat va + length src \<le> unat MAXVA"
    and "\<And>v. v < MAXVA \<Longrightarrow> in_range v va (length src) \<Longrightarrow> uwritable (mem s) root v"
  shows "\<exists>m. copyout root va src s = Some (0, s\<lparr>mem := m\<rparr>) \<and> uvm_wf (s\<lparr>mem := m\<rparr>) xs root
     \<and> (\<forall>v. leaf m root v = leaf (mem s) root v)"
  using assms
proof (induction "length src" arbitrary: va src s rule: less_induct)
  case less
  show ?case
  proof (cases "src = []")
    case True
    then have "copyout root va src s = Some (0, s\<lparr>mem := mem s\<rparr>)" by (subst copyout_unfold) simp
    then show ?thesis using less.prems(1) by (intro exI[of _ "mem s"]) simp
  next
    case False
    let ?va = "PGROUNDDOWN va" and ?n = "min (page_room va) (length src)"
    let ?next = "?va + of_nat PGSIZE"
    have va: "va < MAXVA" using less.prems(2) False by (cases src) (auto simp: word_less_nat_alt)
    have w: "uwritable (mem s) root va" using less.prems(3)[OF va] False by (simp add: in_range_def)
    obtain pa where pa: "upa (mem s) root ?va = Some pa"
      and run: "copyout root va src s = copyout root ?next (drop ?n src)
         (s\<lparr>mem := mem_put (pa + unat va mod 4096) (take ?n src) (mem s)\<rparr>)"
      by (rule copyout_step_writable[OF less.prems(1) False va w])
    let ?u = "s\<lparr>mem := mem_put (pa + unat va mod 4096) (take ?n src) (mem s)\<rparr>"
    have len: "unat va mod 4096 + length (take ?n src) \<le> 4096" by (simp add: page_room_eq)
    note uw = user_write[OF less.prems(1) pa PGROUNDDOWN_lt[OF va] len]
    have nx: "unat ?next = unat va + page_room va" by (rule next_page(1)[OF PGROUNDDOWN_lt[OF va]])
    have shorter: "length (drop ?n src) < length src" using False by simp
    have "\<exists>m. copyout root ?next (drop ?n src) ?u = Some (0, ?u\<lparr>mem := m\<rparr>) \<and> uvm_wf (?u\<lparr>mem := m\<rparr>) xs root
       \<and> (\<forall>v. leaf m root v = leaf (mem ?u) root v)"
    proof (cases "length src \<le> page_room va")
      case True
      then have "copyout root ?next (drop ?n src) ?u = Some (0, ?u\<lparr>mem := mem ?u\<rparr>)"
        by (subst copyout_unfold) simp
      then show ?thesis using uw(1) by (intro exI[of _ "mem ?u"]) simp
    next
      case big: False
      show ?thesis
      proof (rule less.hyps[OF shorter uw(1)])
        show "unat ?next + length (drop ?n src) \<le> unat MAXVA" using nx less.prems(2) big by simp
        fix v assume v: "v < MAXVA" "in_range v ?next (length (drop ?n src))"
        then have "in_range v va (length src)" using nx big by (auto simp: in_range_def)
        then show "uwritable (mem ?u) root v"
          using less.prems(3)[OF v(1)] uwritable_leaf_cong[OF uw(2)] by simp
      qed
    qed
    then show ?thesis using run uw(2) by auto
  qed
qed

text \<open>The same with its effect on every user byte.\<close>

lemma copyout_writable_bytes:
  assumes wf: "uvm_wf s xs root" and me: "cproc (mycpu (lk s)) = Some p" "pagetable (procs s p) = root"
    and fits: "unat va + length src \<le> unat MAXVA"
    and w: "\<And>v. v < MAXVA \<Longrightarrow> in_range v va (length src) \<Longrightarrow> uwritable (mem s) root v"
  obtains m where "copyout root va src s = Some (0, s\<lparr>mem := m\<rparr>)" "uvm_wf (s\<lparr>mem := m\<rparr>) xs root"
    "\<And>v. leaf m root v = leaf (mem s) root v"
    "\<And>v. v < MAXVA \<Longrightarrow> vbyte m root v =
       (if in_range v va (length src) then Some (src ! (unat v - unat va)) else vbyte (mem s) root v)"
proof -
  obtain m where m: "copyout root va src s = Some (0, s\<lparr>mem := m\<rparr>)" "uvm_wf (s\<lparr>mem := m\<rparr>) xs root"
    "\<And>v. leaf m root v = leaf (mem s) root v"
    using copyout_writable[OF wf fits w] by blast
  have post: "copyout_post root va src s 0 (s\<lparr>mem := m\<rparr>)" using copyout_spec[OF wf me, of va src] m(1) by auto
  have "vbyte m root v = None" if "vbyte (mem s) root v = None" for v
    using that m(3)[of v] by (simp add: vbyte_def upa_def)
  then have "vbyte m root v = (if in_range v va (length src) then Some (src ! (unat v - unat va)) else vbyte (mem s) root v)"
    if "v < MAXVA" for v
    using post that by (cases "vbyte (mem s) root v = None") (auto simp: copyout_post_def)
  then show thesis by (rule that[OF m])
qed

section \<open>A process with an empty address space\<close>

lemma tpage_empty:
  assumes "\<And>x. x \<in> page root \<Longrightarrow> m x = 0" and "tpath P"
  shows "tpage m root P = (if P = [] then Some root else None)"
  using assms(2)
proof (induction P)
  case (Cons i P)
  then have "load64 m (root + 8 * i) = 0" by (intro load64_zero assms(1) entry_in_page) simp_all
  then show ?case using Cons by simp
qed simp

lemma uvm_wf_empty:
  assumes zero: "\<And>x. x \<in> page root \<Longrightarrow> mem s x = 0" and pool: "kpool s xs"
    and root: "root mod PGSIZE = 0" "0 < root" "root \<notin> set xs"
  shows "uvm_wf s xs root" and "leaf (mem s) root va = 0"
proof -
  note tp = tpage_empty[of root "mem s", OF zero]
  have tb: "tables (mem s) root = {root}" by (auto simp: tables_def tp split: if_splits intro: exI[of _ "[]"])
  show lf: "leaf (mem s) root va = 0" for va by (simp add: leaf_def tp[of "leaf_path va"]) (simp add: leaf_path_def)
  then have "upa (mem s) root va = None" for va by (simp add: upa_def)
  then show "uvm_wf s xs root"
    using pool root by (auto simp: uvm_wf_def pt_wf_def tb upages_def tp split: if_splits)
qed

text \<open>
  \<open>small_vm s\<close>: process 0 runs on hart 0 with an empty address space of size \<open>0x2000\<close> rooted
  at \<open>0x80033000\<close>, and three pages are free.
\<close>

definition small_vm :: "'z ptable_scheme \<Rightarrow> bool" where
  "small_vm s \<longleftrightarrow> lk s = idle_lk (Some 0)
     \<and> mem s = store64 0x80030000 0x80031000 (store64 0x80031000 0x80032000 (\<lambda>_. 0))
     \<and> freelist s = 0x80030000 \<and> kend s = 0x80022000
     \<and> procs s = (\<lambda>_. proc0\<lparr>pagetable := 0x80033000, psz := 0x2000\<rparr>)"

lemma small_vm_wf:
  assumes "small_vm s"
  shows "uvm_wf s [0x80030000, 0x80031000, 0x80032000] 0x80033000" and "leaf (mem s) 0x80033000 va = 0"
proof -
  have m: "mem s = store64 0x80030000 0x80031000 (store64 0x80031000 0x80032000 (\<lambda>_. 0))"
    using assms by (simp add: small_vm_def)
  have "load64 (mem s) 0x80032000 = 0" by (simp add: m mem_simps load64_zero)
  then have "kpool s [0x80030000, 0x80031000, 0x80032000]"
    using assms by (simp add: kpool_def kmem_inv_def small_vm_def mem_simps is_valid_pa_def PGSIZE_def PHYSTOP_def KERNBASE_def)
  moreover have "mem s x = 0" if "x \<in> page 0x80033000" for x
    using that by (simp add: m store64_def page_def)
  ultimately show "uvm_wf s [0x80030000, 0x80031000, 0x80032000] 0x80033000"
    "leaf (mem s) 0x80033000 va = 0"
    by (auto intro!: uvm_wf_empty simp: PGSIZE_def)
qed

lemma small_vm_simps:
  assumes "small_vm s"
  shows "cproc (mycpu (lk s)) = Some 0" and "pagetable (procs s p) = 0x80033000"
    and "psz (procs s p) = 0x2000"
  using assms by (simp_all add: small_vm_def proc0_def)

lemma low_MAXVA: "unat (v :: u64) \<le> 0x2000 \<Longrightarrow> v < MAXVA"
  using unat_MAXVA by (simp add: word_less_nat_alt)

lemma small_vm_fault:
  assumes ex: "small_vm s"
  obtains pg s' xs where "vmfault 0x80033000 0 False s = Some (pg, s')" "pg \<noteq> 0"
    "uvm_wf s' xs 0x80033000" "kframe s s'" "cproc (mycpu (lk s')) = Some 0"
    "pagetable (procs s' 0) = 0x80033000"
    "\<And>v. unat v < 4096 \<Longrightarrow> uwritable (mem s') 0x80033000 v"
    "\<And>v. unat v < 4096 \<Longrightarrow> vbyte (mem s') 0x80033000 v = Some 0"
proof -
  have M: "(0 :: u64) < MAXVA" "unat v < 4096 \<Longrightarrow> v < MAXVA" for v :: u64 by (simp_all add: low_MAXVA)
  obtain pg s' xs where f: "vmfault 0x80033000 0 False s = Some (pg, s')" "uvm_wf s' xs 0x80033000"
    "vmfault_post 0x80033000 0 s pg s'" "pg \<noteq> 0"
    using vmfault_spec[OF small_vm_wf(1)[OF ex] small_vm_simps(1,2)[OF ex] M(1), of False] small_vm_wf(2)[OF ex]
    by (auto simp: small_vm_simps[OF ex])
  have fr: "kframe s s'" and up: "upa (mem s') 0x80033000 0 = Some pg" "bit (leaf (mem s') 0x80033000 0) 2"
    and vb: "\<And>v. v < MAXVA \<Longrightarrow> vpage v = vpage 0 \<Longrightarrow> vbyte (mem s') 0x80033000 v = Some 0"
    using f(3,4) by (auto simp: vmfault_post_def)
  have pg: "vpage v = vpage 0" if "unat v < 4096" for v using that by (simp add: vpage_def)
  have "uwritable (mem s') 0x80033000 v" if "unat v < 4096" for v
  proof -
    have "leaf (mem s') 0x80033000 v = leaf (mem s') 0x80033000 0"
      by (rule leaf_page_cong[OF pg[OF that] M(2)[OF that] M(1)])
    then show ?thesis using up by (auto simp: uwritable_def upa_def Let_def split: if_splits)
  qed
  moreover have "cproc (mycpu (lk s')) = Some 0" "pagetable (procs s' 0) = 0x80033000"
    using kframe_ptable(1,5)[OF fr] small_vm_simps[OF ex] by simp_all
  ultimately show thesis using that[OF f(1,4,2) fr] vb[OF M(2) pg] by blast
qed

definition uvm_ex :: ptable where
  "uvm_ex = \<lparr>lk = idle_lk (Some 0),
     mem = store64 0x80030000 0x80031000 (store64 0x80031000 0x80032000 (\<lambda>_. 0)),
     freelist = 0x80030000, kend = 0x80022000,
     procs = (\<lambda>_. proc0\<lparr>pagetable := 0x80033000, psz := 0x2000\<rparr>), nextpid = 1, initproc = None\<rparr>"

lemma small_uvm_ex: "small_vm uvm_ex"
  by (simp add: small_vm_def uvm_ex_def)

section \<open>Round trip\<close>

text \<open>
  C2. What is copied out to a user range is what is copied in from it. \<^verbatim>\<open>copyout\<close> on the running
  process's page table always returns, with 0 or -1; after 0, \<^verbatim>\<open>copyin\<close> of the same range
  returns 0 and exactly the source bytes; and every present user byte outside the range is
  unchanged, whatever the result. If every page of the range is present and writable the result is 0.
\<close>

theorem copyout_copyin_roundtrip:
  assumes wf: "uvm_wf s xs root" and me: "cproc (mycpu (lk s)) = Some p" "pagetable (procs s p) = root"
    and fits: "unat va + length src \<le> unat MAXVA"
  shows "\<exists>r s'. copyout root va src s = Some (r, s') \<and> (r = 0 \<or> r = -1)
    \<and> (r = 0 \<longrightarrow> copyin root va (length src) s' = Some (0, src, s'))
    \<and> (\<forall>v<MAXVA. \<not> in_range v va (length src) \<longrightarrow> vbyte (mem s) root v \<noteq> None \<longrightarrow>
         vbyte (mem s') root v = vbyte (mem s) root v)
    \<and> ((\<forall>v<MAXVA. in_range v va (length src) \<longrightarrow> uwritable (mem s) root v) \<longrightarrow> r = 0)"
proof -
  obtain r s' xs' where c: "copyout root va src s = Some (r, s')" "uvm_wf s' xs' root"
    "copyout_post root va src s r s'"
    using copyout_spec[OF wf me] by blast
  have "copyin root va (length src) s' = Some (0, src, s')" if "r = 0"
    using copyin_spec[OF c(2) refl fits] c(3) that by (simp add: copyout_post_def)
  moreover have "r = 0" if "\<forall>v<MAXVA. in_range v va (length src) \<longrightarrow> uwritable (mem s) root v"
    using copyout_writable[OF wf fits] that c(1) by auto
  ultimately show ?thesis using c(1,3) unfolding copyout_post_def by blast
qed

theorem copyout_copyin_roundtrip_witness:
  "\<exists>pg s s'. vmfault 0x80033000 0 False uvm_ex = Some (pg, s)
     \<and> copyout 0x80033000 100 [7, 8, 9] s = Some (0, s') \<and> copyin 0x80033000 100 3 s' = Some (0, [7, 8, 9], s')"
proof -
  obtain pg s xs where f: "vmfault 0x80033000 0 False uvm_ex = Some (pg, s)"
    "uvm_wf s xs 0x80033000" "cproc (mycpu (lk s)) = Some 0" "pagetable (procs s 0) = 0x80033000"
    and w: "\<And>v. unat v < 4096 \<Longrightarrow> uwritable (mem s) 0x80033000 v"
    by (rule small_vm_fault[OF small_uvm_ex]) (rule that)
  have fits: "unat (100 :: u64) + length [7, 8, 9 :: u8] \<le> unat MAXVA" using unat_MAXVA by simp
  have range: "\<forall>v<MAXVA. in_range v 100 (length [7, 8, 9 :: u8]) \<longrightarrow> uwritable (mem s) 0x80033000 v"
    using w by (auto simp: in_range_def)
  obtain r s' where "copyout 0x80033000 100 [7, 8, 9] s = Some (r, s')" "r = 0"
    "r = 0 \<longrightarrow> copyin 0x80033000 100 (length [7, 8, 9 :: u8]) s' = Some (0, [7, 8, 9], s')"
    using copyout_copyin_roundtrip[OF f(2-4) fits] range by blast
  moreover have "length [7, 8, 9 :: u8] = 3" by simp
  ultimately show ?thesis using f(1) by metis
qed

section \<open>Page faults\<close>

text \<open>
  C17. Lazy allocation. A fault of the running process at an unmapped address below its size is
  served whenever three pages are free: \<^verbatim>\<open>vmfault\<close> returns a fresh page, mapped user-writable at
  the faulting page, all of whose bytes read as 0, and no other user byte changes. A fault above
  the size, or at a mapped page, returns 0 and changes nothing.
\<close>

theorem vmfault_serves_lazy_page:
  assumes wf: "uvm_wf s xs root" and me: "cproc (mycpu (lk s)) = Some p" "pagetable (procs s p) = root"
    and va: "va < MAXVA"
  shows "(va < psz (procs s p) \<and> \<not> bit (leaf (mem s) root va) 0 \<and> 3 \<le> length xs \<longrightarrow>
     (\<exists>pg s'. vmfault root va rd s = Some (pg, s') \<and> pg \<noteq> 0 \<and> upa (mem s') root va = Some pg
        \<and> uwritable (mem s') root va \<and> (\<forall>v<MAXVA. vbyte (mem s') root v =
             (if vpage v = vpage va then Some 0 else vbyte (mem s) root v))))
   \<and> (psz (procs s p) \<le> va \<or> bit (leaf (mem s) root va) 0 \<longrightarrow>
     vmfault root va rd s = Some (0, s\<lparr>lk := settle (lk s)\<rparr>))"
proof -
  obtain r s' xs' where f: "vmfault root va rd s = Some (r, s')" "vmfault_post root va s r s'"
    "va < psz (procs s p) \<longrightarrow> \<not> bit (leaf (mem s) root va) 0 \<longrightarrow> 3 \<le> length xs \<longrightarrow> r \<noteq> 0"
    using vmfault_spec[OF wf me va, of rd] by blast
  have "uwritable (mem s') root va" if "r \<noteq> 0"
    using f(2) that by (auto simp: vmfault_post_def uwritable_def upa_def Let_def split: if_splits)
  then have "va < psz (procs s p) \<and> \<not> bit (leaf (mem s) root va) 0 \<and> 3 \<le> length xs \<longrightarrow>
     (\<exists>pg s'. vmfault root va rd s = Some (pg, s') \<and> pg \<noteq> 0 \<and> upa (mem s') root va = Some pg
        \<and> uwritable (mem s') root va \<and> (\<forall>v<MAXVA. vbyte (mem s') root v =
             (if vpage v = vpage va then Some 0 else vbyte (mem s) root v)))"
    using f by (auto simp: vmfault_post_def)
  moreover have "leaf (mem s) root (PGROUNDDOWN va) = leaf (mem s) root va"
    by (rule leaf_page_cong) (simp_all add: va PGROUNDDOWN_lt)
  then have "psz (procs s p) \<le> va \<or> bit (leaf (mem s) root va) 0 \<longrightarrow>
     vmfault root va rd s = Some (0, s\<lparr>lk := settle (lk s)\<rparr>)"
    using vmfault_unfold[OF uvm_wfD(1)[OF wf] me va uvm_wfD(2)[OF wf], of rd] by simp
  ultimately show ?thesis by blast
qed

theorem vmfault_serves_lazy_page_witness:
  "\<exists>pg s'. vmfault 0x80033000 4100 True uvm_ex = Some (pg, s') \<and> pg \<noteq> 0 \<and> uwritable (mem s') 0x80033000 4100
     \<and> vbyte (mem s') 0x80033000 5000 = Some 0
     \<and> vmfault 0x80033000 0x2000 True uvm_ex = Some (0, uvm_ex\<lparr>lk := settle (lk uvm_ex)\<rparr>)"
proof -
  have M: "(4100 :: u64) < MAXVA" "(5000 :: u64) < MAXVA" "(0x2000 :: u64) < MAXVA" by (simp_all add: low_MAXVA)
  note ex = small_vm_wf[OF small_uvm_ex] small_vm_simps[OF small_uvm_ex]
  obtain pg s' where "vmfault 0x80033000 4100 True uvm_ex = Some (pg, s')" "pg \<noteq> 0"
    "uwritable (mem s') 0x80033000 4100"
    "\<forall>v<MAXVA. vbyte (mem s') 0x80033000 v =
       (if vpage v = vpage 4100 then Some 0 else vbyte (mem uvm_ex) 0x80033000 v)"
    using vmfault_serves_lazy_page[OF ex(1,3,4) M(1), of True] by (auto simp: ex)
  moreover have "vpage 5000 = vpage 4100" by (simp add: vpage_def)
  moreover have "vmfault 0x80033000 0x2000 True uvm_ex = Some (0, uvm_ex\<lparr>lk := settle (lk uvm_ex)\<rparr>)"
    using vmfault_serves_lazy_page[OF ex(1,3,4) M(3), of True] by (simp add: ex)
  ultimately show ?thesis using M(2) by metis
qed

end
