(* ===== verification/Example.thy ===== *)
theory Example
  imports Boot UserCopy
begin

text \<open>
  A concrete state of the whole kernel, the starting point of the examples that show the
  hypotheses of the theorems can hold: one process runs on hart 0 with every lock free and the
  memory of \<open>small_vm\<close>; all tables are empty.
\<close>

definition kex :: bootst where
  "kex = \<lparr>lk = idle_lk (Some 0),
     mem = store64 0x80030000 0x80031000 (store64 0x80031000 0x80032000 (\<lambda>_. 0)),
     freelist = 0x80030000, kend = 0x80022000,
     procs = (\<lambda>_. proc0\<lparr>pagetable := 0x80033000, psz := 0x2000\<rparr>), nextpid = 1, initproc = Some 1,
     kernel_pagetable = 0, etext = 0x80008000, trampoline = 0x80007000, satp = (\<lambda>_. 0),
     sleeplocks = (\<lambda>_. \<lparr>slocked = False, slname = [], slpid = 0\<rparr>),
     bufs = (\<lambda>_. \<lparr>bvalid = False, bdev = 0, bblockno = 0, brefcnt = 0, bdata = (\<lambda>_. 0)\<rparr>),
     lru = [0..<NBUF], disk = (\<lambda>_ _. 0), wtrace = [],
     log_start = 2, log_outstanding = 0, log_committing = False, log_dev = 1, lh_n = 0, lh_block = (\<lambda>_. 0),
     sb = \<lparr>sb_magic = 0x10203040, sb_size = 2000, sb_nblocks = 1954, sb_ninodes = 200, sb_nlog = 31,
       sb_logstart = 2, sb_inodestart = 33, sb_bmapstart = 46\<rparr>,
     inodes = (\<lambda>_. \<lparr>idev = 0, inum = 0, iref = 0, ivalid = False, itype = 0, imajor = 0, iminor = 0, inlink = 0,
       isize = 0, iaddrs = (\<lambda>_. 0)\<rparr>),
     panicking = False, panicked = False, tx_busy = False, uart_out = [], uart_rx = [], uart_idle = True,
     uart_regs = (\<lambda>_. 0), cons_buf = (\<lambda>_. 0), cons_r = 0, cons_w = 0, cons_e = 0,
     pipes = (\<lambda>_. \<lparr>pdata = (\<lambda>_. 0), nread = 0, nwrite = 0, readopen = True, writeopen = True\<rparr>),
     files = (\<lambda>_. \<lparr>ftype = FD_NONE, fref = 0, freadable = False, fwritable = False, fpipe = 0, fip = 0, foff = 0,
       fmajor = 0\<rparr>),
     devsw_read = (\<lambda>_. None), devsw_write = (\<lambda>_. None), forkret_pc = 0, ticks = 0,
     vd_desc = (\<lambda>_. \<lparr>vaddr = VNull, vlen = 0, vflags = 0, vnext = 0\<rparr>), vd_avail_idx = 0,
     vd_avail_ring = (\<lambda>_. 0), vd_used_hw = 0, vd_used_ring = (\<lambda>_. 0), vd_free = (\<lambda>i. i < 8), vd_used_idx = 0,
     vd_info_b = (\<lambda>_. None), vd_info_status = (\<lambda>_. 0),
     vd_ops = (\<lambda>_. \<lparr>rtype = 0, rreserved = 0, rsector = 0\<rparr>), vd_owned = (\<lambda>_. False), vd_regs = (\<lambda>_. 0),
     spp = False, spie = False, sepc = 0, scause = 0, stval = 0, stvec = 0, stimecmp = 0, mtime = 0,
     kernelvec_pc = 0, usertrap_pc = 0, uservec_off = 0, userret_off = 0, plic_irq = 0, plic_regs = (\<lambda>_. 0),
     virtio_isr = 0, first = False, started = True\<rparr>"

lemma kex_simps:
  "lk kex = idle_lk (Some 0)" "freelist kex = 0x80030000" "kend kex = 0x80022000"
  "procs kex = (\<lambda>_. proc0\<lparr>pagetable := 0x80033000, psz := 0x2000\<rparr>)" "nextpid kex = 1" "initproc kex = Some 1"
  "sleeplocks kex = (\<lambda>_. \<lparr>slocked = False, slname = [], slpid = 0\<rparr>)"
  "lru kex = [0..<NBUF]" "disk kex = (\<lambda>_ _. 0)" "wtrace kex = []"
  "cons_buf kex = (\<lambda>_. 0)" "cons_r kex = 0" "cons_w kex = 0" "cons_e kex = 0"
  "pipes kex = (\<lambda>_. \<lparr>pdata = (\<lambda>_. 0), nread = 0, nwrite = 0, readopen = True, writeopen = True\<rparr>)"
  "files kex = (\<lambda>_. \<lparr>ftype = FD_NONE, fref = 0, freadable = False, fwritable = False, fpipe = 0, fip = 0, foff = 0,
       fmajor = 0\<rparr>)"
  "ticks kex = 0" "vd_free kex = (\<lambda>i. i < 8)" "bufs kex = (\<lambda>_. \<lparr>bvalid = False, bdev = 0, bblockno = 0, brefcnt = 0, bdata = (\<lambda>_. 0)\<rparr>)"
  by (simp_all add: kex_def)

lemma small_kex: "small_vm kex"
  by (simp add: small_vm_def kex_def)

lemma quiet_kex: "quiet 0 kex"
  by (simp add: quiet_def kex_simps)

text \<open>What \<open>kframe\<close> leaves alone: everything but memory, its free list and the lock state.\<close>

lemma kframe_eq: "kframe s s' \<Longrightarrow> s' = s\<lparr>lk := lk s', mem := mem s', freelist := freelist s'\<rparr>"
  by (cases s; cases s') (simp add: kframe_def)

lemma kframe_quiet: "kframe s s' \<Longrightarrow> quiet p s \<Longrightarrow> quiet p s'"
  by (auto simp: kframe_def quiet_def)

text \<open>The running process with its first page present, zero and writable.\<close>

lemma kex_page:
  obtains m f L xs where "quiet 0 (kex\<lparr>lk := L, mem := m, freelist := f\<rparr>)"
    "uvm_wf (kex\<lparr>lk := L, mem := m, freelist := f\<rparr>) xs 0x80033000"
    "\<And>v. unat v < 4096 \<Longrightarrow> uwritable m 0x80033000 v"
    "\<And>v. unat v < 4096 \<Longrightarrow> vbyte m 0x80033000 v = Some 0"
proof -
  obtain pg s xs where "vmfault 0x80033000 0 False kex = Some (pg, s)" and wf: "uvm_wf s xs 0x80033000"
    and fr: "kframe kex s" and v: "\<And>v. unat v < 4096 \<Longrightarrow> uwritable (mem s) 0x80033000 v"
    "\<And>v. unat v < 4096 \<Longrightarrow> vbyte (mem s) 0x80033000 v = Some 0"
    by (rule small_vm_fault[OF small_kex]) (rule that)
  have e: "kex\<lparr>lk := lk s, mem := mem s, freelist := freelist s\<rparr> = s" using kframe_eq[OF fr] by (rule sym)
  show thesis
    by (rule that[where L = "lk s" and m = "mem s" and f = "freelist s" and xs = xs])
      (simp_all add: e wf v kframe_quiet[OF fr quiet_kex])
qed

end
