(* ===== verification/Ring.thy ===== *)
theory Ring
  imports Cmem
begin

text \<open>
  Ring buffers indexed by free-running 32-bit counters, the structure shared by the pipe
  (\<^verbatim>\<open>pi->data[pi->nwrite++ % PIPESIZE]\<close>) and the console (\<^verbatim>\<open>cons.buf[cons.e++ % INPUT_BUF_SIZE]\<close>).
  Two locales: \<open>ring\<close>, what a ring of a size dividing \<open>2 ^ 32\<close> holds and how one put or get
  changes it, the counters wrapping; and \<open>byte_queue\<close>, the bounded first-in first-out queue
  the clients rely on. The first is interpreted at both sizes, the second on the operations of
  the pipe.
\<close>

definition ring_contents :: "nat \<Rightarrow> carr \<Rightarrow> u32 \<Rightarrow> u32 \<Rightarrow> u8 list" where
  "ring_contents N buf r w = map (\<lambda>k. buf (unat (r + of_nat k) mod N)) [0..<unat (w - r)]"

lemma length_ring_contents [simp]: "length (ring_contents N buf r w) = unat (w - r)"
  by (simp add: ring_contents_def)

lemma unat_Suc_32: "unat (x :: u32) + 1 < 4294967296 \<Longrightarrow> unat (x + 1) = unat x + 1"
  by (simp add: unat_word_ariths)

locale ring =
  fixes N :: nat
  assumes size_pos: "0 < N" and size_dvd: "N dvd 4294967296"
begin

lemma size_le: "N \<le> 4294967296"
  using size_dvd by (rule dvd_imp_le) simp

lemma index_mod: "unat (r + of_nat k :: u32) mod N = (unat r + k) mod N"
proof -
  have "unat (r + of_nat k :: u32) = (unat r + k) mod 4294967296"
    by (simp add: unat_word_ariths unat_of_nat mod_simps)
  then show ?thesis using size_dvd by (simp add: mod_mod_cancel)
qed

lemma index_inj:
  assumes "i < N" and "j < N" and "unat (r + of_nat i :: u32) mod N = unat (r + of_nat j :: u32) mod N"
  shows "i = j"
proof -
  have "(unat r + i) mod N = (unat r + j) mod N" using assms(3) by (simp add: index_mod)
  then have "i mod N = j mod N" by (auto simp: nat_mod_eq_iff)
  then show ?thesis using assms(1,2) by simp
qed

lemma put_contents:
  assumes "unat (w - r) < N" and "N < 4294967296"
  shows "ring_contents N (buf(unat w mod N := c)) r (w + 1) = ring_contents N buf r w @ [c]"
proof -
  let ?n = "unat (w - r)"
  have w: "w = r + of_nat ?n" by simp
  have "w + 1 - r = (w - r) + 1" by (simp add: algebra_simps)
  moreover have "unat ((w - r) + 1) = ?n + 1" using assms by (intro unat_Suc_32) linarith
  ultimately have n: "unat (w + 1 - r) = Suc ?n" by (simp only: Suc_eq_plus1)
  have "unat w mod N = unat (r + of_nat ?n) mod N" by simp
  moreover have "unat (r + of_nat k) mod N \<noteq> unat (r + of_nat ?n) mod N" if "k < ?n" for k
    using index_inj[of k ?n r] that assms(1) by auto
  ultimately show ?thesis
    unfolding ring_contents_def n by simp
qed

lemma get_contents:
  assumes "r \<noteq> w"
  shows "ring_contents N buf r w = buf (unat r mod N) # ring_contents N buf (r + 1) w"
proof -
  have ne: "unat (w - r) \<noteq> 0" using assms by (simp add: unat_eq_0)
  have e: "w - (r + 1) = (w - r) - 1" by (simp add: algebra_simps)
  have n: "unat (w - r) = Suc (unat (w - (r + 1)))"
    unfolding e using unat_minus_one[of "w - r"] ne assms by simp
  have "[0..<Suc m] = 0 # map Suc [0..<m]" for m by (simp add: upt_conv_Cons map_Suc_upt del: upt_Suc)
  then show ?thesis
    unfolding ring_contents_def n by (simp add: add.assoc del: upt_Suc)
qed

end

section \<open>Bounded queues\<close>

text \<open>
  \<open>ok\<close> is the invariant of the queue, \<open>contents\<close> its abstraction. \<open>enq\<close> is only called
  when the queue is not full, \<open>next\<close> and \<open>deq\<close> only when it is not empty.
\<close>

locale byte_queue =
  fixes ok :: "'q \<Rightarrow> bool" and contents :: "'q \<Rightarrow> u8 list" and cap :: nat
    and full empty :: "'q \<Rightarrow> bool" and enq :: "u8 \<Rightarrow> 'q \<Rightarrow> 'q" and front :: "'q \<Rightarrow> u8" and deq :: "'q \<Rightarrow> 'q"
  assumes bounded: "ok q \<Longrightarrow> length (contents q) \<le> cap"
    and full_iff: "ok q \<Longrightarrow> full q \<longleftrightarrow> length (contents q) = cap"
    and empty_iff: "ok q \<Longrightarrow> empty q \<longleftrightarrow> contents q = []"
    and enq: "ok q \<Longrightarrow> \<not> full q \<Longrightarrow> ok (enq c q) \<and> contents (enq c q) = contents q @ [c]"
    and deq: "ok q \<Longrightarrow> \<not> empty q \<Longrightarrow> ok (deq q) \<and> contents q = front q # contents (deq q)"
begin

lemma not_full: "ok q \<Longrightarrow> length (contents q) < cap \<Longrightarrow> \<not> full q"
  by (simp add: full_iff)

lemma enq_all:
  "ok q \<Longrightarrow> length (contents q) + length cs \<le> cap \<Longrightarrow>
     ok (fold enq cs q) \<and> contents (fold enq cs q) = contents q @ cs"
proof (induction cs arbitrary: q)
  case (Cons c cs)
  then have "ok (enq c q) \<and> contents (enq c q) = contents q @ [c]" by (intro enq not_full) simp_all
  then show ?case using Cons.IH[of "enq c q"] Cons.prems by simp
qed simp

lemma deq_all:
  "ok q \<Longrightarrow> n \<le> length (contents q) \<Longrightarrow>
     ok ((deq ^^ n) q) \<and> contents ((deq ^^ n) q) = drop n (contents q)
     \<and> map (\<lambda>i. front ((deq ^^ i) q)) [0..<n] = take n (contents q)"
proof (induction n)
  case (Suc n)
  let ?q = "(deq ^^ n) q"
  have q: "ok ?q" "contents ?q = drop n (contents q)" using Suc by simp_all
  then have "\<not> empty ?q" using Suc.prems(2) by (simp add: empty_iff)
  then have d: "ok (deq ?q)" "drop n (contents q) = front ?q # contents (deq ?q)" using deq q by simp_all
  then have "contents (deq ?q) = drop (Suc n) (contents q)" by (simp add: drop_Suc drop_tl)
  moreover have "front ?q = contents q ! n" using d(2) Suc.prems(2) by (metis Suc_le_lessD hd_drop_conv_nth list.sel(1))
  ultimately show ?case using Suc d(1) by (simp add: take_Suc_conv_app_nth)
qed simp

end

end
