(* ===== verification/PipeFacts.thy ===== *)
theory PipeFacts
  imports Example Ring
begin

text \<open>
  The pipe of \<^verbatim>\<open>kernel/pipe.c\<close> as a bounded first-in first-out byte queue. \<open>pipe_contents\<close>
  abstracts the ring and its two wrapping counters to the list of bytes in transit; the
  interpretation \<open>pipe_queue\<close> shows that the tests and updates of the code implement the queue,
  and the loops of \<^verbatim>\<open>pipewrite\<close> and \<^verbatim>\<open>piperead\<close> are folds of the queue operations.
\<close>

section \<open>The ring of the pipe is a queue\<close>

interpretation pipe_ring: ring PIPESIZE
  by unfold_locales (simp_all add: PIPESIZE_def)

definition pipe_contents :: "pipe \<Rightarrow> u8 list" where
  "pipe_contents x = ring_contents PIPESIZE (pdata x) (nread x) (nwrite x)"

definition pipe_ok :: "pipe \<Rightarrow> bool" where
  "pipe_ok x \<longleftrightarrow> unat (nwrite x - nread x) \<le> PIPESIZE"

definition pipe_get :: "pipe \<Rightarrow> pipe" where
  "pipe_get x = x\<lparr>nread := nread x + 1\<rparr>"

lemma pipe_get_eq: "pipe_get = (\<lambda>x. x\<lparr>nread := nread x + 1\<rparr>)"
  by (simp add: fun_eq_iff pipe_get_def)

lemma length_pipe_contents [simp]: "length (pipe_contents x) = unat (nwrite x - nread x)"
  by (simp add: pipe_contents_def)

lemma pipe_full_iff: "\<not> pipe_can_write x \<longleftrightarrow> unat (nwrite x - nread x) = PIPESIZE"
proof -
  have "nwrite x = nread x + of_nat PIPESIZE \<longleftrightarrow> nwrite x - nread x = of_nat PIPESIZE" by (auto simp: algebra_simps)
  also have "\<dots> \<longleftrightarrow> unat (nwrite x - nread x) = PIPESIZE"
    by (simp add: PIPESIZE_def word_unat_eq_iff unat_of_nat)
  finally show ?thesis by (simp add: pipe_can_write_def)
qed

interpretation pipe_queue: byte_queue pipe_ok pipe_contents PIPESIZE "\<lambda>x. \<not> pipe_can_write x" pipe_empty
  pipe_put pipe_next pipe_get
proof (unfold_locales, goal_cases)
  case (1 q)
  then show ?case by (simp add: pipe_ok_def)
next
  case (2 q)
  then show ?case by (simp add: pipe_full_iff)
next
  case (3 q)
  show ?case using length_pipe_contents[of q] by (auto simp: pipe_empty_def unat_eq_0 simp flip: length_0_conv)
next
  case (4 q c)
  then have lt: "unat (nwrite q - nread q) < PIPESIZE" by (simp add: pipe_full_iff pipe_ok_def)
  have eq: "pipe_contents (pipe_put c q) = pipe_contents q @ [c]"
    using pipe_ring.put_contents[OF lt] by (simp add: pipe_put_def pipe_contents_def PIPESIZE_def)
  then have "unat (nwrite (pipe_put c q) - nread (pipe_put c q)) = Suc (unat (nwrite q - nread q))"
    by (metis length_pipe_contents length_append_singleton)
  then show ?case using eq lt by (simp add: pipe_ok_def)
next
  case (5 q)
  then have "nread q \<noteq> nwrite q" by (simp add: pipe_empty_def)
  then have eq: "pipe_contents q = pipe_next q # pipe_contents (pipe_get q)"
    using pipe_ring.get_contents by (simp add: pipe_get_def pipe_contents_def pipe_next_def)
  then have "unat (nwrite q - nread q) = Suc (unat (nwrite (pipe_get q) - nread (pipe_get q)))"
    by (metis length_pipe_contents length_Cons)
  then show ?case using 5(1) eq by (simp add: pipe_ok_def)
qed

section \<open>The write loop\<close>

lemma upd_pipe_simps [simp]:
  "lk (upd_pipe pi f s) = lk s" "mem (upd_pipe pi f s) = mem s" "procs (upd_pipe pi f s) = procs s"
  "pipes (upd_pipe pi f s) = (pipes s)(pi := f (pipes s pi))"
  by (simp_all add: upd_pipe_def)

lemma uvm_wf_upd_pipe [simp]: "uvm_wf (upd_pipe pi f s) xs root = uvm_wf s xs root"
  by (simp add: uvm_wf_def kpool_def kmem_inv_def is_valid_pa_def upd_pipe_def)

lemma uvm_wf_cong:
  assumes "mem s' = mem s" and "kpool s' xs" and "uvm_wf s xs root"
  shows "uvm_wf s' xs root"
  using assms(3) unfolding uvm_wf_def assms(1) using assms(2) by blast

lemma copyin_byte:
  assumes "uvm_wf s xs root" "va < MAXVA" "vbyte (mem s) root va = Some b"
  shows "copyin root va 1 s = Some (0, [b], s)"
proof (rule copyin_spec[OF assms(1)])
  show "unat va + 1 \<le> unat MAXVA" using assms(2) by (simp add: word_less_nat_alt)
  fix v assume "in_range v va 1"
  then have "v = va" by (simp add: in_range_def word_unat_eq_iff)
  then show "vbyte (mem s) root v = Some ([b] ! (unat v - unat va))" using assms(3) by simp
qed simp

lemma pipewrite_loop_eq:
  assumes "lk s = taken (PipeLock pi) L" and "hart_ok L" and "\<And>l. lock_free l L" and "cproc (mycpu L) = Some p"
    and "readopen (pipes s pi)" and "\<not> pkilled (procs s p)" and "uvm_wf s xs (pagetable (procs s p))"
    and "pipe_ok (pipes s pi)" and "length (pipe_contents (pipes s pi)) + length bs \<le> PIPESIZE"
    and "unat addr + (k + length bs) \<le> unat MAXVA"
    and "\<And>i. i < length bs \<Longrightarrow> vbyte (mem s) (pagetable (procs s p)) (addr + of_nat (k + i)) = Some (bs ! i)"
  shows "pipewrite_loop p pi addr (int (k + length bs)) (int k) s = Some (PRet (int (k + length bs)),
     s\<lparr>lk := settle L, procs := woken (Some (ChanPipeRead pi)) (Some p) {..<NPROC} (procs s),
       pipes := (pipes s)(pi := fold pipe_put bs (pipes s pi))\<rparr>)"
  using assms
proof (induction bs arbitrary: k s)
  case Nil
  then have "wakeup (Some (ChanPipeRead pi)) s = Some (s\<lparr>lk := settle (lk s),
     procs := woken (Some (ChanPipeRead pi)) (Some p) {..<NPROC} (procs s)\<rparr>)"
    by (subst wakeup_eq) simp_all
  then show ?case using Nil by (subst pipewrite_loop.simps) (simp add: lock_simps)
next
  case (Cons b bs)
  let ?va = "addr + of_nat k :: u64"
  have k: "killed p s = Some (False, s)" using Cons.prems by (subst killed_eq) simp_all
  have w: "pipe_can_write (pipes s pi)" using pipe_queue.not_full[OF Cons.prems(8)] Cons.prems(9) by simp
  have "unat ?va = unat addr + k"
    using Cons.prems(10) unat_MAXVA by (simp add: unat_word_ariths unat_of_nat)
  then have va: "?va < MAXVA" using Cons.prems(10) by (simp add: word_less_nat_alt)
  have c: "copyin (pagetable (procs s p)) ?va 1 s = Some (0, [b], s)"
    using copyin_byte[OF Cons.prems(7) va] Cons.prems(11)[of 0] by simp
  let ?t = "upd_pipe pi (pipe_put b) s"
  have q: "pipe_ok (pipe_put b (pipes s pi))" "pipe_contents (pipe_put b (pipes s pi)) = pipe_contents (pipes s pi) @ [b]"
    using pipe_queue.enq[OF Cons.prems(8)] w by simp_all
  have "pipewrite_loop p pi addr (int (Suc k + length bs)) (int (Suc k)) ?t = Some (PRet (int (Suc k + length bs)),
     ?t\<lparr>lk := settle L, procs := woken (Some (ChanPipeRead pi)) (Some p) {..<NPROC} (procs ?t),
       pipes := (pipes ?t)(pi := fold pipe_put bs (pipes ?t pi))\<rparr>)"
  proof (rule Cons.IH)
    show "readopen (pipes ?t pi)" using Cons.prems(5) by (simp add: pipe_put_def)
    show "length (pipe_contents (pipes ?t pi)) + length bs \<le> PIPESIZE"
      using Cons.prems(9) arg_cong[OF q(2), of length] by simp
    fix i assume "i < length bs"
    then show "vbyte (mem ?t) (pagetable (procs ?t p)) (addr + word_of_nat (Suc k + i)) = Some (bs ! i)"
      using Cons.prems(11)[of "Suc i"] by simp
  qed (use Cons.prems q in simp_all)
  then show ?case
    using k w c Cons.prems(5) by (subst pipewrite_loop.simps) (simp add: upd_pipe_def add.commute)
qed

text \<open>
  C18. A pipe write that fits never waits and appends. If the reader is open, the caller not
  killed, and the bytes fit beside what is already in the pipe, \<^verbatim>\<open>pipewrite\<close> returns the number
  of bytes; the bytes of the user buffer stand behind the old contents; no other pipe and no
  memory changes; all locks are released; and every process that slept waiting to read this
  pipe can run again.
\<close>

theorem pipewrite_appends:
  assumes q: "quiet p s" and wf: "uvm_wf s xs (pagetable (procs s p))"
    and alive: "readopen (pipes s pi)" "\<not> pkilled (procs s p)"
    and ok: "pipe_ok (pipes s pi)" and room: "length (pipe_contents (pipes s pi)) + length bs \<le> PIPESIZE"
    and range: "unat addr + length bs \<le> unat MAXVA"
    and bytes: "\<And>i. i < length bs \<Longrightarrow> vbyte (mem s) (pagetable (procs s p)) (addr + of_nat i) = Some (bs ! i)"
  shows "\<exists>s'. pipewrite pi addr (int (length bs)) s = Some (int (length bs), s')
    \<and> pipe_contents (pipes s' pi) = pipe_contents (pipes s pi) @ bs \<and> pipe_ok (pipes s' pi)
    \<and> (\<forall>pj. pj \<noteq> pi \<longrightarrow> pipes s' pj = pipes s pj) \<and> mem s' = mem s \<and> quiet p s'
    \<and> (\<forall>r<NPROC. r \<noteq> p \<and> pstate (procs s r) = SLEEPING \<and> pchan (procs s r) = Some (ChanPipeRead pi) \<longrightarrow>
         pstate (procs s' r) = RUNNABLE)"
proof -
  let ?t = "s\<lparr>lk := taken (PipeLock pi) (lk s)\<rparr>"
  let ?s' = "s\<lparr>lk := settle (lk s), procs := woken (Some (ChanPipeRead pi)) (Some p) {..<NPROC} (procs s),
       pipes := (pipes s)(pi := fold pipe_put bs (pipes s pi))\<rparr>"
  note qd = quietD[OF q]
  have wft: "uvm_wf ?t xs (pagetable (procs ?t p))"
  proof (rule uvm_wf_cong[of _ s])
    show "kpool ?t xs" using uvm_wfD(1)[OF wf] qd by (simp add: kpool_def)
  qed (use wf in simp_all)
  have "pipewrite_loop p pi addr (int (0 + length bs)) (int 0) ?t = Some (PRet (int (0 + length bs)),
     ?t\<lparr>lk := settle (lk s), procs := woken (Some (ChanPipeRead pi)) (Some p) {..<NPROC} (procs ?t),
       pipes := (pipes ?t)(pi := fold pipe_put bs (pipes ?t pi))\<rparr>)"
  proof (rule pipewrite_loop_eq[OF _ qd(1,2,3) _ _ wft])
    fix i assume "i < length bs"
    then show "vbyte (mem ?t) (pagetable (procs ?t p)) (addr + of_nat (0 + i)) = Some (bs ! i)" using bytes by simp
  qed (use alive ok room range in simp_all)
  then have "pipewrite pi addr (int (length bs)) s = Some (int (length bs), ?s')"
    using qd by (simp add: pipewrite_def pipewrite_start_def lock_simps)
  moreover have "quiet p ?s'" using q by (simp add: quiet_def)
  moreover have "pipe_ok (pipes ?s' pi)" "pipe_contents (pipes ?s' pi) = pipe_contents (pipes s pi) @ bs"
    using pipe_queue.enq_all[OF ok room] by simp_all
  ultimately show ?thesis by (intro exI[of _ ?s']) (simp add: woken_def)
qed

theorem pipewrite_appends_witness:
  "\<exists>(s :: bootst) s'. pipe_contents (pipes s 7) = [] \<and> pipewrite 7 100 (int (length [0, 0, 0 :: u8])) s = Some (3, s')
     \<and> pipe_contents (pipes s' 7) = [0, 0, 0]"
proof -
  obtain m f L xs where k: "quiet 0 (kex\<lparr>lk := L, mem := m, freelist := f\<rparr>)"
    "uvm_wf (kex\<lparr>lk := L, mem := m, freelist := f\<rparr>) xs 0x80033000"
    and v: "\<And>v. unat v < 4096 \<Longrightarrow> vbyte m 0x80033000 v = Some 0"
    by (rule kex_page) (rule that)
  let ?s = "kex\<lparr>lk := L, mem := m, freelist := f\<rparr>"
  have M: "unat MAXVA = 274877906944" by (rule unat_MAXVA)
  have c: "pipe_contents (pipes ?s 7) = []" by (simp add: kex_simps pipe_contents_def ring_contents_def)
  have "\<exists>s'. pipewrite 7 100 (int (length [0, 0, 0 :: u8])) ?s = Some (int (length [0, 0, 0 :: u8]), s')
    \<and> pipe_contents (pipes s' 7) = pipe_contents (pipes ?s 7) @ [0, 0, 0] \<and> pipe_ok (pipes s' 7)
    \<and> (\<forall>pj. pj \<noteq> 7 \<longrightarrow> pipes s' pj = pipes ?s pj) \<and> mem s' = mem ?s \<and> quiet 0 s'
    \<and> (\<forall>r<NPROC. r \<noteq> 0 \<and> pstate (procs ?s r) = SLEEPING \<and> pchan (procs ?s r) = Some (ChanPipeRead 7) \<longrightarrow>
         pstate (procs s' r) = RUNNABLE)"
  proof (rule pipewrite_appends[OF k(1)])
    show "uvm_wf ?s xs (pagetable (procs ?s 0))" using k(2) by (simp add: kex_simps)
    fix i assume "i < length [0, 0, 0 :: u8]"
    then have "i = 0 \<or> i = 1 \<or> i = 2" by auto
    then show "vbyte (mem ?s) (pagetable (procs ?s 0)) (100 + of_nat i) = Some ([0, 0, 0] ! i)"
      by (elim disjE) (simp_all add: kex_simps v)
  qed (simp_all add: kex_simps proc0_def pipe_ok_def PIPESIZE_def M pipe_contents_def ring_contents_def)
  then obtain s' where "pipewrite 7 100 (int (length [0, 0, 0 :: u8])) ?s = Some (int (length [0, 0, 0 :: u8]), s')"
    "pipe_contents (pipes s' 7) = pipe_contents (pipes ?s 7) @ [0, 0, 0]" by blast
  then have "pipe_contents (pipes ?s 7) = [] \<and> pipewrite 7 100 (int (length [0, 0, 0 :: u8])) ?s = Some (3, s')
     \<and> pipe_contents (pipes s' 7) = [0, 0, 0]" using c by simp
  then show ?thesis by blast
qed

section \<open>The read loop\<close>

lemma piperead_copy_eq:
  assumes "cproc (mycpu (lk s)) = Some p" and "uvm_wf s xs (pagetable (procs s p))" and "pipe_ok (pipes s pi)"
    and "len = min (n - k) (length (pipe_contents (pipes s pi)))" and "k \<le> n"
    and "unat addr + (k + len) \<le> unat MAXVA"
    and "\<And>v. v < MAXVA \<Longrightarrow> unat addr + k \<le> unat v \<Longrightarrow> unat v < unat addr + k + len \<Longrightarrow>
           uwritable (mem s) (pagetable (procs s p)) v"
  shows "\<exists>m. piperead_copy p pi addr (int n) (int k) s = Some (int (k + len),
       s\<lparr>mem := m, pipes := (pipes s)(pi := (pipe_get ^^ len) (pipes s pi))\<rparr>)
     \<and> uvm_wf (s\<lparr>mem := m\<rparr>) xs (pagetable (procs s p))
     \<and> (\<forall>v<MAXVA. vbyte m (pagetable (procs s p)) v =
          (if unat addr + k \<le> unat v \<and> unat v < unat addr + k + len
           then Some (pipe_contents (pipes s pi) ! (unat v - (unat addr + k)))
           else vbyte (mem s) (pagetable (procs s p)) v))"
  using assms
proof (induction len arbitrary: k s)
  case 0
  then have stop: "k = n \<or> pipe_empty (pipes s pi)" by (auto simp: pipe_empty_def min_def unat_eq_0 split: if_splits)
  then show ?case using 0 by (subst piperead_copy.simps) (auto intro!: exI[of _ "mem s"])
next
  case (Suc len)
  let ?root = "pagetable (procs s p)" and ?va = "addr + of_nat k :: u64" and ?x = "pipes s pi"
  have more: "k < n" "\<not> pipe_empty ?x"
    using Suc.prems(4) by (auto simp: pipe_empty_def min_def unat_eq_0 split: if_splits)
  have un: "unat ?va = unat addr + k"
    using Suc.prems(6) unat_MAXVA by (simp add: unat_word_ariths unat_of_nat)
  have q: "pipe_ok (pipe_get ?x)" "pipe_contents ?x = pipe_next ?x # pipe_contents (pipe_get ?x)"
    using pipe_queue.deq[OF Suc.prems(3) more(2)] by simp_all
  obtain m where m: "copyout ?root ?va [pipe_next ?x] s = Some (0, s\<lparr>mem := m\<rparr>)" "uvm_wf (s\<lparr>mem := m\<rparr>) xs ?root"
    "\<And>v. leaf m ?root v = leaf (mem s) ?root v"
    "\<And>v. v < MAXVA \<Longrightarrow> vbyte m ?root v = (if in_range v ?va (length [pipe_next ?x])
       then Some ([pipe_next ?x] ! (unat v - unat ?va)) else vbyte (mem s) ?root v)"
    by (rule copyout_writable_bytes[OF Suc.prems(2,1) refl, of ?va "[pipe_next ?x]"])
       (use Suc.prems(6,7) un in \<open>auto simp: in_range_def\<close>)
  let ?t = "upd_pipe pi pipe_get (s\<lparr>mem := m\<rparr>)"
  have len: "len = min (n - Suc k) (length (pipe_contents (pipes ?t pi)))"
  proof -
    have "length (pipe_contents ?x) = Suc (length (pipe_contents (pipe_get ?x)))" using q(2) by (metis length_Cons)
    then show ?thesis using Suc.prems(4) more(1) by simp
  qed
  have "\<exists>m'. piperead_copy p pi addr (int n) (int (Suc k)) ?t = Some (int (Suc k + len),
       ?t\<lparr>mem := m', pipes := (pipes ?t)(pi := (pipe_get ^^ len) (pipes ?t pi))\<rparr>)
     \<and> uvm_wf (?t\<lparr>mem := m'\<rparr>) xs (pagetable (procs ?t p))
     \<and> (\<forall>v<MAXVA. vbyte m' (pagetable (procs ?t p)) v =
          (if unat addr + Suc k \<le> unat v \<and> unat v < unat addr + Suc k + len
           then Some (pipe_contents (pipes ?t pi) ! (unat v - (unat addr + Suc k)))
           else vbyte (mem ?t) (pagetable (procs ?t p)) v))"
  proof (rule Suc.IH[OF _ _ _ len])
    fix v assume "v < MAXVA" "unat addr + Suc k \<le> unat v" "unat v < unat addr + Suc k + len"
    then show "uwritable (mem ?t) (pagetable (procs ?t p)) v"
      using Suc.prems(7)[of v] uwritable_leaf_cong[OF m(3)] by simp
  qed (use Suc.prems m(2) q(1) more in simp_all)
  then obtain m' where m': "piperead_copy p pi addr (int n) (int (Suc k)) ?t = Some (int (Suc k + len),
       ?t\<lparr>mem := m', pipes := (pipes ?t)(pi := (pipe_get ^^ len) (pipes ?t pi))\<rparr>)"
     "uvm_wf (?t\<lparr>mem := m'\<rparr>) xs ?root"
     "\<And>v. v < MAXVA \<Longrightarrow> vbyte m' ?root v =
          (if unat addr + Suc k \<le> unat v \<and> unat v < unat addr + Suc k + len
           then Some (pipe_contents (pipe_get ?x) ! (unat v - (unat addr + Suc k)))
           else vbyte m ?root v)"
    by auto
  have e: "int (Suc k) = int k + 1" by simp
  have "piperead_copy p pi addr (int n) (int k) s = piperead_copy p pi addr (int n) (int (Suc k)) ?t"
    unfolding e using more m(1) by (subst piperead_copy.simps) (simp add: Let_def pipe_get_eq)
  then have "piperead_copy p pi addr (int n) (int k) s = Some (int (k + Suc len),
       s\<lparr>mem := m', pipes := (pipes s)(pi := (pipe_get ^^ Suc len) (pipes s pi))\<rparr>)"
    using m'(1) by (simp add: upd_pipe_def funpow_swap1)
  moreover have "upd_pipe pi pipe_get (s\<lparr>mem := m'\<rparr>) = ?t\<lparr>mem := m'\<rparr>" by (simp add: upd_pipe_def)
  then have "uvm_wf (s\<lparr>mem := m'\<rparr>) xs ?root"
    using m'(2) uvm_wf_upd_pipe[of pi pipe_get "s\<lparr>mem := m'\<rparr>" xs ?root] by (simp only:)
  moreover have "vbyte m' ?root v = (if unat addr + k \<le> unat v \<and> unat v < unat addr + k + Suc len
           then Some (pipe_contents ?x ! (unat v - (unat addr + k))) else vbyte (mem s) ?root v)" if "v < MAXVA" for v
    using m'(3)[OF that] m(4)[OF that] un by (auto simp: in_range_def q(2) nth_Cons')
  ultimately show ?case by blast
qed

text \<open>
  C19. A pipe read takes the oldest bytes in order. When the pipe holds data, or its writer is
  closed, \<^verbatim>\<open>piperead\<close> into a writable user buffer does not wait: it returns the smaller of the
  requested count and the number of bytes held (0 at end of file); exactly the oldest bytes are
  in the buffer, in order, and exactly those have left the pipe; no other present user byte changed; all
  locks are released; and every process that slept waiting to write can run again.
\<close>

theorem piperead_takes_oldest:
  assumes q: "quiet p s" and wf: "uvm_wf s xs (pagetable (procs s p))" and ok: "pipe_ok (pipes s pi)"
    and ready: "pipe_contents (pipes s pi) \<noteq> [] \<or> \<not> writeopen (pipes s pi)"
    and len: "len = min n (length (pipe_contents (pipes s pi)))"
    and range: "unat addr + len \<le> unat MAXVA"
    and w: "\<And>v. v < MAXVA \<Longrightarrow> in_range v addr len \<Longrightarrow> uwritable (mem s) (pagetable (procs s p)) v"
  shows "\<exists>s'. piperead pi addr (int n) s = Some (int len, s')
    \<and> pipe_contents (pipes s' pi) = drop len (pipe_contents (pipes s pi)) \<and> pipe_ok (pipes s' pi)
    \<and> (\<forall>v<MAXVA. vbyte (mem s') (pagetable (procs s p)) v =
         (if in_range v addr len then Some (pipe_contents (pipes s pi) ! (unat v - unat addr))
          else vbyte (mem s) (pagetable (procs s p)) v))
    \<and> quiet p s'
    \<and> (\<forall>r<NPROC. r \<noteq> p \<and> pstate (procs s r) = SLEEPING \<and> pchan (procs s r) = Some (ChanPipeWrite pi) \<longrightarrow>
         pstate (procs s' r) = RUNNABLE)"
proof -
  let ?t = "s\<lparr>lk := taken (PipeLock pi) (lk s)\<rparr>" and ?root = "pagetable (procs s p)"
  note qd = quietD[OF q]
  have wft: "uvm_wf ?t xs (pagetable (procs ?t p))"
  proof (rule uvm_wf_cong[of _ s])
    show "kpool ?t xs" using uvm_wfD(1)[OF wf] qd by (simp add: kpool_def)
  qed (use wf in simp_all)
  have "\<exists>m. piperead_copy p pi addr (int n) (int 0) ?t = Some (int (0 + len),
       ?t\<lparr>mem := m, pipes := (pipes ?t)(pi := (pipe_get ^^ len) (pipes ?t pi))\<rparr>)
     \<and> uvm_wf (?t\<lparr>mem := m\<rparr>) xs (pagetable (procs ?t p))
     \<and> (\<forall>v<MAXVA. vbyte m (pagetable (procs ?t p)) v =
          (if unat addr + 0 \<le> unat v \<and> unat v < unat addr + 0 + len
           then Some (pipe_contents (pipes ?t pi) ! (unat v - (unat addr + 0)))
           else vbyte (mem ?t) (pagetable (procs ?t p)) v))"
    by (rule piperead_copy_eq[OF _ wft]) (use qd ok len range w in \<open>simp_all add: in_range_def\<close>)
  then obtain m where m: "piperead_copy p pi addr (int n) 0 ?t = Some (int len,
       ?t\<lparr>mem := m, pipes := (pipes s)(pi := (pipe_get ^^ len) (pipes s pi))\<rparr>)"
    "\<And>v. v < MAXVA \<Longrightarrow> vbyte m ?root v = (if in_range v addr len
       then Some (pipe_contents (pipes s pi) ! (unat v - unat addr)) else vbyte (mem s) ?root v)"
    by (auto simp: in_range_def)
  let ?s' = "s\<lparr>lk := settle (lk s), procs := woken (Some (ChanPipeWrite pi)) (Some p) {..<NPROC} (procs s),
       mem := m, pipes := (pipes s)(pi := (pipe_get ^^ len) (pipes s pi))\<rparr>"
  have ne: "(pipe_empty (pipes s pi) \<and> writeopen (pipes s pi)) = False"
    using ready pipe_queue.empty_iff[OF ok] by blast
  have "piperead pi addr (int n) s = Some (int len, ?s')"
    using qd m(1) by (simp add: ne piperead_def piperead_start_def piperead_loop_def lock_simps wakeup_eq)
  moreover have "quiet p ?s'" using q by (simp add: quiet_def)
  moreover have "pipe_ok (pipes ?s' pi)" "pipe_contents (pipes ?s' pi) = drop len (pipe_contents (pipes s pi))"
    using pipe_queue.deq_all[OF ok, of len] len by simp_all
  ultimately show ?thesis using m(2) by (intro exI[of _ ?s']) (simp add: woken_def)
qed

theorem piperead_takes_oldest_witness:
  "\<exists>(s :: bootst) s'. pipe_contents (pipes s 7) = [5, 6, 9] \<and> piperead 7 100 (int 2) s = Some (2, s')
     \<and> pipe_contents (pipes s' 7) = [9] \<and> vbyte (mem s') 0x80033000 101 = Some 6"
proof -
  obtain m f L xs where k: "quiet 0 (kex\<lparr>lk := L, mem := m, freelist := f\<rparr>)"
    "uvm_wf (kex\<lparr>lk := L, mem := m, freelist := f\<rparr>) xs 0x80033000"
    and v: "\<And>v. unat v < 4096 \<Longrightarrow> uwritable m 0x80033000 v"
    by (rule kex_page) (rule that)
  let ?x = "\<lparr>pdata = (\<lambda>_. 0)(0 := 5, 1 := 6, 2 := 9), nread = 0, nwrite = 3, readopen = True, writeopen = True\<rparr>"
  let ?s = "upd_pipe 7 (\<lambda>_. ?x) (kex\<lparr>lk := L, mem := m, freelist := f\<rparr>)"
  have c: "pipe_contents (pipes ?s 7) = [5, 6, 9]"
    by (simp add: pipe_contents_def ring_contents_def PIPESIZE_def upt_rec)
  have M: "unat MAXVA = 274877906944" "(101 :: u64) < MAXVA" by (simp_all add: unat_MAXVA low_MAXVA)
  have pt: "pagetable (procs ?s 0) = 0x80033000" by (simp add: kex_simps)
  have "\<exists>s'. piperead 7 100 (int 2) ?s = Some (int 2, s')
    \<and> pipe_contents (pipes s' 7) = drop 2 (pipe_contents (pipes ?s 7)) \<and> pipe_ok (pipes s' 7)
    \<and> (\<forall>v<MAXVA. vbyte (mem s') (pagetable (procs ?s 0)) v =
         (if in_range v 100 2 then Some (pipe_contents (pipes ?s 7) ! (unat v - unat (100 :: u64)))
          else vbyte (mem ?s) (pagetable (procs ?s 0)) v))
    \<and> quiet 0 s'
    \<and> (\<forall>r<NPROC. r \<noteq> 0 \<and> pstate (procs ?s r) = SLEEPING \<and> pchan (procs ?s r) = Some (ChanPipeWrite 7) \<longrightarrow>
         pstate (procs s' r) = RUNNABLE)"
  proof (rule piperead_takes_oldest)
    show "uvm_wf ?s xs (pagetable (procs ?s 0))" unfolding pt using k(2) by simp
    show "quiet 0 ?s" using k(1) by (simp add: quiet_def)
    show "uwritable (mem ?s) (pagetable (procs ?s 0)) v" if "in_range v 100 2" for v
      unfolding pt using that v by (simp add: in_range_def)
    show "2 = min 2 (length (pipe_contents (pipes ?s 7)))" unfolding c by simp
  qed (simp_all add: pipe_ok_def PIPESIZE_def M pipe_contents_def ring_contents_def)
  then obtain s' where s': "piperead 7 100 (int 2) ?s = Some (int 2, s')"
    "pipe_contents (pipes s' 7) = drop 2 (pipe_contents (pipes ?s 7))"
    "\<forall>v<MAXVA. vbyte (mem s') (pagetable (procs ?s 0)) v =
         (if in_range v 100 2 then Some (pipe_contents (pipes ?s 7) ! (unat v - unat (100 :: u64)))
          else vbyte (mem ?s) (pagetable (procs ?s 0)) v)" by blast
  have "vbyte (mem s') 0x80033000 101 = Some 6"
    using s'(3)[rule_format, OF M(2)] unfolding pt c by (simp add: in_range_def)
  then have "pipe_contents (pipes ?s 7) = [5, 6, 9] \<and> piperead 7 100 (int 2) ?s = Some (2, s')
     \<and> pipe_contents (pipes s' 7) = [9] \<and> vbyte (mem s') 0x80033000 101 = Some 6"
    using s'(1,2) unfolding c by simp
  then show ?thesis by blast
qed

end
