(* ===== verification/ConsoleFacts.thy ===== *)
theory ConsoleFacts
  imports Console Ring Example
begin

text \<open>
  The input ring of the console keeps its shape: the indices stay in the order read, write, edit and
  span at most the buffer, although all three are counters that wrap. First the frame facts, that
  the calls into the rest of the kernel leave the console's own fields alone; then the invariant
  over every operation of the ring.
\<close>

interpretation cons_ring: ring INPUT_BUF_SIZE
  by unfold_locales (simp_all add: INPUT_BUF_SIZE_def)

section \<open>What the calls of the console leave alone\<close>

lemma lock_more:
  fixes s :: "'z uartst_scheme"
  shows "acquire l s = Some s' \<Longrightarrow> uartst.more s' = uartst.more s" "release l s = Some s' \<Longrightarrow> uartst.more s' = uartst.more s"
    "myproc s = Some (r, s') \<Longrightarrow> uartst.more s' = uartst.more s"
  by (auto simp: acquire_def release_def myproc_def Let_def)

lemma wakeup_cons:
  fixes s :: "'z uartst_scheme"
  shows "wakeup_from c ps s = Some s' \<Longrightarrow> uartst.more s' = uartst.more s"
proof (induction ps arbitrary: s)
  case (Cons p ps)
  then show ?case by (auto simp: Let_def bind_eq_Some_conv upd_proc_def split: if_splits dest!: lock_more)
qed simp

lemma sleep_more:
  fixes s :: "'z uartst_scheme"
  shows "killed p s = Some (k, s') \<Longrightarrow> uartst.more s' = uartst.more s"
    and "sleep_out c l s = Some (ie, s') \<Longrightarrow> uartst.more s' = uartst.more s"
    and "sleep_in p l ie s = Some s' \<Longrightarrow> uartst.more s' = uartst.more s"
  by (auto simp: killed_def sleep_out_def sleep_in_def sched_out_def sched_in_def set_intena_def Let_def bind_eq_Some_conv upd_proc_def
      split: if_splits option.splits dest!: lock_more)

lemma putc_more:
  fixes s :: "'z uartst_scheme"
  shows "uartputc_sync c s = Some s' \<Longrightarrow> uartst.more s' = uartst.more s"
  by (auto simp: uartputc_sync_def write_thr_def Let_def bind_eq_Some_conv split: if_splits)

lemma consputc_more:
  fixes s :: "'z uartst_scheme"
  shows "consputc c s = Some s' \<Longrightarrow> uartst.more s' = uartst.more s"
  by (auto simp: consputc_def bind_eq_Some_conv split: if_splits dest!: putc_more)

lemma consputs_more:
  fixes s :: "'z uartst_scheme"
  shows "consputs cs s = Some s' \<Longrightarrow> uartst.more s' = uartst.more s"
  by (induction cs arbitrary: s) (auto simp: bind_eq_Some_conv dest!: consputc_more)

lemma kprintf_more:
  fixes s :: "'z uartst_scheme"
  shows "kprintf fmt ap s = Some s' \<Longrightarrow> uartst.more s' = uartst.more s"
  by (auto simp: kprintf_def bind_eq_Some_conv split: if_splits dest!: lock_more consputs_more)

lemma procdump_more:
  fixes s :: "'z uartst_scheme"
  shows "procdump s = Some s' \<Longrightarrow> uartst.more s' = uartst.more s"
proof -
  have from_more: "procdump_from ps t = Some t' \<Longrightarrow> uartst.more t' = uartst.more t" for ps and t t' :: "'z uartst_scheme"
    by (induction ps arbitrary: t) (auto simp: bind_eq_Some_conv split: if_splits dest!: kprintf_more)
  show "procdump s = Some s' \<Longrightarrow> uartst.more s' = uartst.more s"
    by (auto simp: procdump_def bind_eq_Some_conv dest!: kprintf_more from_more)
qed

lemma page_more:
  fixes s :: "'z uartst_scheme"
  shows "kalloc s = Some (r, s') \<Longrightarrow> uartst.more s' = uartst.more s" and "kfree pa s = Some s' \<Longrightarrow> uartst.more s' = uartst.more s"
  by (auto simp: kalloc_def kfree_def freelist_pop_def freelist_push_def Let_def bind_eq_Some_conv
      split: if_splits prod.splits dest!: lock_more)

lemma walk_from_more:
  fixes s :: "'z uartst_scheme"
  shows "walk_from l pt va alloc s = Some (r, s') \<Longrightarrow> uartst.more s' = uartst.more s"
proof (induction l arbitrary: pt s)
  case (Suc l)
  then show ?case by (auto simp: Let_def bind_eq_Some_conv split: if_splits dest!: page_more)
qed simp

lemma walk_more:
  fixes s :: "'z uartst_scheme"
  shows "walk pt va alloc s = Some (r, s') \<Longrightarrow> uartst.more s' = uartst.more s"
    and "walkaddr pt va s = Some (r', s') \<Longrightarrow> uartst.more s' = uartst.more s"
    and "ismapped pt va s = Some (b, s') \<Longrightarrow> uartst.more s' = uartst.more s"
  by (auto simp: walk_def walkaddr_def ismapped_def bind_eq_Some_conv split: if_splits dest!: walk_from_more)

lemma mappages_loop_more:
  fixes s :: "'z uartst_scheme"
  assumes "mappages_loop pt a lst pa perm s = Some rs"
  shows "uartst.more (snd rs) = uartst.more s"
proof (rule mappages_loop.raw_induct[OF _ assms, where P = "\<lambda>pt a lst pa perm s rs. uartst.more (snd rs) = uartst.more s"], goal_cases)
  case (1 loop pt a lst pa perm s rs)
  from 1(2) obtain pte t where w: "walk pt a True s = Some (pte, t)" by (auto simp: bind_eq_Some_conv)
  let ?t = "t\<lparr>mem := store64 pte (PA2PTE pa OR perm OR PTE_V) (mem t)\<rparr>"
  have "rs = (-1, t) \<or> rs = (0, ?t) \<or> loop pt (a + of_nat PGSIZE) lst (pa + PGSIZE) perm ?t = Some rs"
    using 1(2) w by (auto simp: Let_def split: if_splits)
  then show ?case using walk_more(1)[OF w] 1(1)[of pt "a + of_nat PGSIZE" lst "pa + PGSIZE" perm ?t rs] by auto
qed

lemma vmfault_more:
  fixes s :: "'z uartst_scheme"
  shows "vmfault pt va rd s = Some (r, s') \<Longrightarrow> uartst.more s' = uartst.more s"
  by (auto simp: vmfault_def mappages_def Let_def bind_eq_Some_conv split: if_splits option.splits
      dest!: lock_more page_more walk_more mappages_loop_more)

lemma copyout_more:
  fixes s :: "'z uartst_scheme"
  shows "copyout pt va src s = Some (r, s') \<Longrightarrow> uartst.more s' = uartst.more s"
proof (induction "length src" arbitrary: va src s rule: less_induct)
  case less
  show ?case
  proof (cases "src = []")
    case False
    have "page_room va > 0" by (rule page_room_pos)
    then have "length (drop (min (page_room va) (length src)) src) < length src" using False by simp
    note IH = less.hyps[OF this]
    show ?thesis using less.prems False
      by (subst (asm) copyout.simps)
        (auto simp: Let_def bind_eq_Some_conv split: if_splits dest!: IH walk_more vmfault_more)
  qed (use less.prems in \<open>simp add: copyout.simps\<close>)
qed

lemma either_copyout_more:
  fixes s :: "'z uartst_scheme"
  shows "either_copyout dst src s = Some (r, s') \<Longrightarrow> uartst.more s' = uartst.more s"
  by (cases dst) (auto simp: either_copyout_def bind_eq_Some_conv dest!: lock_more copyout_more)

section \<open>The ring\<close>

definition cons_ok :: "'z consst_scheme \<Rightarrow> bool" where
  "cons_ok s \<longleftrightarrow> unat (cons_w s - cons_r s) \<le> unat (cons_e s - cons_r s) \<and> unat (cons_e s - cons_r s) \<le> INPUT_BUF_SIZE"

text \<open>The input a reader may take, and the line being edited after it.\<close>

definition cons_ready :: "'z consst_scheme \<Rightarrow> u8 list" where
  "cons_ready s = ring_contents INPUT_BUF_SIZE (cons_buf s) (cons_r s) (cons_w s)"

lemma cons_fields:
  assumes "uartst.more s' = uartst.more s"
  shows "cons_r s' = cons_r s" "cons_w s' = cons_w s" "cons_e s' = cons_e s" "cons_buf s' = cons_buf s"
  using assms by (cases s; cases s'; simp)+

lemma cons_ok_more: "uartst.more s' = uartst.more s \<Longrightarrow> cons_ok s' = cons_ok s"
  using cons_fields[of s' s] by (simp add: cons_ok_def)

lemma cons_ready_more: "uartst.more s' = uartst.more s \<Longrightarrow> cons_ready s' = cons_ready s"
  using cons_fields[of s' s] by (simp add: cons_ready_def)

text \<open>What an interrupt may do: the read index stays, the input ready to be read only grows.\<close>

definition grows :: "'z consst_scheme \<Rightarrow> 'z consst_scheme \<Rightarrow> bool" where
  "grows s s' \<longleftrightarrow> cons_ok s' \<and> cons_r s' = cons_r s \<and> (\<exists>xs. cons_ready s' = cons_ready s @ xs)"

lemma grows_more: "cons_ok s \<Longrightarrow> uartst.more s' = uartst.more s \<Longrightarrow> grows s s'"
  using cons_fields[of s' s] cons_ok_more[of s' s] cons_ready_more[of s' s] by (simp add: grows_def)

lemma grows_trans: "grows s t \<Longrightarrow> grows t u \<Longrightarrow> grows s u"
  by (auto simp: grows_def)

text \<open>Erasing the last character of the line being edited.\<close>

lemma grows_erase:
  assumes "cons_ok s" and "cons_e s \<noteq> cons_w s"
  shows "grows s (s\<lparr>cons_e := cons_e s - 1\<rparr>)"
proof -
  let ?w = "cons_w s - cons_r s" and ?e = "cons_e s - cons_r s"
  have "?e \<noteq> ?w" using assms(2) by simp
  then have "unat ?w < unat ?e" using assms(1) by (simp add: cons_ok_def word_unat_eq_iff)
  moreover have "cons_e s - 1 - cons_r s = ?e - 1" by (rule diff_right_commute)
  moreover have "unat (?e - 1) = unat ?e - 1" 
    by (rule unat_minus_one) (use calculation(1) in auto)
  ultimately have "unat (cons_e s - 1 - cons_r s) = unat ?e - 1" "unat ?w < unat ?e" by (simp_all only:)
  moreover have "unat ?e \<le> INPUT_BUF_SIZE" using assms(1) by (simp add: cons_ok_def)
  ultimately have "unat ?w \<le> unat (cons_e s - 1 - cons_r s) \<and> unat (cons_e s - 1 - cons_r s) \<le> INPUT_BUF_SIZE" by linarith
  then show ?thesis by (simp add: grows_def cons_ok_def cons_ready_def)
qed

text \<open>Storing a character at the edit index, and making the line ready.\<close>

lemma contents_prefix:
  assumes "unat (w - r) \<le> unat (e - r)"
  shows "\<exists>xs. ring_contents N buf r e = ring_contents N buf r w @ xs"
proof -
  have "[0..<unat (e - r)] = [0..<unat (w - r)] @ [unat (w - r)..<unat (e - r)]"
    using upt_add_eq_append[of 0 "unat (w - r)" "unat (e - r) - unat (w - r)"] assms by simp
  then show ?thesis unfolding ring_contents_def by (metis map_append)
qed

lemma contents_store:
  assumes "unat (w - r) \<le> unat (e - r)" and "unat (e - r) < INPUT_BUF_SIZE"
  shows "ring_contents INPUT_BUF_SIZE (buf(ring_at e := c)) r w = ring_contents INPUT_BUF_SIZE buf r w"
proof -
  let ?n = "unat (e - r)"
  have e: "e = r + of_nat ?n" by simp
  have "unat (r + of_nat k) mod INPUT_BUF_SIZE \<noteq> ring_at e" if "k < unat (w - r)" for k
    using cons_ring.index_inj[of k ?n r] that assms by (auto simp: ring_at_def)
  then show ?thesis by (simp add: ring_contents_def)
qed

lemma grows_store:
  fixes s :: "'z consst_scheme" and c :: u8
  assumes "cons_ok s" and "unat (cons_e s - cons_r s) < INPUT_BUF_SIZE"
  defines "t \<equiv> s\<lparr>cons_buf := (cons_buf s)(ring_at (cons_e s) := c), cons_e := cons_e s + 1\<rparr>"
  shows "grows s t" and "grows s (t\<lparr>cons_w := cons_e t\<rparr>)"
proof -
  let ?r = "cons_r s" and ?e = "cons_e s" and ?w = "cons_w s" and ?b = "(cons_buf s)(ring_at (cons_e s) := c)"
  have we: "unat (?w - ?r) \<le> unat (?e - ?r)" using assms(1) by (simp add: cons_ok_def)
  have "?e + 1 - ?r = (?e - ?r) + 1" by simp
  moreover have "unat ((?e - ?r) + 1) = unat (?e - ?r) + 1"
    by (rule unat_Suc_32) (use assms(2) in \<open>simp add: INPUT_BUF_SIZE_def\<close>)
  ultimately have e1: "unat (?e + 1 - ?r) = unat (?e - ?r) + 1" by (simp only:)
  show "grows s t" using e1 we assms(2) contents_store[OF we assms(2), of "cons_buf s" c]
    by (simp add: t_def grows_def cons_ok_def cons_ready_def)
  have "ring_contents INPUT_BUF_SIZE ?b ?r (?e + 1) = ring_contents INPUT_BUF_SIZE (cons_buf s) ?r ?e @ [c]"
    unfolding ring_at_def by (rule cons_ring.put_contents) (use assms(2) in \<open>simp_all add: INPUT_BUF_SIZE_def\<close>)
  moreover obtain xs where "ring_contents INPUT_BUF_SIZE (cons_buf s) ?r ?e = ring_contents INPUT_BUF_SIZE (cons_buf s) ?r ?w @ xs"
    using contents_prefix[OF we] by blast
  ultimately show "grows s (t\<lparr>cons_w := cons_e t\<rparr>)" using e1 assms(2)
    by (simp add: t_def grows_def cons_ok_def cons_ready_def)
qed

lemma cons_store_grows:
  assumes "cons_store c s = Some s'" and "cons_ok s"
  shows "grows s s'"
proof (cases "c \<noteq> 0 \<and> unat (cons_e s - cons_r s) < INPUT_BUF_SIZE")
  case True
  define d where "d = (if c = 13 then 10 else c)"
  obtain t where t: "consputc d s = Some t"
    using assms(1) True by (auto simp: cons_store_def d_def Let_def bind_eq_Some_conv)
  let ?u = "t\<lparr>cons_buf := (cons_buf t)(ring_at (cons_e t) := word_of_int d), cons_e := cons_e t + 1\<rparr>"
  have more: "uartst.more t = uartst.more s" by (rule consputc_more[OF t])
  have st: "grows s t" by (rule grows_more[OF assms(2) more])
  have "unat (cons_e t - cons_r t) < INPUT_BUF_SIZE" using True cons_fields[OF more] by simp
  note gs = grows_store[OF _ this, of "word_of_int d"]
  have ok: "cons_ok t" using st by (simp add: grows_def)
  have "s' = ?u \<or> wakeup (Some ChanConsR) (?u\<lparr>cons_w := cons_e ?u\<rparr>) = Some s'"
    using assms(1) True t by (auto simp: cons_store_def d_def[symmetric] Let_def split: if_splits)
  then show ?thesis
  proof
    assume "s' = ?u"
    then show ?thesis using grows_trans[OF st gs(1)[OF ok]] by simp
  next
    assume "wakeup (Some ChanConsR) (?u\<lparr>cons_w := cons_e ?u\<rparr>) = Some s'"
    then have m: "uartst.more s' = uartst.more (?u\<lparr>cons_w := cons_e ?u\<rparr>)" unfolding wakeup_def by (rule wakeup_cons)
    have g: "grows s (?u\<lparr>cons_w := cons_e ?u\<rparr>)" by (rule grows_trans[OF st gs(2)[OF ok]])
    then have "cons_ok (?u\<lparr>cons_w := cons_e ?u\<rparr>)" by (simp add: grows_def)
    from grows_trans[OF g grows_more[OF this m]] show ?thesis .
  qed
qed (use assms in \<open>auto simp: cons_store_def intro: grows_more\<close>)

lemma kill_line_grows:
  assumes "kill_line s = Some s'" and "cons_ok s"
  shows "grows s s'"
proof -
  have "cons_ok s \<longrightarrow> grows s s'"
  proof (rule kill_line.raw_induct[OF _ assms(1), where P = "\<lambda>s s'. cons_ok s \<longrightarrow> grows s s'"], goal_cases)
    case (1 loop s s')
    show ?case
    proof (cases "cons_e s \<noteq> cons_w s \<and> cons_buf s (ring_at (cons_e s - 1)) \<noteq> 10")
      case True
      then obtain t where t: "consputc BACKSPACE (s\<lparr>cons_e := cons_e s - 1\<rparr>) = Some t" "loop t = Some s'"
        using 1(2) by (auto simp: bind_eq_Some_conv)
      show ?thesis
      proof
        assume ok: "cons_ok s"
        have e: "grows s (s\<lparr>cons_e := cons_e s - 1\<rparr>)" by (rule grows_erase[OF ok]) (use True in simp)
        then have "grows (s\<lparr>cons_e := cons_e s - 1\<rparr>) t" using grows_more[OF _ consputc_more[OF t(1)]] by (simp add: grows_def)
        then have st: "grows s t" by (rule grows_trans[OF e])
        then show "grows s s'" using 1(1)[OF t(2)] grows_trans[OF st] by (simp add: grows_def)
      qed
    qed (use 1(2) in \<open>auto intro: grows_more\<close>)
  qed
  then show ?thesis using assms(2) by blast
qed

lemma consoleintr_grows:
  assumes "consoleintr c s = Some s'" and "cons_ok s"
  shows "grows s s'"
proof -
  from assms(1) obtain t u where t: "acquire ConsLock s = Some t" and u: "release ConsLock u = Some s'" and
    body: "procdump t = Some u \<or> kill_line t = Some u \<or> cons_store c t = Some u \<or> u = t
      \<or> (cons_e t \<noteq> cons_w t \<and> consputc BACKSPACE (t\<lparr>cons_e := cons_e t - 1\<rparr>) = Some u)"
    by (auto simp: consoleintr_def bind_eq_Some_conv split: if_splits)
  have st: "grows s t" by (rule grows_more[OF assms(2) lock_more(1)[OF t]])
  then have ok: "cons_ok t" by (simp add: grows_def)
  have er: "grows t u" if "cons_e t \<noteq> cons_w t" "consputc BACKSPACE (t\<lparr>cons_e := cons_e t - 1\<rparr>) = Some u"
  proof -
    have e: "grows t (t\<lparr>cons_e := cons_e t - 1\<rparr>)" by (rule grows_erase[OF ok that(1)])
    then have "cons_ok (t\<lparr>cons_e := cons_e t - 1\<rparr>)" by (simp add: grows_def)
    from grows_trans[OF e grows_more[OF this consputc_more[OF that(2)]]] show ?thesis .
  qed
  have tu: "grows t u"
    using body er kill_line_grows[OF _ ok] cons_store_grows[OF _ ok] grows_more[OF ok procdump_more] grows_more[OF ok, of u] by blast
  then have "cons_ok u" by (simp add: grows_def)
  from grows_trans[OF st grows_trans[OF tu grows_more[OF this lock_more(2)[OF u]]]] show ?thesis .
qed

text \<open>Reading: one byte taken.\<close>

lemma cons_ok_get:
  assumes "cons_ok s" and "cons_r s \<noteq> cons_w s"
  shows "cons_ok (s\<lparr>cons_r := cons_r s + 1\<rparr>)"
proof -
  let ?w = "cons_w s - cons_r s" and ?e = "cons_e s - cons_r s"
  have le: "unat ?w \<le> unat ?e" "unat ?e \<le> INPUT_BUF_SIZE" using assms(1) by (simp_all add: cons_ok_def)
  have nw: "?w \<noteq> 0" using assms(2) by simp
  then have "0 < unat ?w" by (simp add: unat_gt_0)
  then have ne: "?e \<noteq> 0" using le(1) by auto
  have "cons_w s - (cons_r s + 1) = ?w - 1" "cons_e s - (cons_r s + 1) = ?e - 1" by (simp_all add: diff_diff_eq)
  then have "unat (cons_w s - (cons_r s + 1)) = unat ?w - 1" "unat (cons_e s - (cons_r s + 1)) = unat ?e - 1"
    using unat_minus_one[OF nw] unat_minus_one[OF ne] by (simp_all only:)
  then have "unat (cons_w s - (cons_r s + 1)) \<le> unat (cons_e s - (cons_r s + 1)) \<and> unat (cons_e s - (cons_r s + 1)) \<le> INPUT_BUF_SIZE"
    using le by linarith
  then show ?thesis by (simp add: cons_ok_def)
qed

lemma consoleread_loop_ok:
  "consoleread_loop target dst n s = Some (r, s') \<Longrightarrow> cons_ok s \<Longrightarrow> cons_ok s'"
proof (induction "nat n" arbitrary: dst n s rule: less_induct)
  case less
  have rel: "cons_ok u" if "release ConsLock t = Some u" "cons_ok t" for t u
    using cons_ok_more[OF lock_more(2)[OF that(1)]] that(2) by simp
  consider (stop) "n \<le> 0" | (empty) "n > 0" "cons_r s = cons_w s" | (byte) "n > 0" "cons_r s \<noteq> cons_w s" by linarith
  then show ?case
  proof cases
    case stop
    then show ?thesis using less.prems rel by (subst (asm) consoleread_loop.simps) (auto simp: bind_eq_Some_conv)
  next
    case empty
    have m: "uartst.more s' = uartst.more s"
      using less.prems(1) empty
      by (subst (asm) consoleread_loop.simps)
        (auto simp: bind_eq_Some_conv split: if_splits option.splits dest!: lock_more sleep_more)
    then show ?thesis using cons_ok_more less.prems(2) by blast
  next
    case byte
    let ?t = "s\<lparr>cons_r := cons_r s + 1\<rparr>" and ?c = "cons_buf s (ring_at (cons_r s))"
    have ok: "cons_ok ?t" by (rule cons_ok_get[OF less.prems(2) byte(2)])
    show ?thesis
    proof (cases "uint ?c = ctrl CHR ''D''")
      case True
      have "s\<lparr>cons_r := cons_r s\<rparr> = s" by simp
      then show ?thesis using less.prems byte True rel ok
        by (subst (asm) consoleread_loop.simps) (auto simp: Let_def bind_eq_Some_conv split: if_splits)
    next
      case False
      obtain k u where k: "either_copyout dst [?c] ?t = Some (k, u)"
        using less.prems(1) byte False by (subst (asm) consoleread_loop.simps) (auto simp: Let_def bind_eq_Some_conv)
      have oku: "cons_ok u" using cons_ok_more[OF either_copyout_more[OF k]] ok by simp
      have "nat (n - 1) < nat n" using byte(1) by simp
      note IH = less.hyps[OF this _ oku]
      have "release ConsLock u = Some s' \<or> consoleread_loop target (cdst_add dst 1) (n - 1) u = Some (r, s')"
        using less.prems(1) byte False k
        by (subst (asm) consoleread_loop.simps) (auto simp: Let_def bind_eq_Some_conv split: if_splits)
      then show ?thesis using rel[OF _ oku] IH by blast
    qed
  qed
qed

section \<open>Every history of the console\<close>

text \<open>
  The operations on the ring in any order: an input interrupt, a read up to its return or its wait,
  a read that continues after a wait, and whatever leaves the fields of the console alone.
\<close>

inductive cons_step :: "'z consst_scheme \<Rightarrow> 'z consst_scheme \<Rightarrow> bool" where
  intr: "consoleintr c s = Some s' \<Longrightarrow> cons_step s s'"
| read: "consoleread_start dst n s = Some (r, s') \<Longrightarrow> cons_step s s'"
| resume: "consoleread_resume p target dst n ie s = Some (r, s') \<Longrightarrow> cons_step s s'"
| other: "uartst.more s' = uartst.more s \<Longrightarrow> cons_step s s'"

lemma cons_step_ok: "cons_step s s' \<Longrightarrow> cons_ok s \<Longrightarrow> cons_ok s'"
proof (induction rule: cons_step.induct)
  case (intr c s s')
  then show ?case using consoleintr_grows by (auto simp: grows_def)
next
  case (read dst n s r s')
  then obtain t where t: "acquire ConsLock s = Some t" "consoleread_loop n dst n t = Some (r, s')"
    by (auto simp: consoleread_start_def bind_eq_Some_conv)
  have "cons_ok t" using cons_ok_more[OF lock_more(1)[OF t(1)]] read.prems by simp
  then show ?case by (rule consoleread_loop_ok[OF t(2)])
next
  case (resume p target dst n ie s r s')
  then obtain t where t: "sleep_in p ConsLock ie s = Some t" "consoleread_loop target dst n t = Some (r, s')"
    by (auto simp: consoleread_resume_def bind_eq_Some_conv)
  have "cons_ok t" using cons_ok_more[OF sleep_more(3)[OF t(1)]] resume.prems by simp
  then show ?case by (rule consoleread_loop_ok[OF t(2)])
next
  case (other s' s)
  then show ?case using cons_ok_more[of s' s] by simp
qed

lemma cons_steps_ok: "cons_step\<^sup>*\<^sup>* s s' \<Longrightarrow> cons_ok s \<Longrightarrow> cons_ok s'"
  by (induction rule: rtranclp_induct) (auto dest: cons_step_ok)

text \<open>
  C13. The console ring is always well formed. In every history of interrupts, reads and waits that
  starts from a well-formed ring, the indices stay in the order read, write, edit and at most 128
  apart, also when the 32-bit counters wrap. In each such state an input interrupt, whatever the
  character, leaves the input that is ready for readers in place and at most adds to it.
\<close>

theorem console_ring_wf:
  assumes "cons_step\<^sup>*\<^sup>* s s'" and "cons_ok s"
  shows "unat (cons_w s' - cons_r s') \<le> unat (cons_e s' - cons_r s') \<and> unat (cons_e s' - cons_r s') \<le> 128
    \<and> (\<forall>c t. consoleintr c s' = Some t \<longrightarrow> (\<exists>xs. cons_ready t = cons_ready s' @ xs))"
proof -
  have ok: "cons_ok s'" by (rule cons_steps_ok[OF assms])
  then show ?thesis using consoleintr_grows[OF _ ok] by (auto simp: cons_ok_def grows_def INPUT_BUF_SIZE_def)
qed

lemma kex_types_a: "\<exists>t. consoleintr 97 kex = Some t"
  by (simp add: consoleintr_def cons_store_def consputc_def BACKSPACE_def uartputc_sync_def write_thr_def ctrl_def acquire_def
      release_def acquire_lk_def release_lk_def push_off_def pop_off_def holding_def kex_def idle_lk_def cpu_defs
      INPUT_BUF_SIZE_def Let_def)

theorem console_ring_wf_witness:
  "\<exists>t. consoleintr 97 kex = Some t \<and> unat (cons_w t - cons_r t) \<le> unat (cons_e t - cons_r t)
    \<and> unat (cons_e t - cons_r t) \<le> 128"
proof -
  obtain t where t: "consoleintr 97 kex = Some t" using kex_types_a by blast
  then have "cons_step\<^sup>*\<^sup>* kex t" by (intro r_into_rtranclp cons_step.intr)
  moreover have "cons_ok kex" by (simp add: cons_ok_def kex_simps)
  ultimately show ?thesis using t console_ring_wf[of kex t] by simp
qed

end
