(* ===== verification/Sched.thy ===== *)
theory Sched
  imports Sysproc
begin

text \<open>
  The scheduler as a step relation on all harts, built from the operations of
  \<^verbatim>\<open>kernel/proc.c\<close> that change \<^verbatim>\<open>p->state\<close> or \<^verbatim>\<open>c->proc\<close>: dispatching, \<^verbatim>\<open>yield\<close>,
  \<^verbatim>\<open>sleep\<close>, \<^verbatim>\<open>wakeup\<close>, \<^verbatim>\<open>kkill\<close>, allocation, start, exit and reaping of a process, and the
  delivery of the signals of \<^verbatim>\<open>sys_sendsig\<close>. A step is one critical section: between the two
  halves of a context switch the lock of the process is held, so no other hart can act on it.

  \<open>sched_inv\<close> says a process is \<^verbatim>\<open>RUNNING\<close> exactly when one hart has it as its current
  process. Every step keeps it except the delivery of signal 2, and with signals 2 and 3 a state
  with one process on two harts is reachable.
\<close>

section \<open>Steps\<close>

definition on_hart :: "nat \<Rightarrow> 'z kernel_scheme \<Rightarrow> 'z kernel_scheme" where
  "on_hart h s = s\<lparr>lk := (lk s)\<lparr>tp := h\<rparr>\<rparr>"

definition running_on :: "nat \<Rightarrow> 'z kernel_scheme \<Rightarrow> nat option" where
  "running_on h s = cproc (cpus (lk s) h)"

text \<open>\<open>set_state\<close>: a critical section of the process lock that assigns \<^verbatim>\<open>p->state\<close>.\<close>

definition set_state :: "nat \<Rightarrow> procstate \<Rightarrow> 'z ptable_scheme \<Rightarrow> 'z ptable_scheme option" where
  "set_state p st s = do {
     s \<leftarrow> acquire (ProcLock p) s;
     let s = upd_proc p (\<lambda>x. x\<lparr>pstate := st\<rparr>) s;
     release (ProcLock p) s
   }"

definition exit_out :: "nat \<Rightarrow> 'z ptable_scheme \<Rightarrow> (bool \<times> 'z ptable_scheme) option" where
  "exit_out p s = do {
     s \<leftarrow> acquire (ProcLock p) s;
     let s = upd_proc p (\<lambda>x. x\<lparr>pstate := ZOMBIE\<rparr>) s;
     sched_out s
   }"

inductive sched_step :: "int set \<Rightarrow> ptable \<Rightarrow> ptable \<Rightarrow> bool" for sigs where
  dispatch: "running_on h s = None \<Longrightarrow> dispatch p (on_hart h s) = Some (True, s1) \<Longrightarrow>
     yield_in p ie s1 = Some s' \<Longrightarrow> sched_step sigs s s'"
| pass: "running_on h s = None \<Longrightarrow> dispatch p (on_hart h s) = Some (False, s') \<Longrightarrow> sched_step sigs s s'"
| yield: "running_on h s = Some p \<Longrightarrow> yield_out (on_hart h s) = Some (ie, s1) \<Longrightarrow>
     reschedule p s1 = Some s' \<Longrightarrow> sched_step sigs s s'"
| sleep: "running_on h s = Some p \<Longrightarrow> \<forall>q. l \<noteq> ProcLock q \<Longrightarrow> acquire l (on_hart h s) = Some s0 \<Longrightarrow>
     sleep_out c l s0 = Some (ie, s1) \<Longrightarrow> reschedule p s1 = Some s' \<Longrightarrow> sched_step sigs s s'"
| exit: "running_on h s = Some p \<Longrightarrow> exit_out p (on_hart h s) = Some (ie, s1) \<Longrightarrow>
     reschedule p s1 = Some s' \<Longrightarrow> sched_step sigs s s'"
| alloc: "pstate (procs s p) = UNUSED \<Longrightarrow> set_state p USED (on_hart h s) = Some s' \<Longrightarrow> sched_step sigs s s'"
| start: "pstate (procs s p) = USED \<Longrightarrow> set_state p RUNNABLE (on_hart h s) = Some s' \<Longrightarrow> sched_step sigs s s'"
| reap: "pstate (procs s p) = ZOMBIE \<Longrightarrow> set_state p UNUSED (on_hart h s) = Some s' \<Longrightarrow> sched_step sigs s s'"
| wakeup: "wakeup c (on_hart h s) = Some s' \<Longrightarrow> sched_step sigs s s'"
| kill: "kkill k (on_hart h s) = Some (r, s') \<Longrightarrow> sched_step sigs s s'"
| signal: "signum \<in> sigs \<Longrightarrow> sendsig_from i signum [0..<NPROC] (on_hart h s) = Some (v, s') \<Longrightarrow>
     sched_step sigs s s'"

inductive sched_reach :: "int set \<Rightarrow> ptable \<Rightarrow> ptable \<Rightarrow> bool" for sigs s where
  here: "sched_reach sigs s s"
| step: "sched_reach sigs s t \<Longrightarrow> sched_step sigs t u \<Longrightarrow> sched_reach sigs s u"

section \<open>Between steps\<close>

definition calm :: "'z kernel_scheme \<Rightarrow> bool" where
  "calm s \<longleftrightarrow> (\<forall>h. noff (cpus (lk s) h) = 0) \<and> (\<forall>l. lock_free l (lk s))"

lemma calm_on_hart [simp]: "calm (on_hart h s) = calm s"
  by (simp add: calm_def on_hart_def lock_free_def)

lemma on_hart_simps [simp]:
  "procs (on_hart h s) = procs s" "running_on g (on_hart h s) = running_on g s"
  "cproc (mycpu (lk (on_hart h s))) = running_on h s" "tp (lk (on_hart h s)) = h"
  by (simp_all add: on_hart_def running_on_def cpu_defs)

lemma calm_free: "calm s \<Longrightarrow> lock_free l (lk s)" "calm s \<Longrightarrow> hart_ok (lk s)" "calm s \<Longrightarrow> noff (mycpu (lk s)) = 0"
  by (simp_all add: calm_def hart_ok_def cpu_defs)

lemma calm_plocks: "calm s \<Longrightarrow> plocks_free s"
  by (simp add: plocks_free_def calm_free)

text \<open>The settled state has the same locks, nesting and current processes.\<close>

lemma running_on_settle [simp]: "running_on g (s\<lparr>lk := settle L\<rparr>) = running_on g (s\<lparr>lk := L\<rparr>)"
  by (simp add: running_on_def)

lemma noff_settle [simp]: "noff (cpus (settle L) h) = noff (cpus L h)"
  by (simp add: settle_def cpu_defs)

lemma calm_settle [simp]: "calm (s\<lparr>lk := settle L\<rparr>) = calm (s\<lparr>lk := L\<rparr>)"
  by (simp add: calm_def)

lemma running_on_upd [simp]: "running_on g (upd_proc p f s) = running_on g s"
  by (simp add: running_on_def)

lemma calm_upd [simp]: "calm (upd_proc p f s) = calm s"
  by (simp add: calm_def)

lemma lk_self [simp]: "s\<lparr>lk := lk s\<rparr> = s"
  by simp

section \<open>What each step does\<close>

text \<open>
  \<open>taken_release\<close>: leaving the critical section of the process lock that was entered on hart
  \<open>h\<close>, with the current process and the saved interrupt flag replaced meanwhile.
\<close>

lemma leave_section:
  assumes "calm s" and "lk t = taken (ProcLock p) (lk (on_hart h s))"
  shows "\<exists>u. release (ProcLock p) (set_intena ie (set_cproc c t)) = Some u \<and> procs u = procs t \<and> calm u
    \<and> (\<forall>g. running_on g u = (if g = h then c else running_on g s))"
  and "\<exists>u. release (ProcLock p) (set_cproc c t) = Some u \<and> procs u = procs t \<and> calm u
    \<and> (\<forall>g. running_on g u = (if g = h then c else running_on g s))"
  using assms
  by (auto simp: release_def release_lk_def set_intena_def set_cproc_def taken_def push_off_def pop_off_def holding_def
      cpu_defs Let_def on_hart_def calm_def lock_free_def running_on_def)

text \<open>\<open>moves h c p x s s'\<close>: hart \<open>h\<close> now runs \<open>c\<close> and the entry of \<open>p\<close> is \<open>x\<close>.\<close>

definition moves :: "nat \<Rightarrow> nat option \<Rightarrow> nat \<Rightarrow> proc \<Rightarrow> ptable \<Rightarrow> ptable \<Rightarrow> bool" where
  "moves h c p x s s' \<longleftrightarrow> procs s' = (procs s)(p := x) \<and> calm s'
     \<and> (\<forall>g. running_on g s' = (if g = h then c else running_on g s))"

lemma dispatch_moves:
  fixes s :: ptable
  assumes "calm s" and "pstate (procs s p) = RUNNABLE"
  shows "\<exists>s1 s'. dispatch p (on_hart h s) = Some (True, s1) \<and> yield_in p ie s1 = Some s'
    \<and> moves h (Some p) p ((procs s p)\<lparr>pstate := RUNNING\<rparr>) s s'"
proof -
  let ?t = "upd_proc p (\<lambda>x. x\<lparr>pstate := RUNNING\<rparr>) ((on_hart h s)\<lparr>lk := taken (ProcLock p) (lk (on_hart h s))\<rparr>)"
  have "dispatch p (on_hart h s) = Some (True, set_cproc (Some p) ?t)"
    using assms calm_free[of "on_hart h s"] by (simp add: dispatch_def lock_simps Let_def)
  moreover obtain u where "release (ProcLock p) (set_intena ie (set_cproc (Some p) ?t)) = Some u" "procs u = procs ?t"
    "calm u" "\<forall>g. running_on g u = (if g = h then Some p else running_on g s)"
    using leave_section(1)[OF assms(1), of ?t p h ie "Some p"] by auto
  ultimately show ?thesis by (auto simp: yield_in_def sched_in_def moves_def)
qed

lemma dispatch_cases:
  fixes s :: ptable
  assumes "calm s"
  shows "pstate (procs s p) \<noteq> RUNNABLE \<Longrightarrow> dispatch p (on_hart h s) = Some (False, (on_hart h s)\<lparr>lk := settle (lk (on_hart h s))\<rparr>)"
    and "dispatch p (on_hart h s) = Some (True, s1) \<Longrightarrow> pstate (procs s p) = RUNNABLE"
    and "dispatch p (on_hart h s) = Some (False, s1) \<Longrightarrow> s1 = (on_hart h s)\<lparr>lk := settle (lk (on_hart h s))\<rparr>"
  using assms calm_free[of "on_hart h s"] by (auto simp: dispatch_def lock_simps Let_def split: if_splits)

lemma reschedule_moves:
  fixes s :: ptable
  assumes "calm s" and "lk t = taken (ProcLock p) (lk (on_hart h s))" and "procs t = (procs s)(p := x)"
  shows "\<exists>s'. reschedule p t = Some s' \<and> moves h None p x s s'"
  using leave_section(2)[OF assms(1,2), of None] assms(3) by (auto simp: reschedule_def moves_def)

lemma yield_moves:
  fixes s :: ptable
  assumes "calm s" and "running_on h s = Some p"
  shows "\<exists>ie s1 s'. yield_out (on_hart h s) = Some (ie, s1) \<and> reschedule p s1 = Some s'
    \<and> moves h None p ((procs s p)\<lparr>pstate := RUNNABLE\<rparr>) s s'"
proof -
  let ?t = "upd_proc p (\<lambda>x. x\<lparr>pstate := RUNNABLE\<rparr>) ((on_hart h s)\<lparr>lk := taken (ProcLock p) (lk (on_hart h s))\<rparr>)"
  have "\<exists>ie. yield_out (on_hart h s) = Some (ie, ?t)"
    using assms calm_free[of "on_hart h s"] by (simp add: yield_out_def sched_out_def lock_simps Let_def upd_proc_def)
  moreover have "\<exists>s'. reschedule p ?t = Some s' \<and> moves h None p ((procs s p)\<lparr>pstate := RUNNABLE\<rparr>) s s'"
    by (rule reschedule_moves[OF assms(1)]) simp_all
  ultimately show ?thesis by blast
qed

lemma sleep_moves:
  fixes s :: ptable
  assumes "calm s" and "running_on h s = Some p" and "\<forall>q. l \<noteq> ProcLock q"
  shows "\<exists>s0 ie s1 s'. acquire l (on_hart h s) = Some s0 \<and> sleep_out c l s0 = Some (ie, s1) \<and> reschedule p s1 = Some s'
    \<and> moves h None p ((procs s p)\<lparr>pchan := c, pstate := SLEEPING\<rparr>) s s'"
proof -
  let ?s0 = "(on_hart h s)\<lparr>lk := taken l (lk (on_hart h s))\<rparr>"
  let ?t = "upd_proc p (\<lambda>x. x\<lparr>pchan := c, pstate := SLEEPING\<rparr>) (?s0\<lparr>lk := taken (ProcLock p) (lk (on_hart h s))\<rparr>)"
  note f = calm_free[of "on_hart h s"]
  have "acquire l (on_hart h s) = Some ?s0" using assms f by (simp add: lock_simps)
  moreover have "sleep_out c l ?s0 = Some (intr_get (lk (on_hart h s)), ?t)"
    by (rule sleep_out_eq) (use assms f in simp_all)
  moreover have "\<exists>s'. reschedule p ?t = Some s' \<and> moves h None p ((procs s p)\<lparr>pchan := c, pstate := SLEEPING\<rparr>) s s'"
    by (rule reschedule_moves[OF assms(1)]) simp_all
  ultimately show ?thesis by blast
qed

lemma exit_moves:
  fixes s :: ptable
  assumes "calm s" and "running_on h s = Some p"
  shows "\<exists>ie s1 s'. exit_out p (on_hart h s) = Some (ie, s1) \<and> reschedule p s1 = Some s'
    \<and> moves h None p ((procs s p)\<lparr>pstate := ZOMBIE\<rparr>) s s'"
proof -
  let ?t = "upd_proc p (\<lambda>x. x\<lparr>pstate := ZOMBIE\<rparr>) ((on_hart h s)\<lparr>lk := taken (ProcLock p) (lk (on_hart h s))\<rparr>)"
  have "\<exists>ie. exit_out p (on_hart h s) = Some (ie, ?t)"
    using assms calm_free[of "on_hart h s"] by (simp add: exit_out_def sched_out_def lock_simps Let_def upd_proc_def)
  moreover have "\<exists>s'. reschedule p ?t = Some s' \<and> moves h None p ((procs s p)\<lparr>pstate := ZOMBIE\<rparr>) s s'"
    by (rule reschedule_moves[OF assms(1)]) simp_all
  ultimately show ?thesis by blast
qed

text \<open>\<open>edits s s'\<close>: a step that leaves every hart with the process it had.\<close>

definition edits :: "ptable \<Rightarrow> ptable \<Rightarrow> bool" where
  "edits s s' \<longleftrightarrow> calm s' \<and> (\<forall>g. running_on g s' = running_on g s)"

lemma edits_settled:
  "calm s \<Longrightarrow> edits s ((on_hart h s)\<lparr>lk := settle (lk (on_hart h s)), procs := ps\<rparr>)"
  "calm s \<Longrightarrow> edits s ((on_hart h s)\<lparr>lk := settle (lk (on_hart h s))\<rparr>)"
  "calm s \<Longrightarrow> edits s (upd_proc p f ((on_hart h s)\<lparr>lk := settle (lk (on_hart h s))\<rparr>))"
  using calm_on_hart[of h s] by (auto simp: edits_def calm_def running_on_def on_hart_def)

lemma sendsig_from_eq:
  assumes "hart_ok (lk s)" and "\<And>p. p \<in> set xs \<Longrightarrow> lock_free (ProcLock p) (lk s)" and "xs \<noteq> []"
  shows "sendsig_from i signum xs s =
    (case find (\<lambda>p. pid (procs s p) = i \<and> pstate (procs s p) \<noteq> UNUSED) xs of
       None \<Rightarrow> Some (-1, s\<lparr>lk := settle (lk s)\<rparr>)
     | Some p \<Rightarrow> Some (0, upd_proc p (signal signum) (s\<lparr>lk := settle (lk s)\<rparr>)))"
  using assms
proof (induction xs arbitrary: s)
  case (Cons p ps)
  then have free: "lock_free (ProcLock p) (lk s)" by simp
  show ?case
  proof (cases "pid (procs s p) = i \<and> pstate (procs s p) \<noteq> UNUSED")
    case True
    then show ?thesis using Cons.prems(1) free by (simp add: lock_simps Let_def)
  next
    case False
    then have "sendsig_from i signum (p # ps) s = sendsig_from i signum ps (s\<lparr>lk := settle (lk s)\<rparr>)"
      using Cons.prems(1) free by (auto simp: lock_simps Let_def)
    then show ?thesis
      using Cons.prems False Cons.IH[of "s\<lparr>lk := settle (lk s)\<rparr>"]
      by (cases "ps = []") (auto split: option.split)
  qed
qed simp

lemma sendsig_eq:
  assumes "calm s"
  shows "sendsig_from i signum [0..<NPROC] s =
    (case find (\<lambda>p. pid (procs s p) = i \<and> pstate (procs s p) \<noteq> UNUSED) [0..<NPROC] of
       None \<Rightarrow> Some (-1, s\<lparr>lk := settle (lk s)\<rparr>)
     | Some p \<Rightarrow> Some (0, upd_proc p (signal signum) (s\<lparr>lk := settle (lk s)\<rparr>)))"
  by (rule sendsig_from_eq) (use assms in \<open>auto simp: calm_free NPROC_def\<close>)

lemma set_state_eq:
  assumes "calm s"
  shows "set_state p st s = Some (upd_proc p (\<lambda>x. x\<lparr>pstate := st\<rparr>) (s\<lparr>lk := settle (lk s)\<rparr>))"
  using calm_free[OF assms] by (simp add: set_state_def lock_simps Let_def)

lemma signal_RUNNING: "signum \<noteq> 2 \<Longrightarrow> pstate (signal signum x) = RUNNING \<longleftrightarrow> pstate x = RUNNING"
  by (simp add: signal_def Let_def)

section \<open>Exclusive execution\<close>

definition sched_inv :: "ptable \<Rightarrow> bool" where
  "sched_inv s \<longleftrightarrow> calm s
     \<and> (\<forall>p. pstate (procs s p) = RUNNING \<longleftrightarrow> (\<exists>h. running_on h s = Some p))
     \<and> (\<forall>g h p. running_on g s = Some p \<longrightarrow> running_on h s = Some p \<longrightarrow> g = h)"

lemma sched_inv_in:
  assumes "sched_inv s" and "running_on h s = None" and "pstate (procs s p) \<noteq> RUNNING"
    and "moves h (Some p) p x s s'" and "pstate x = RUNNING"
  shows "sched_inv s'"
proof -
  have new: "running_on g s' = (if g = h then Some p else running_on g s)" for g
    using assms(4) by (simp add: moves_def)
  have off: "running_on g s \<noteq> Some p" for g using assms(1,3) by (auto simp: sched_inv_def)
  have run: "pstate (procs s q) = RUNNING \<longleftrightarrow> (\<exists>g. running_on g s = Some q)"
    and uniq: "running_on g s = Some q \<Longrightarrow> running_on k s = Some q \<Longrightarrow> g = k" for q g k
    using assms(1) unfolding sched_inv_def by blast+
  have "pstate (procs s' q) = RUNNING \<longleftrightarrow> (\<exists>g. running_on g s' = Some q)" for q
  proof (cases "q = p")
    case False
    then have "running_on g s' = Some q \<longleftrightarrow> running_on g s = Some q" for g using assms(2) new[of g] by auto
    then show ?thesis using False run assms(4) by (simp add: moves_def)
  qed (use assms(4,5) new in \<open>auto simp: moves_def\<close>)
  moreover have "g = k" if "running_on g s' = Some q" "running_on k s' = Some q" for g k q
    using that uniq off by (auto simp: new split: if_splits)
  ultimately show ?thesis using assms(4) unfolding sched_inv_def moves_def by blast
qed

lemma sched_inv_out:
  assumes "sched_inv s" and "running_on h s = Some p" and "moves h None p x s s'" and "pstate x \<noteq> RUNNING"
  shows "sched_inv s'"
proof -
  have new: "running_on g s' = (if g = h then None else running_on g s)" for g
    using assms(3) by (simp add: moves_def)
  have run: "pstate (procs s q) = RUNNING \<longleftrightarrow> (\<exists>g. running_on g s = Some q)"
    and uniq: "running_on g s = Some q \<Longrightarrow> running_on k s = Some q \<Longrightarrow> g = k" for q g k
    using assms(1) unfolding sched_inv_def by blast+
  have "pstate (procs s' q) = RUNNING \<longleftrightarrow> (\<exists>g. running_on g s' = Some q)" for q
  proof (cases "q = p")
    case True
    have "running_on g s' \<noteq> Some p" for g using uniq[OF _ assms(2)] new by auto
    then show ?thesis using True assms(3,4) by (simp add: moves_def)
  next
    case False
    then have "running_on g s' = Some q \<longleftrightarrow> running_on g s = Some q" for g using assms(2) new[of g] by auto
    then show ?thesis using False run assms(3) by (simp add: moves_def)
  qed
  moreover have "g = k" if "running_on g s' = Some q" "running_on k s' = Some q" for g k q
    using that uniq by (auto simp: new split: if_splits)
  ultimately show ?thesis using assms(3) unfolding sched_inv_def moves_def by blast
qed

lemma sched_inv_edit:
  assumes "sched_inv s" and "edits s s'"
    and "\<And>p. pstate (procs s' p) = RUNNING \<longleftrightarrow> pstate (procs s p) = RUNNING"
  shows "sched_inv s'"
  using assms by (auto simp: sched_inv_def edits_def)

lemma set_state_inv:
  assumes "sched_inv s" and "pstate (procs s p) \<noteq> RUNNING" and "st \<noteq> RUNNING"
    and "set_state p st (on_hart h s) = Some s'"
  shows "sched_inv s'"
proof -
  have calm: "calm s" using assms(1) by (simp add: sched_inv_def)
  then have s': "s' = upd_proc p (\<lambda>x. x\<lparr>pstate := st\<rparr>) ((on_hart h s)\<lparr>lk := settle (lk (on_hart h s))\<rparr>)"
    using assms(4) set_state_eq[of "on_hart h s" p st] by simp
  show ?thesis
    using s' edits_settled(3)[OF calm] assms(2,3) by (intro sched_inv_edit[OF assms(1)]) (auto split: if_splits)
qed

lemma sched_step_inv:
  assumes "sched_step sigs s s'" and inv: "sched_inv s" and sigs: "2 \<notin> sigs"
  shows "sched_inv s'"
proof -
  have calm: "calm s" using inv by (simp add: sched_inv_def)
  show ?thesis
    using assms(1)
  proof cases
    case (dispatch h p s1 ie)
    then have "pstate (procs s p) = RUNNABLE" using dispatch_cases(2)[OF calm] by blast
    then show ?thesis using dispatch dispatch_moves[OF calm, of p h ie] sched_inv_in[OF inv, of h p] by auto
  next
    case (pass h p)
    then have "s' = (on_hart h s)\<lparr>lk := settle (lk (on_hart h s))\<rparr>" using dispatch_cases(3)[OF calm] by blast
    then show ?thesis using edits_settled(2)[OF calm] by (intro sched_inv_edit[OF inv]) auto
  next
    case (yield h p ie s1)
    then show ?thesis using yield_moves[OF calm, of h p] sched_inv_out[OF inv, of h p] by auto
  next
    case (sleep h p l s0 c ie s1)
    then show ?thesis using sleep_moves[OF calm, of h p l c] sched_inv_out[OF inv, of h p] by auto
  next
    case (exit h p ie s1)
    then show ?thesis using exit_moves[OF calm, of h p] sched_inv_out[OF inv, of h p] by auto
  next
    case (alloc p h)
    show ?thesis by (rule set_state_inv[OF inv _ _ alloc(2)]) (simp_all add: alloc(1))
  next
    case (start p h)
    show ?thesis by (rule set_state_inv[OF inv _ _ start(2)]) (simp_all add: start(1))
  next
    case (reap p h)
    show ?thesis by (rule set_state_inv[OF inv _ _ reap(2)]) (simp_all add: reap(1))
  next
    case (wakeup c h)
    then show ?thesis using wakeup_eq[of "on_hart h s" c] calm calm_free[of "on_hart h s"] edits_settled(1)[OF calm]
      by (intro sched_inv_edit[OF inv]) (auto simp: woken_def split: if_splits)
  next
    case (kill k h r)
    then show ?thesis
      using kkill_eq[OF calm_plocks, of "on_hart h s" k] calm edits_settled(2,3)[OF calm]
      by (intro sched_inv_edit[OF inv]) (auto simp: kill_proc_def split: option.splits if_splits)
  next
    case (signal signum i h v)
    then have "signum \<noteq> 2" using sigs by auto
    then show ?thesis
      using signal sendsig_eq[of "on_hart h s" i signum] calm edits_settled(2,3)[OF calm]
      by (intro sched_inv_edit[OF inv]) (auto simp: signal_RUNNING split: option.splits if_splits)
  qed
qed

text \<open>
  C3. A process never runs on two processors. In every state reachable by dispatching, yielding,
  sleeping, exiting, starting, reaping, waking, killing and signalling on any number of harts, in
  any interleaving of critical sections, as long as signal 2 is never sent: a process is
  \<^verbatim>\<open>RUNNING\<close> exactly if some hart has it as its current process, and then exactly one hart has.
\<close>

theorem sched_exclusive:
  assumes "sched_reach sigs s t" and "sched_inv s" and "2 \<notin> sigs"
  shows "(pstate (procs t p) = RUNNING \<longleftrightarrow> (\<exists>h. running_on h t = Some p))
    \<and> (\<forall>g h. running_on g t = Some p \<longrightarrow> running_on h t = Some p \<longrightarrow> g = h)"
proof -
  have "sched_inv t" using assms by (induction rule: sched_reach.induct) (auto intro: sched_step_inv)
  then show ?thesis unfolding sched_inv_def by blast
qed

text \<open>Two processes ready to run, and every hart idle.\<close>

definition sched_ex :: ptable where
  "sched_ex = \<lparr>lk = idle_lk None, mem = (\<lambda>_. 0), freelist = 0, kend = 0,
     procs = (\<lambda>_. proc0)(0 := proc0\<lparr>pid := 1, pstate := RUNNABLE\<rparr>, 1 := proc0\<lparr>pid := 2, pstate := RUNNABLE\<rparr>),
     nextpid = 3, initproc = Some 0\<rparr>"

lemma sched_ex_inv: "sched_inv sched_ex"
  by (auto simp: sched_inv_def sched_ex_def calm_def idle_lk_def lock_free_def running_on_def proc0_def)

lemma reach_dispatch:
  assumes "sched_reach sigs s t" and "calm t" and "running_on h t = None" and "pstate (procs t p) = RUNNABLE"
  obtains u where "sched_reach sigs s u" "moves h (Some p) p ((procs t p)\<lparr>pstate := RUNNING\<rparr>) t u"
  using dispatch_moves[OF assms(2,4), of h] sched_reach.step[OF assms(1) sched_step.dispatch[OF assms(3)]] by metis

lemma reach_yield:
  assumes "sched_reach sigs s t" and "calm t" and "running_on h t = Some p"
  obtains u where "sched_reach sigs s u" "moves h None p ((procs t p)\<lparr>pstate := RUNNABLE\<rparr>) t u"
  using yield_moves[OF assms(2,3)] sched_reach.step[OF assms(1) sched_step.yield[OF assms(3)]] by metis

lemma reach_signal:
  assumes "sched_reach sigs s t" and "calm t" and "signum \<in> sigs"
    and "find (\<lambda>p. pid (procs t p) = i \<and> pstate (procs t p) \<noteq> UNUSED) [0..<NPROC] = Some p"
  obtains u where "sched_reach sigs s u" "procs u = (procs t)(p := signal signum (procs t p))" "edits t u"
proof -
  let ?u = "upd_proc p (signal signum) ((on_hart 1 t)\<lparr>lk := settle (lk (on_hart 1 t))\<rparr>)"
  have "sendsig_from i signum [0..<NPROC] (on_hart 1 t) = Some (0, ?u)"
    using sendsig_eq[of "on_hart 1 t" i signum] assms(2,4) by simp
  then have "sched_reach sigs s ?u" using sched_reach.step[OF assms(1) sched_step.signal[OF assms(3)]] by blast
  then show thesis using that[of ?u] edits_settled(3)[OF assms(2)] by simp
qed

theorem sched_exclusive_witness:
  "\<exists>t. sched_reach {1} sched_ex t \<and> running_on 0 t = Some 0 \<and> pstate (procs t 0) = RUNNING
     \<and> running_on 1 t \<noteq> Some 0"
proof -
  have start: "calm sched_ex" "running_on 0 sched_ex = None" "pstate (procs sched_ex 0) = RUNNABLE"
    using sched_ex_inv by (simp_all add: sched_inv_def sched_ex_def running_on_def idle_lk_def)
  obtain t where t: "sched_reach {1} sched_ex t" "running_on 0 t = Some 0"
    using reach_dispatch[OF sched_reach.here[of "{1}"] start] unfolding moves_def by metis
  show ?thesis
    using sched_exclusive[OF t(1) sched_ex_inv, of 0] t by (metis one_neq_zero singletonD numeral_eq_one_iff num.distinct(1))
qed

section \<open>Signals 2 and 3\<close>

lemma find_first: "P (0 :: nat) \<Longrightarrow> find P [0..<NPROC] = Some 0"
  by (simp add: NPROC_def upt_rec)

text \<open>
  C23. Stopping and continuing a running process breaks that exclusion. From two runnable
  processes and idle harts, dispatching both, sending signal 2 and then signal 3 to the first one
  while it runs, and letting the second hart reschedule, leads to a state in which two harts have
  the first process as their current process.
\<close>

theorem stop_cont_runs_twice:
  "\<exists>t. sched_reach {2, 3} sched_ex t \<and> running_on 0 t = Some 0 \<and> running_on 1 t = Some 0"
proof -
  let ?R = "sched_reach {2, 3} sched_ex"
  have s0: "calm sched_ex" "\<And>h. running_on h sched_ex = None" "pstate (procs sched_ex 0) = RUNNABLE"
    "pid (procs sched_ex 0) = 1" "pstate (procs sched_ex 1) = RUNNABLE"
    using sched_ex_inv by (simp_all add: sched_inv_def sched_ex_def running_on_def idle_lk_def)
  obtain s1 where s1: "?R s1" "moves 0 (Some 0) 0 ((procs sched_ex 0)\<lparr>pstate := RUNNING\<rparr>) sched_ex s1"
    by (rule reach_dispatch[OF sched_reach.here s0(1,2,3)])
  obtain s2 where s2: "?R s2" "moves 1 (Some 1) 1 ((procs s1 1)\<lparr>pstate := RUNNING\<rparr>) s1 s2"
    using reach_dispatch[OF s1(1), of 1 1] s1(2) s0 by (auto simp: moves_def)
  have p2: "pid (procs s2 0) = 1" "pstate (procs s2 0) = RUNNING" "calm s2"
    using s1(2) s2(2) s0 by (simp_all add: moves_def)
  obtain s3 where s3: "?R s3" "procs s3 = (procs s2)(0 := signal 2 (procs s2 0))" "edits s2 s3"
    by (rule reach_signal[OF s2(1) p2(3), of 2 1 0]) (use p2 in \<open>auto intro: find_first\<close>)
  have p3: "pid (procs s3 0) = 1" "pstate (procs s3 0) = SLEEPING" "calm s3"
    using s3 p2 by (simp_all add: signal_def Let_def edits_def)
  obtain s4 where s4: "?R s4" "procs s4 = (procs s3)(0 := signal 3 (procs s3 0))" "edits s3 s4"
    by (rule reach_signal[OF s3(1) p3(3), of 3 1 0]) (use p3 in \<open>auto intro: find_first\<close>)
  have p4: "pstate (procs s4 0) = RUNNABLE" "calm s4" "running_on 0 s4 = Some 0" "running_on 1 s4 = Some 1"
    using s4 s3 s2 s1 p3 by (simp_all add: signal_def Let_def edits_def moves_def)
  obtain s5 where s5: "?R s5" "moves 1 None 1 ((procs s4 1)\<lparr>pstate := RUNNABLE\<rparr>) s4 s5"
    by (rule reach_yield[OF s4(1) p4(2,4)])
  obtain s6 where "?R s6" "moves 1 (Some 0) 0 ((procs s5 0)\<lparr>pstate := RUNNING\<rparr>) s5 s6"
    using reach_dispatch[OF s5(1), of 1 0] s5(2) p4 by (auto simp: moves_def)
  then show ?thesis using s5(2) p4(3) by (auto simp: moves_def)
qed

end
