(* ===== verification/LogUse.thy ===== *)
theory LogUse
  imports LogCrash
begin

text \<open>
  The log of \<^verbatim>\<open>kernel/log.c\<close> as the file system uses it: what start-up does with a log that
  holds a committed transaction, and the admission argument that keeps running operations from
  overflowing the log.
\<close>

section \<open>Start-up\<close>

text \<open>
  C22. Start-up does not recover. \<^verbatim>\<open>initlog\<close>, the only code that looks at the log when the file
  system is mounted, does not read the log header: with the in-memory count still 0, as it is
  after a boot, it installs nothing and writes nothing, whatever the log on the disk holds.
\<close>

theorem initlog_skips_recovery:
  assumes "lh_n s = 0"
  shows "\<exists>s'. initlog dev start s = Some s' \<and> disk s' = disk s \<and> wtrace s' = wtrace s \<and> lh_n s' = 0"
  using assms by (simp add: initlog_def install_trans_def BSIZE_def LOGBLOCKS_def MAXOPBLOCKS_def)

text \<open>
  A crash after the second write of \<^verbatim>\<open>commit\<close>, when the transaction is committed: after the
  reboot the block still has its old content, although the log has the new one.
\<close>

lemma log_ex_writes:
  "to_log log_ex = [(3, (\<lambda>_. 7))]" "to_home log_ex = [(40, (\<lambda>_. 7))]"
proof -
  have c: "cached rootdev log_ex 40 = (\<lambda>_. 7)"
    by (simp add: cached_def log_ex_def bmatch_def NBUF_def MAXOPBLOCKS_def upt_rec)
  show "to_log log_ex = [(3, (\<lambda>_. 7))]" "to_home log_ex = [(40, (\<lambda>_. 7))]"
    using c by (simp_all add: to_log_def to_home_def log_blk_def log_ex_def)
qed

theorem initlog_skips_recovery_witness:
  "\<exists>s' W b'. commit log_ex = Some s' \<and> wtrace s' = rev W \<and> disk s' 40 = (\<lambda>_. 7)
     \<and> initlog rootdev 2 (boot_ex (wr_all (take 2 W) (\<lambda>_ _. 0))) = Some b' \<and> disk b' 40 = (\<lambda>_. 0)"
proof -
  have n: "lh_n log_ex \<noteq> 0" by (simp add: log_ex_simps)
  obtain s' PB where c: "commit log_ex = Some s'" "wrote 0 PB (commit_writes log_ex) (log_ex\<lparr>lh_n := 0\<rparr>) s'"
    using commit_spec[OF log_ex_rinv n] by blast
  let ?h = "full_head log_ex" and ?h' = "put_head 0 (lh_block log_ex) (full_head log_ex)"
  let ?W = "[(3, (\<lambda>_. 7)), (2, ?h), (40, (\<lambda>_. 7)), (2, ?h')]"
  have W: "on_disk (commit_writes log_ex) = ?W"
    by (simp add: commit_writes_def log_ex_writes log_ex_simps)
  have s': "wtrace s' = rev ?W" "disk s' = wr_all ?W (\<lambda>_ _. 0)"
    using wroteD[OF c(2)] W by (simp_all add: log_ex_simps)
  let ?b = "boot_ex (wr_all (take 2 ?W) (\<lambda>_ _. 0))"
  have "lh_n ?b = 0" by (simp add: boot_ex_def)
  then obtain b' where "initlog rootdev 2 ?b = Some b'" "disk b' = disk ?b"
    using initlog_skips_recovery[of ?b rootdev 2] by blast
  then have "commit log_ex = Some s' \<and> wtrace s' = rev ?W \<and> disk s' 40 = (\<lambda>_. 7)
     \<and> initlog rootdev 2 (boot_ex (wr_all (take 2 ?W) (\<lambda>_ _. 0))) = Some b' \<and> disk b' 40 = (\<lambda>_. 0)"
    using c(1) s' by (simp add: log_ex_simps)
  then show ?thesis by blast
qed

section \<open>What the buffer operations leave alone\<close>

lemma more_frame:
  fixes s :: "'z bio_scheme"
  shows "acquire l s = Some s' \<Longrightarrow> bio.more s' = bio.more s" "release l s = Some s' \<Longrightarrow> bio.more s' = bio.more s"
    "myproc s = Some (r, s') \<Longrightarrow> bio.more s' = bio.more s"
  by (auto simp: acquire_def release_def myproc_def Let_def)

lemma wakeup_more:
  fixes s :: "'z bio_scheme"
  shows "wakeup_from c ps s = Some s' \<Longrightarrow> bio.more s' = bio.more s"
proof (induction ps arbitrary: s)
  case (Cons p ps)
  then show ?case
    by (auto simp: Let_def bind_eq_Some_conv upd_proc_def split: if_splits dest!: more_frame)
qed simp

lemma sleeplock_more:
  fixes s :: "'z bio_scheme"
  shows "acquiresleep l s = Some s' \<Longrightarrow> bio.more s' = bio.more s"
    and "holdingsleep l s = Some (h, s') \<Longrightarrow> bio.more s' = bio.more s"
    and "releasesleep l s = Some s' \<Longrightarrow> bio.more s' = bio.more s"
  by (auto simp: acquiresleep_def acquiresleep_start_def acquiresleep_loop_def holdingsleep_def releasesleep_def
      wakeup_def Let_def bind_eq_Some_conv split: if_splits option.splits dest!: more_frame wakeup_more)

lemma buffer_more:
  fixes s :: "'z bio_scheme"
  shows "bread d n s = Some (b, s') \<Longrightarrow> bio.more s' = bio.more s"
    and "bwrite b s = Some s' \<Longrightarrow> bio.more s' = bio.more s"
    and "brelse b s = Some s' \<Longrightarrow> bio.more s' = bio.more s"
  by (auto simp: bread_def bget_def bwrite_def brelse_def disk_rw_def Let_def bind_eq_Some_conv
      split: if_splits option.splits dest!: more_frame sleeplock_more)

lemma write_head_more:
  fixes s :: "'z logst_scheme"
  shows "write_head s = Some s' \<Longrightarrow> bio.more s' = bio.more s"
  by (auto simp: write_head_def set_data_def Let_def bind_eq_Some_conv dest!: buffer_more)

lemma bunpin_more:
  fixes s :: "'z bio_scheme"
  shows "bunpin b s = Some s' \<Longrightarrow> bio.more s' = bio.more s" "bpin b s = Some s' \<Longrightarrow> bio.more s' = bio.more s"
  by (auto simp: bunpin_def bpin_def Let_def bind_eq_Some_conv dest!: more_frame)

lemma copy_more:
  fixes s :: "'z logst_scheme"
  shows "write_log_from is s = Some s' \<Longrightarrow> bio.more s' = bio.more s"
    and "install_trans_from r is s = Some s' \<Longrightarrow> bio.more s' = bio.more s"
proof (induction "is" arbitrary: s)
  case (Cons i "is")
  {
    case 1
    then show ?case
      using Cons.IH(1) by (fastforce simp: bcopy_def set_data_def Let_def bind_eq_Some_conv dest!: buffer_more)
  next
    case 2
    then show ?case
      using Cons.IH(2)
      by (fastforce simp: bcopy_def set_data_def Let_def bind_eq_Some_conv split: if_splits dest!: buffer_more bunpin_more)
  }
qed simp_all

lemma commit_more:
  assumes "commit s = Some s'"
  shows "lh_n s' = 0" and "log_outstanding s' = log_outstanding s" and "log_committing s' = log_committing s"
proof -
  have "lh_n s' = 0 \<and> log_outstanding s' = log_outstanding s \<and> log_committing s' = log_committing s"
  proof (cases "lh_n s = 0")
    case False
    then obtain t u v where "write_log s = Some t" "write_head t = Some u" "install_trans False u = Some v"
      "write_head (v\<lparr>lh_n := 0\<rparr>) = Some s'"
      using assms by (auto simp: commit_def Let_def bind_eq_Some_conv)
    then have "bio.more t = bio.more s" "bio.more u = bio.more t" "bio.more v = bio.more u"
      "bio.more s' = bio.more (v\<lparr>lh_n := 0\<rparr>)"
      by (auto simp: write_log_def install_trans_def dest: copy_more write_head_more)
    from this[THEN log_more(3)] this[THEN log_more(5)] this[THEN log_more(6)] show ?thesis by simp
  qed (use assms in \<open>simp add: commit_def\<close>)
  then show "lh_n s' = 0" and "log_outstanding s' = log_outstanding s" and "log_committing s' = log_committing s"
    by simp_all
qed

section \<open>Admission\<close>

text \<open>
  The log in use: a state and, for each file-system call between its \<^verbatim>\<open>begin_op\<close> and its
  \<^verbatim>\<open>end_op\<close>, how many of the \<^verbatim>\<open>MAXOPBLOCKS\<close> writes it promised not to exceed are left. \<open>other\<close>
  is any activity that does not touch the log.
\<close>

inductive log_step :: "logst \<times> nat list \<Rightarrow> logst \<times> nat list \<Rightarrow> bool" where
  admit: "begin_op_start s = Some (None, s') \<Longrightarrow> log_step (s, bs) (s', MAXOPBLOCKS # bs)"
| append: "i < length bs \<Longrightarrow> 0 < bs ! i \<Longrightarrow> log_write b s = Some s' \<Longrightarrow> log_step (s, bs) (s', bs[i := bs ! i - 1])"
| finish: "i < length bs \<Longrightarrow> end_op s = Some s' \<Longrightarrow> log_step (s, bs) (s', take i bs @ drop (Suc i) bs)"
| other: "bio.more s' = bio.more s \<Longrightarrow> log_step (s, bs) (s', bs)"

inductive log_reach :: "logst \<times> nat list \<Rightarrow> logst \<times> nat list \<Rightarrow> bool" for c where
  here: "log_reach c c"
| step: "log_reach c d \<Longrightarrow> log_step d e \<Longrightarrow> log_reach c e"

definition log_fits :: "logst \<Rightarrow> nat list \<Rightarrow> bool" where
  "log_fits s bs \<longleftrightarrow> 0 \<le> lh_n s \<and> int (length bs) = log_outstanding s \<and> (\<forall>k\<in>set bs. k \<le> MAXOPBLOCKS)
     \<and> lh_n s + int (sum_list bs) \<le> int LOGBLOCKS"

lemma sum_list_bound: "(\<forall>k\<in>set bs. k \<le> m) \<Longrightarrow> sum_list bs \<le> length bs * (m :: nat)"
  by (induction bs) auto

lemma sum_list_dec: "i < length bs \<Longrightarrow> 0 < bs ! i \<Longrightarrow> sum_list (bs[i := bs ! i - 1]) + 1 = sum_list (bs :: nat list)"
proof (induction bs arbitrary: i)
  case (Cons b bs)
  then show ?case by (cases i) auto
qed simp

lemma sum_list_remove: "i < length bs \<Longrightarrow> sum_list (take i bs @ drop (Suc i) bs) \<le> sum_list (bs :: nat list)"
  using id_take_nth_drop[of i bs] by (metis le_add2 add_le_cancel_left sum_list.append sum_list.Cons)

lemma begin_op_fits:
  assumes "begin_op_start s = Some (None, s')" and "log_fits s bs"
  shows "log_fits s' (MAXOPBLOCKS # bs)"
proof -
  obtain t where t: "acquire LogLock s = Some t" "begin_op_loop t = Some (None, s')"
    using assms(1) by (auto simp: begin_op_start_def bind_eq_Some_conv)
  note mt = log_more[OF more_frame(1)[OF t(1)]]
  have adm: "\<not> lh_n t + (log_outstanding t + 1) * int MAXOPBLOCKS > int LOGBLOCKS"
    and rel: "release LogLock (t\<lparr>log_outstanding := log_outstanding t + 1\<rparr>) = Some s'"
    using t(2) by (auto simp: begin_op_loop_def bind_eq_Some_conv split: if_splits)
  note ms = log_more[OF more_frame(2)[OF rel]]
  have "sum_list bs \<le> length bs * MAXOPBLOCKS" using assms(2) sum_list_bound by (simp add: log_fits_def)
  then have "int (sum_list bs) \<le> int (length bs * MAXOPBLOCKS)" by (rule of_nat_mono)
  then have "int (sum_list bs) \<le> log_outstanding s * int MAXOPBLOCKS"
    using assms(2) by (simp add: log_fits_def)
  then show ?thesis using assms(2) adm mt ms by (auto simp: log_fits_def algebra_simps)
qed

lemma log_write_fits:
  assumes "log_write b s = Some s'" and "log_fits s bs" and i: "i < length bs" "0 < bs ! i"
  shows "log_fits s' (bs[i := bs ! i - 1])"
proof -
  obtain t where t: "acquire LogLock s = Some t" using assms(1) by (auto simp: log_write_def bind_eq_Some_conv)
  note mt = log_more[OF more_frame(1)[OF t]]
  let ?bno = "bblockno (bufs t b)"
  let ?i = "log_slot ?bno t" and ?t = "t\<lparr>lh_block := (lh_block t)(log_slot ?bno t := ?bno)\<rparr>"
  have run: "(if int ?i = lh_n ?t then bpin b ?t \<bind> (\<lambda>u. Some (u\<lparr>lh_n := lh_n u + 1\<rparr>)) else Some ?t) \<bind> release LogLock
      = Some s'"
    using assms(1) t by (simp add: log_write_def Let_def split: if_splits)
  have "(lh_n s' = lh_n s + 1 \<or> lh_n s' = lh_n s) \<and> log_outstanding s' = log_outstanding s"
  proof (cases "int ?i = lh_n ?t")
    case True
    then obtain u where u: "bpin b ?t = Some u" "release LogLock (u\<lparr>lh_n := lh_n u + 1\<rparr>) = Some s'"
      using run by (auto simp: bind_eq_Some_conv)
    show ?thesis using log_more[OF bunpin_more(2)[OF u(1)]] log_more[OF more_frame(2)[OF u(2)]] mt by simp
  next
    case False
    then have "release LogLock ?t = Some s'" using run by simp
    then show ?thesis using log_more[OF more_frame(2)] mt by fastforce
  qed
  moreover have "k \<le> MAXOPBLOCKS" if "k \<in> set (bs[i := bs ! i - 1])" for k
  proof -
    have "bs ! i \<le> MAXOPBLOCKS" using assms(2) nth_mem[OF i(1)] by (simp add: log_fits_def)
    moreover have "k = bs ! i - 1 \<or> k \<in> set bs"
      using that set_update_subset_insert[of bs i "bs ! i - 1"] by blast
    ultimately show ?thesis using assms(2) by (auto simp: log_fits_def)
  qed
  ultimately show ?thesis
    using assms(2) sum_list_dec[OF i] by (auto simp: log_fits_def)
qed

lemma end_op_fits:
  assumes "end_op s = Some s'" and "log_fits s bs" and i: "i < length bs"
  shows "log_fits s' (take i bs @ drop (Suc i) bs)"
proof -
  obtain t where t: "acquire LogLock s = Some t" using assms(1) by (auto simp: end_op_def bind_eq_Some_conv)
  note mt = log_more[OF more_frame(1)[OF t]]
  let ?t = "t\<lparr>log_outstanding := log_outstanding t - 1\<rparr>"
  let ?bs = "take i bs @ drop (Suc i) bs"
  have len: "int (length ?bs) = log_outstanding s - 1" using assms(2) i by (simp add: log_fits_def)
  have small: "k \<le> MAXOPBLOCKS" if "k \<in> set ?bs" for k
    using that assms(2) by (auto simp: log_fits_def dest: in_set_takeD in_set_dropD)
  show ?thesis
  proof (cases "log_outstanding ?t = 0")
    case True
    then obtain u v w x where "release LogLock (?t\<lparr>log_committing := True\<rparr>) = Some u" and c: "commit u = Some v"
      and "acquire LogLock v = Some w" "wakeup (Some ChanLog) (w\<lparr>log_committing := False\<rparr>) = Some x"
      "release LogLock x = Some s'"
      using assms(1) t by (auto simp: end_op_def Let_def bind_eq_Some_conv split: if_splits)
    then have m: "bio.more u = bio.more (?t\<lparr>log_committing := True\<rparr>)" "bio.more w = bio.more v"
      "bio.more x = bio.more (w\<lparr>log_committing := False\<rparr>)" "bio.more s' = bio.more x"
      by (auto simp: wakeup_def dest: more_frame wakeup_more)
    have "lh_n s' = 0" "log_outstanding s' = 0"
      using m[THEN log_more(3)] m[THEN log_more(5)] commit_more[OF c] True by simp_all
    moreover have "length ?bs = 0" using len True mt by simp
    then have bs: "?bs = []" by (simp only: length_0_conv)
    ultimately show ?thesis unfolding bs by (simp add: log_fits_def LOGBLOCKS_def)
  next
    case False
    then obtain u where "wakeup (Some ChanLog) ?t = Some u" "release LogLock u = Some s'"
      using assms(1) t by (auto simp: end_op_def Let_def bind_eq_Some_conv split: if_splits)
    then have m: "bio.more u = bio.more ?t" "bio.more s' = bio.more u"
      by (auto simp: wakeup_def dest: more_frame wakeup_more)
    then have "lh_n s' = lh_n s" "log_outstanding s' = log_outstanding s - 1"
      using m[THEN log_more(3)] m[THEN log_more(5)] mt by simp_all
    moreover have "int (sum_list ?bs) \<le> int (sum_list bs)" using sum_list_remove[OF i] by (rule of_nat_mono)
    ultimately show ?thesis using assms(2) len small by (auto simp: log_fits_def)
  qed
qed

lemma log_reach_fits:
  assumes "log_reach c d" and "log_fits (fst c) (snd c)"
  shows "log_fits (fst d) (snd d)"
  using assms
proof (induction rule: log_reach.induct)
  case (step d e)
  then have fits: "log_fits (fst d) (snd d)" by simp
  from step.hyps(2) fits show ?case
  proof cases
    case (other s' s bs)
    then show ?thesis using fits log_more[OF other(3)] by (simp add: log_fits_def)
  next
    case (append i bs b s s')
    then show ?thesis using log_write_fits fits by simp
  qed (auto intro: begin_op_fits end_op_fits)
qed simp


lemma begin_op_idle:
  assumes "quiet p s" and "lh_n s = 0" "log_outstanding s = 0" "\<not> log_committing s"
  shows "begin_op_start s = Some (None, s\<lparr>lk := settle (lk s), log_outstanding := 1\<rparr>)"
  using assms(2-) quietD[OF assms(1)]
  by (simp add: begin_op_start_def begin_op_loop_def lock_simps MAXOPBLOCKS_def LOGBLOCKS_def)


end
