(* ===== verification/Ulib.thy ===== *)
theory Ulib
  imports Sysfile
begin

text \<open>
  The user-level library: \<^verbatim>\<open>user/ulib.c\<close> and \<^verbatim>\<open>user/printf.c\<close>.

  A user program sees the kernel through its system calls. They are the record \<open>sysio\<close> of
  functions on an environment \<open>'e\<close>, an argument of every program below; what a program relies on
  is the contract \<open>byte_io\<close>: on the
  descriptors it names, a read returns the next bytes of the input, at least one unless the input is
  at its end and never more than asked for, and a write appends all its bytes to the output.

  A read-only C string is the list of its bytes before the NUL, read with \<^const>\<open>at\<close>; a buffer that
  is written is an array \<^typ>\<open>carr\<close> or the process memory \<^typ>\<open>memory\<close>. \<open>Inl k\<close> is the result of a
  function that called \<^verbatim>\<open>exit(k)\<close>; \<open>None\<close> is a loop that does not end.
\<close>

section \<open>Strings and memory\<close>

text \<open>The C string that starts at index \<open>p\<close> of an array of \<open>n\<close> bytes.\<close>

definition cstr_at :: "carr \<Rightarrow> nat \<Rightarrow> nat \<Rightarrow> u8 list" where
  "cstr_at a n p = takeWhile (\<lambda>b. b \<noteq> 0) (map a [p..<n])"

partial_function (option) strcpy_loop :: "nat \<Rightarrow> nat \<Rightarrow> memory \<Rightarrow> memory option" where
  "strcpy_loop s t m =
     (if m t \<noteq> 0 then strcpy_loop (s + 1) (t + 1) (m(s := m t)) else Some (m(s := m t)))"

definition strcpy :: "nat \<Rightarrow> nat \<Rightarrow> memory \<Rightarrow> memory option" where
  "strcpy s t m = strcpy_loop s t m"

function strcmp :: "u8 list \<Rightarrow> u8 list \<Rightarrow> int" where
  "strcmp p q =
     (if at p 0 \<noteq> 0 \<and> at p 0 = at q 0 then strcmp (drop 1 p) (drop 1 q)
      else uint (at p 0) - uint (at q 0))"
  by pat_completeness auto
termination
  by (relation "measure (length o fst)") (auto simp: at_def split: if_splits)

declare strcmp.simps [simp del]

partial_function (option) ustrlen_from :: "carr \<Rightarrow> nat \<Rightarrow> nat option" where
  "ustrlen_from s n = (if s n \<noteq> 0 then ustrlen_from s (n + 1) else Some n)"

definition ustrlen :: "carr \<Rightarrow> nat option" where
  "ustrlen s = ustrlen_from s 0"

definition umemset :: "nat \<Rightarrow> int \<Rightarrow> nat \<Rightarrow> memory \<Rightarrow> memory" where
  "umemset dst c n m = fold (\<lambda>i m. m(dst + i := word_of_int c)) [0..<n] m"

text \<open>The offset of the first \<open>c\<close> in the string; \<open>None\<close> is the null pointer.\<close>

fun strchr :: "u8 list \<Rightarrow> u8 \<Rightarrow> nat option" where
  "strchr [] c = None"
| "strchr (s # ss) c = (if s = c then Some 0 else map_option Suc (strchr ss c))"

text \<open>\<^verbatim>\<open>n\<close> is a C \<^verbatim>\<open>int\<close>; it is a 32-bit word that wraps around.\<close>

function atoi_from :: "u32 \<Rightarrow> u8 list \<Rightarrow> u32" where
  "atoi_from n s =
     (if 48 \<le> at s 0 \<and> at s 0 \<le> 57 then atoi_from (n * 10 + ucast (at s 0) - 48) (drop 1 s) else n)"
  by pat_completeness auto
termination
  by (relation "measure (length o snd)") (auto simp: at_def split: if_splits)

declare atoi_from.simps [simp del]

definition atoi :: "u8 list \<Rightarrow> int" where
  "atoi s = sint (atoi_from 0 s)"

fun umove_up :: "nat \<Rightarrow> nat \<Rightarrow> nat \<Rightarrow> memory \<Rightarrow> memory" where
  "umove_up dst src 0 m = m"
| "umove_up dst src (Suc n) m = umove_up (dst + 1) (src + 1) n (m(dst := m src))"

fun umove_down :: "nat \<Rightarrow> nat \<Rightarrow> nat \<Rightarrow> memory \<Rightarrow> memory" where
  "umove_down dst src 0 m = m"
| "umove_down dst src (Suc n) m = umove_down dst src n (m(dst + n := m (src + n)))"

definition umemmove :: "nat \<Rightarrow> nat \<Rightarrow> int \<Rightarrow> memory \<Rightarrow> memory" where
  "umemmove vdst vsrc n m =
     (if vsrc > vdst then umove_up vdst vsrc (nat n) m else umove_down vdst vsrc (nat n) m)"

fun umemcmp :: "memory \<Rightarrow> nat \<Rightarrow> nat \<Rightarrow> nat \<Rightarrow> int" where
  "umemcmp m p1 p2 0 = 0"
| "umemcmp m p1 p2 (Suc n) =
     (if m p1 \<noteq> m p2 then uint (m p1) - uint (m p2) else umemcmp m (p1 + 1) (p2 + 1) n)"

definition umemcpy :: "nat \<Rightarrow> nat \<Rightarrow> nat \<Rightarrow> memory \<Rightarrow> memory" where
  "umemcpy dst src n m = umemmove dst src (int n) m"

lemma umove_up_eq: "umove_up d s n m = memmove_fwd d s n m"
  by (induction n arbitrary: d s m) auto

lemma umove_down_eq: "umove_down d s n m = memmove_bwd d s n m"
  by (induction n arbitrary: m) auto

lemma umemmove_apply:
  "umemmove dst src n m x =
     (if dst \<le> x \<and> x < dst + nat n then m (src + (x - dst)) else m x)"
  by (auto simp: umemmove_def umove_up_eq umove_down_eq memmove_fwd_apply memmove_bwd_apply)

lemma strchr_None: "strchr s c = None \<longleftrightarrow> c \<notin> set s"
  by (induction s) auto

lemma strchr_ex: "(\<exists>k. strchr s c = Some k) \<longleftrightarrow> c \<in> set s"
  using strchr_None[of s c] by auto

lemma strchr_Some: "strchr s c = Some k \<longleftrightarrow> k < length s \<and> s ! k = c \<and> c \<notin> set (take k s)"
  by (induction s arbitrary: k) (auto simp: nth_Cons split: nat.split if_splits)

lemma strchr_cstr_at: "strchr (cstr_at a n p) c = Some k \<Longrightarrow> p + k < n"
  using length_takeWhile_le[of "\<lambda>b. b \<noteq> 0" "map a [p..<n]"] by (auto simp: strchr_Some cstr_at_def)

section \<open>System calls\<close>

text \<open>A failed read is \<open>None\<close>; otherwise the bytes it stored, their number being its result. The
  result of \<^verbatim>\<open>fstat\<close> is the structure the kernel fills in.\<close>

record 'e sysio =
  u_read :: "int \<Rightarrow> nat \<Rightarrow> 'e \<Rightarrow> u8 list option \<times> 'e"
  u_write :: "int \<Rightarrow> u8 list \<Rightarrow> 'e \<Rightarrow> int \<times> 'e"
  u_open :: "u8 list \<Rightarrow> int \<Rightarrow> 'e \<Rightarrow> int \<times> 'e"
  u_close :: "int \<Rightarrow> 'e \<Rightarrow> 'e"
  u_fstat :: "int \<Rightarrow> 'e \<Rightarrow> stat option \<times> 'e"
  u_link :: "u8 list \<Rightarrow> u8 list \<Rightarrow> 'e \<Rightarrow> int \<times> 'e"
  u_unlink :: "u8 list \<Rightarrow> 'e \<Rightarrow> int \<times> 'e"
  u_mkdir :: "u8 list \<Rightarrow> 'e \<Rightarrow> int \<times> 'e"
  u_kill :: "int \<Rightarrow> 'e \<Rightarrow> int \<times> 'e"

definition byte_io ::
  "'e sysio \<Rightarrow> int set \<Rightarrow> (int \<Rightarrow> 'e \<Rightarrow> u8 list) \<Rightarrow> (int \<Rightarrow> 'e \<Rightarrow> u8 list) \<Rightarrow> bool" where
  "byte_io io fds inp outp \<longleftrightarrow> (\<forall>fd\<in>fds.
     (\<forall>n e. \<exists>bs e'. u_read io fd n e = (Some bs, e') \<and> inp fd e = bs @ inp fd e' \<and> length bs \<le> n
        \<and> (bs = [] \<longrightarrow> n = 0 \<or> inp fd e = [])
        \<and> (\<forall>g\<in>fds. outp g e' = outp g e) \<and> (\<forall>g\<in>fds. g \<noteq> fd \<longrightarrow> inp g e' = inp g e))
   \<and> (\<forall>bs e. \<exists>e'. u_write io fd bs e = (int (length bs), e') \<and> outp fd e' = outp fd e @ bs
        \<and> (\<forall>g\<in>fds. g \<noteq> fd \<longrightarrow> outp g e' = outp g e) \<and> (\<forall>g\<in>fds. inp g e' = inp g e)))"

lemma byte_io_read:
  assumes "byte_io io fds inp outp" and "fd \<in> fds"
  obtains bs e' where "u_read io fd n e = (Some bs, e')" "inp fd e = bs @ inp fd e'" "length bs \<le> n"
    "bs = [] \<Longrightarrow> n = 0 \<or> inp fd e = []" "\<And>g. g \<in> fds \<Longrightarrow> outp g e' = outp g e"
    "\<And>g. g \<in> fds \<Longrightarrow> g \<noteq> fd \<Longrightarrow> inp g e' = inp g e"
proof -
  have "\<exists>bs e'. u_read io fd n e = (Some bs, e') \<and> inp fd e = bs @ inp fd e' \<and> length bs \<le> n
      \<and> (bs = [] \<longrightarrow> n = 0 \<or> inp fd e = [])
      \<and> (\<forall>g\<in>fds. outp g e' = outp g e) \<and> (\<forall>g\<in>fds. g \<noteq> fd \<longrightarrow> inp g e' = inp g e)"
    using assms unfolding byte_io_def by (elim ballE[of _ _ fd] conjE) simp_all
  then show thesis using that by blast
qed

lemma byte_io_write:
  assumes "byte_io io fds inp outp" and "fd \<in> fds"
  obtains e' where "u_write io fd bs e = (int (length bs), e')" "outp fd e' = outp fd e @ bs"
    "\<And>g. g \<in> fds \<Longrightarrow> g \<noteq> fd \<Longrightarrow> outp g e' = outp g e" "\<And>g. g \<in> fds \<Longrightarrow> inp g e' = inp g e"
proof -
  have "\<exists>e'. u_write io fd bs e = (int (length bs), e') \<and> outp fd e' = outp fd e @ bs
      \<and> (\<forall>g\<in>fds. g \<noteq> fd \<longrightarrow> outp g e' = outp g e) \<and> (\<forall>g\<in>fds. inp g e' = inp g e)"
    using assms unfolding byte_io_def by (elim ballE[of _ _ fd] conjE) simp_all
  then show thesis using that by blast
qed

section \<open>gets and stat\<close>

function gets_loop :: "'e sysio \<Rightarrow> nat \<Rightarrow> carr \<Rightarrow> nat \<Rightarrow> 'e \<Rightarrow> nat \<times> carr \<times> 'e" where
  "gets_loop io nmax buf i e =
     (if i + 1 < nmax then
        (case u_read io 0 1 e of
           (Some (c # _), e) \<Rightarrow>
             (let buf = buf(i := c)
              in if c = 10 \<or> c = 13 then (i + 1, buf, e) else gets_loop io nmax buf (i + 1) e)
         | (_, e) \<Rightarrow> (i, buf, e))
      else (i, buf, e))"
  by pat_completeness auto
termination
  by (relation "measure (\<lambda>(io, nmax, buf, i, e). nmax - i)") auto

declare gets_loop.simps [simp del]

definition gets :: "'e sysio \<Rightarrow> carr \<Rightarrow> nat \<Rightarrow> 'e \<Rightarrow> carr \<times> 'e" where
  "gets io buf nmax e =
     (let (i, buf, e) = gets_loop io nmax buf 0 e
      in (buf(i := 0), e))"

definition ustat :: "'e sysio \<Rightarrow> u8 list \<Rightarrow> 'e \<Rightarrow> stat option \<times> 'e" where
  "ustat io n e =
     (let (fd, e) = u_open io n O_RDONLY e
      in if fd < 0 then (None, e)
         else (let (r, e) = u_fstat io fd e
               in (r, u_close io fd e)))"

section \<open>printf\<close>

definition putc :: "'e sysio \<Rightarrow> int \<Rightarrow> u8 \<Rightarrow> 'e \<Rightarrow> 'e" where
  "putc io fd c e = snd (u_write io fd [c] e)"

definition udigit :: "nat \<Rightarrow> u8" where
  "udigit d = (if d < 10 then 48 + of_nat d else 55 + of_nat d)"

function uprintint_buf :: "radix \<Rightarrow> nat \<Rightarrow> u8 list" where
  "uprintint_buf r x =
     udigit (x mod base r) # (if x div base r \<noteq> 0 then uprintint_buf r (x div base r) else [])"
  by pat_completeness auto
termination
proof (relation "measure snd")
  fix r x assume "x div base r \<noteq> 0"
  then show "((r, x div base r), r, x) \<in> measure snd"
    using base_bounds(1)[of r] by (cases "x = 0") auto
qed simp

declare uprintint_buf.simps [simp del]

definition uprintint :: "u64 \<Rightarrow> radix \<Rightarrow> bool \<Rightarrow> u8 list" where
  "uprintint xx r sign =
     (let neg = (sign \<and> sint xx < 0);
          x = (if neg then - xx else xx)
      in rev (uprintint_buf r (unat x) @ (if neg then [45] else [])))"

definition uprintptr :: "u64 \<Rightarrow> u8 list" where
  "uprintptr x = [48, 120] @ map (\<lambda>i. udigit (unat (drop_bit 60 (push_bit (4 * i) x)))) [0..<16]"

text \<open>One conversion: the bytes printed, the format bytes skipped after the first, the remaining
  arguments. \<open>c1\<close> and \<open>c2\<close> are the two format bytes that follow.\<close>

definition uconv :: "u8 \<Rightarrow> u8 list \<Rightarrow> parg list \<Rightarrow> (u8 list \<times> nat \<times> parg list) option" where
  "uconv c0 fmt ap =
     (let c1 = (if c0 \<noteq> 0 then at fmt 0 else 0);
          c2 = (if c1 \<noteq> 0 then at fmt 1 else 0);
          num = (\<lambda>f r sign k. do { (v, ap) \<leftarrow> va_u64 ap; Some (uprintint (f v) r sign, k, ap) })
      in if c0 = 100 then num sext32 Dec True 0
         else if c0 = 108 \<and> c1 = 100 then num id Dec True 1
         else if c0 = 108 \<and> c1 = 108 \<and> c2 = 100 then num id Dec True 2
         else if c0 = 117 then num zext32 Dec False 0
         else if c0 = 108 \<and> c1 = 117 then num id Dec False 1
         else if c0 = 108 \<and> c1 = 108 \<and> c2 = 117 then num id Dec False 2
         else if c0 = 120 then num zext32 Hex False 0
         else if c0 = 108 \<and> c1 = 120 then num id Hex False 1
         else if c0 = 108 \<and> c1 = 108 \<and> c2 = 120 then num id Hex False 2
         else if c0 = 112 then do { (v, ap) \<leftarrow> va_u64 ap; Some (uprintptr v, 0, ap) }
         else if c0 = 99 then do { (v, ap) \<leftarrow> va_u64 ap; Some ([ucast v], 0, ap) }
         else if c0 = 115 then do { (s, ap) \<leftarrow> va_str ap; Some (s, 0, ap) }
         else if c0 = 37 then Some ([37], 0, ap)
         else Some ([37, c0], 0, ap))"

text \<open>The bytes \<^verbatim>\<open>vprintf\<close> prints; the first argument is whether a percent sign was just read.\<close>

function vprintf_out :: "bool \<Rightarrow> u8 list \<Rightarrow> parg list \<Rightarrow> u8 list option" where
  "vprintf_out st [] ap = Some []"
| "vprintf_out False (c0 # fmt) ap =
     (if c0 = 37 then vprintf_out True fmt ap
      else do {
        out \<leftarrow> vprintf_out False fmt ap;
        Some (c0 # out)
      })"
| "vprintf_out True (c0 # fmt) ap = do {
     (cs, k, ap) \<leftarrow> uconv c0 fmt ap;
     out \<leftarrow> vprintf_out False (drop k fmt) ap;
     Some (cs @ out)
   }"
  by pat_completeness auto
termination
  by (relation "measure (\<lambda>(st, fmt, ap). length fmt)") auto

definition vprintf :: "'e sysio \<Rightarrow> int \<Rightarrow> u8 list \<Rightarrow> parg list \<Rightarrow> 'e \<Rightarrow> 'e option" where
  "vprintf io fd fmt ap e = do {
     out \<leftarrow> vprintf_out False fmt ap;
     Some (fold (putc io fd) out e)
   }"

definition fprintf :: "'e sysio \<Rightarrow> int \<Rightarrow> u8 list \<Rightarrow> parg list \<Rightarrow> 'e \<Rightarrow> 'e option" where
  "fprintf io fd fmt ap e = vprintf io fd fmt ap e"

definition uprintf :: "'e sysio \<Rightarrow> u8 list \<Rightarrow> parg list \<Rightarrow> 'e \<Rightarrow> 'e option" where
  "uprintf io fmt ap e = vprintf io 1 fmt ap e"

lemma putc_out:
  assumes "byte_io io fds inp outp" and "fd \<in> fds"
  shows "outp fd (fold (putc io fd) cs e) = outp fd e @ cs
    \<and> (\<forall>g\<in>fds. g \<noteq> fd \<longrightarrow> outp g (fold (putc io fd) cs e) = outp g e)
    \<and> (\<forall>g\<in>fds. inp g (fold (putc io fd) cs e) = inp g e)"
proof (induction cs arbitrary: e)
  case (Cons c cs)
  obtain e' where "u_write io fd [c] e = (1, e')" "outp fd e' = outp fd e @ [c]"
    "\<And>g. g \<in> fds \<Longrightarrow> g \<noteq> fd \<Longrightarrow> outp g e' = outp g e" "\<And>g. g \<in> fds \<Longrightarrow> inp g e' = inp g e"
    using byte_io_write[OF assms, of "[c]" e] by auto
  then show ?case using Cons[of e'] by (simp add: putc_def)
qed simp

lemma uprintf_prints:
  assumes "byte_io io fds inp outp" and "1 \<in> fds" and "vprintf_out False fmt ap = Some out"
  obtains e' where "uprintf io fmt ap e = Some e'" "outp 1 e' = outp 1 e @ out"
  using assms putc_out[OF assms(1,2)] by (simp add: uprintf_def vprintf_def)

section \<open>An environment that meets the contract\<close>

text \<open>Input and output tapes per descriptor; a read delivers at most three bytes at a time.\<close>

type_synonym tapes = "(int \<Rightarrow> u8 list) \<times> (int \<Rightarrow> u8 list)"

definition tape_io :: "tapes sysio" where
  "tape_io = \<lparr>u_read = (\<lambda>fd n e. (Some (take (min n 3) (fst e fd)),
                  ((fst e)(fd := drop (min n 3) (fst e fd)), snd e))),
     u_write = (\<lambda>fd bs e. (int (length bs), (fst e, (snd e)(fd := snd e fd @ bs)))),
     u_open = (\<lambda>path mode e. (-1, e)), u_close = (\<lambda>fd e. e), u_fstat = (\<lambda>fd e. (None, e)),
     u_link = (\<lambda>a b e. (-1, e)), u_unlink = (\<lambda>a e. (-1, e)), u_mkdir = (\<lambda>a e. (-1, e)),
     u_kill = (\<lambda>p e. (-1, e))\<rparr>"

lemma byte_io_tape: "byte_io tape_io UNIV (\<lambda>fd e. fst e fd) (\<lambda>fd e. snd e fd)"
  unfolding byte_io_def tape_io_def by auto

end
