(* ===== verification/Grep.thy ===== *)
theory Grep
  imports Ulib
begin

text \<open>
  The user program \<^verbatim>\<open>user/grep.c\<close>: the pattern matcher and the line buffer around it.

  The matcher is compared with the language a pattern denotes: a pattern is a sequence of single
  characters and starred characters, the dot standing for any byte, with optional anchors.
\<close>

section \<open>The matcher\<close>

function (sequential) matchhere :: "u8 list \<Rightarrow> u8 list \<Rightarrow> bool"
  and matchstar :: "u8 \<Rightarrow> u8 list \<Rightarrow> u8 list \<Rightarrow> bool" where
  "matchhere re tx =
     (if at re 0 = 0 then True
      else if at re 1 = 42 then matchstar (at re 0) (drop 2 re) tx
      else if at re 0 = 36 \<and> at re 1 = 0 then at tx 0 = 0
      else if at tx 0 \<noteq> 0 \<and> (at re 0 = 46 \<or> at re 0 = at tx 0)
      then matchhere (drop 1 re) (drop 1 tx)
      else False)"
| "matchstar c re tx =
     (if matchhere re tx then True
      else if at tx 0 \<noteq> 0 \<and> (at tx 0 = c \<or> c = 46) then matchstar c re (drop 1 tx)
      else False)"
  by pat_completeness auto
termination
  by (relation "measures [\<lambda>x. case x of Inl (re, t) \<Rightarrow> length re | Inr (c, re, t) \<Rightarrow> length re,
        \<lambda>x. case x of Inl (re, t) \<Rightarrow> length t | Inr (c, re, t) \<Rightarrow> length t,
        \<lambda>x. case x of Inl _ \<Rightarrow> 0 | Inr _ \<Rightarrow> 1]")
    (auto simp: at_def split: if_splits)

declare matchhere.simps [simp del] matchstar.simps [simp del]

function match_from :: "u8 list \<Rightarrow> u8 list \<Rightarrow> bool" where
  "match_from re tx =
     (if matchhere re tx then True
      else if at tx 0 \<noteq> 0 then match_from re (drop 1 tx)
      else False)"
  by pat_completeness auto
termination
  by (relation "measure (length o snd)") (auto simp: at_def split: if_splits)

declare match_from.simps [simp del]

definition match :: "u8 list \<Rightarrow> u8 list \<Rightarrow> bool" where
  "match re tx = (if at re 0 = 94 then matchhere (drop 1 re) tx else match_from re tx)"

section \<open>The language of a pattern\<close>

datatype elem = One u8 | Star u8

definition sat :: "u8 \<Rightarrow> u8 \<Rightarrow> bool" where
  "sat c a \<longleftrightarrow> c = 46 \<or> a = c"

text \<open>The elements of a pattern without its front anchor, and whether it is anchored at the end.\<close>

fun elems :: "u8 list \<Rightarrow> elem list \<times> bool" where
  "elems [] = ([], False)"
| "elems [c] = (if c = 36 then ([], True) else ([One c], False))"
| "elems (c # d # re) =
     (if d = 42 then (Star c # fst (elems re), snd (elems re))
      else (One c # fst (elems (d # re)), snd (elems (d # re))))"

fun lang :: "elem list \<Rightarrow> u8 list set" where
  "lang [] = {[]}"
| "lang (One c # es) = {a # w | a w. sat c a \<and> w \<in> lang es}"
| "lang (Star c # es) = {u @ w | u w. (\<forall>a\<in>set u. sat c a) \<and> w \<in> lang es}"

definition denotes :: "elem list \<times> bool \<Rightarrow> u8 list \<Rightarrow> bool" where
  "denotes ea tx \<longleftrightarrow> (\<exists>w rest. tx = w @ rest \<and> w \<in> lang (fst ea) \<and> (snd ea \<longrightarrow> rest = []))"

lemma denotes_Nil [simp]: "denotes ([], False) tx"
  by (auto simp: denotes_def)

lemma denotes_end [simp]: "denotes ([], True) tx \<longleftrightarrow> tx = []"
  by (auto simp: denotes_def)

lemma denotes_One [simp]:
  "denotes (One c # es, b) tx \<longleftrightarrow> (\<exists>a t. tx = a # t \<and> sat c a \<and> denotes (es, b) t)"
proof
  assume "denotes (One c # es, b) tx"
  then obtain x r where "tx = x @ r" "x \<in> lang (One c # es)" "b \<longrightarrow> r = []"
    unfolding denotes_def by auto
  then obtain a w where "tx = a # w @ r" "sat c a" "w \<in> lang es" "b \<longrightarrow> r = []" by auto
  then show "\<exists>a t. tx = a # t \<and> sat c a \<and> denotes (es, b) t"
    unfolding denotes_def by (intro exI[of _ a] exI[of _ "w @ r"]) auto
next
  assume "\<exists>a t. tx = a # t \<and> sat c a \<and> denotes (es, b) t"
  then obtain a w r where "tx = (a # w) @ r" "sat c a" "w \<in> lang es" "b \<longrightarrow> r = []"
    by (auto simp: denotes_def)
  then show "denotes (One c # es, b) tx"
    unfolding denotes_def by (intro exI[of _ "a # w"] exI[of _ r]) simp
qed

lemma denotes_Star:
  "denotes (Star c # es, b) tx \<longleftrightarrow>
     denotes (es, b) tx \<or> (\<exists>a t. tx = a # t \<and> sat c a \<and> denotes (Star c # es, b) t)"
proof -
  have "denotes (Star c # es, b) tx \<longleftrightarrow>
      (\<exists>u v. tx = u @ v \<and> (\<forall>a\<in>set u. sat c a) \<and> denotes (es, b) v)" for tx
  proof
    assume "denotes (Star c # es, b) tx"
    then obtain x r where "tx = x @ r" "x \<in> lang (Star c # es)" "b \<longrightarrow> r = []"
      unfolding denotes_def by auto
    then obtain u w where "tx = u @ (w @ r)" "\<forall>a\<in>set u. sat c a" "w \<in> lang es" "b \<longrightarrow> r = []"
      by auto
    then show "\<exists>u v. tx = u @ v \<and> (\<forall>a\<in>set u. sat c a) \<and> denotes (es, b) v"
      unfolding denotes_def by (intro exI[of _ u] exI[of _ "w @ r"]) auto
  next
    assume "\<exists>u v. tx = u @ v \<and> (\<forall>a\<in>set u. sat c a) \<and> denotes (es, b) v"
    then obtain u w r where "tx = (u @ w) @ r" "\<forall>a\<in>set u. sat c a" "w \<in> lang es" "b \<longrightarrow> r = []"
      by (auto simp: denotes_def)
    then show "denotes (Star c # es, b) tx"
      unfolding denotes_def by (intro exI[of _ "u @ w"] exI[of _ r]) auto
  qed
  note * = this
  show ?thesis
  proof
    assume "denotes (Star c # es, b) tx"
    then obtain u v where uv: "tx = u @ v" "\<forall>a\<in>set u. sat c a" "denotes (es, b) v"
      by (auto simp: *)
    then show "denotes (es, b) tx \<or> (\<exists>a t. tx = a # t \<and> sat c a \<and> denotes (Star c # es, b) t)"
      by (cases u) (auto simp: *)
  next
    assume "denotes (es, b) tx \<or> (\<exists>a t. tx = a # t \<and> sat c a \<and> denotes (Star c # es, b) t)"
    then show "denotes (Star c # es, b) tx"
    proof
      assume "denotes (es, b) tx"
      then show ?thesis unfolding * by (metis append_Nil empty_iff list.set(1))
    next
      assume "\<exists>a t. tx = a # t \<and> sat c a \<and> denotes (Star c # es, b) t"
      then obtain a u v where "tx = a # u @ v" "sat c a" "\<forall>a\<in>set u. sat c a" "denotes (es, b) v"
        by (auto simp: *)
      then show ?thesis unfolding * by (metis append_Cons set_ConsD)
    qed
  qed
qed

lemma at_0: "0 \<notin> set xs \<Longrightarrow> at xs 0 = 0 \<longleftrightarrow> xs = []"
  by (cases xs) (auto simp: at_def)

lemma set_drop_notin: "x \<notin> set xs \<Longrightarrow> x \<notin> set (drop n xs)"
  by (meson in_set_dropD)

lemma matcher_denotes:
  "0 \<notin> set re \<Longrightarrow> 0 \<notin> set tx \<Longrightarrow> matchhere re tx \<longleftrightarrow> denotes (elems re) tx"
  "0 \<notin> set re \<Longrightarrow> 0 \<notin> set tx \<Longrightarrow>
     matchstar c re tx \<longleftrightarrow> denotes (Star c # fst (elems re), snd (elems re)) tx"
proof (induction re tx and c re tx rule: matchhere_matchstar.induct)
  case (1 re tx)
  show ?case
  proof (cases re rule: elems.cases)
    case 1
    then show ?thesis by (subst matchhere.simps) (simp add: at_def)
  next
    case (2 c)
    then show ?thesis using 1 by (subst matchhere.simps) (cases tx; auto simp: at_def sat_def)
  next
    case (3 c d r)
    then show ?thesis using 1 by (subst matchhere.simps) (cases tx; auto simp: at_def sat_def)
  qed
next
  case (2 c re tx)
  then show ?case
    using at_0[of tx] by (subst matchstar.simps, subst denotes_Star) (cases tx; auto simp: at_def sat_def)
qed

text \<open>
  C5. The pattern matcher decides exactly the language of the pattern. On strings without NUL,
  \<^verbatim>\<open>match\<close> returns true just when some part of the text is in the language of the pattern's
  characters and starred characters; the part has to be at the front if the pattern starts with a
  caret, and at the end if it ends with a dollar sign that is not starred.
\<close>

theorem match_language:
  assumes "0 \<notin> set re" and "0 \<notin> set tx"
  shows "match re tx \<longleftrightarrow>
    (if at re 0 = 94 then denotes (elems (drop 1 re)) tx
     else \<exists>pre post. tx = pre @ post \<and> denotes (elems re) post)"
proof (cases "at re 0 = 94")
  case True
  then show ?thesis using assms matcher_denotes(1) by (simp add: match_def set_drop_notin)
next
  case False
  have "match_from re tx \<longleftrightarrow> (\<exists>pre post. tx = pre @ post \<and> denotes (elems re) post)"
    using assms(2)
  proof (induction tx)
    case Nil
    then show ?case using assms matcher_denotes(1)[of re "[]"] by (subst match_from.simps) (simp add: at_def)
  next
    case (Cons a tx)
    have "(\<exists>pre post. a # tx = pre @ post \<and> denotes (elems re) post) \<longleftrightarrow>
        denotes (elems re) (a # tx) \<or> (\<exists>pre post. tx = pre @ post \<and> denotes (elems re) post)"
      by (metis Cons_eq_append_conv append_Nil)
    then show ?case
      using Cons assms(1) matcher_denotes(1)[of re "a # tx"] by (subst match_from.simps) (simp add: at_def)
  qed
  then show ?thesis using False by (simp add: match_def)
qed

theorem match_language_witness:
  "match (bytes ''b*c$'') (bytes ''abbc'') \<and> \<not> match (bytes ''^b.c'') (bytes ''abbc'')
   \<and> (\<exists>pre post. bytes ''abbc'' = pre @ post \<and> denotes (elems (bytes ''b*c$'')) post)"
proof -
  have m: "match (bytes ''b*c$'') (bytes ''abbc'')" "\<not> match (bytes ''^b.c'') (bytes ''abbc'')"
    by code_simp+
  moreover have "0 \<notin> set (bytes ''b*c$'')" "0 \<notin> set (bytes ''abbc'')" "at (bytes ''b*c$'') 0 \<noteq> 94"
    by code_simp+
  ultimately show ?thesis using match_language[of "bytes ''b*c$''" "bytes ''abbc''"] by simp
qed

section \<open>The line buffer\<close>

text \<open>The lines of the buffer from \<open>p\<close> on: the \<^verbatim>\<open>while\<close> loop over \<^verbatim>\<open>strchr\<close>.\<close>

function grep_lines :: "'e sysio \<Rightarrow> u8 list \<Rightarrow> nat \<Rightarrow> carr \<Rightarrow> 'e \<Rightarrow> nat \<times> carr \<times> 'e" where
  "grep_lines io pattern p buf e =
     (case strchr (cstr_at buf 1024 p) 10 of
        None \<Rightarrow> (p, buf, e)
      | Some k \<Rightarrow>
          (let q = p + k;
               buf = buf(q := 0)
           in if match pattern (cstr_at buf 1024 p)
              then (let buf = buf(q := 10);
                        (_, e) = u_write io 1 (map buf [p..<q + 1]) e
                    in grep_lines io pattern (q + 1) buf e)
              else grep_lines io pattern (q + 1) buf e))"
  by pat_completeness auto
termination
  by (relation "measure (\<lambda>(io, pattern, p, buf, e). 1024 - p)") (auto dest!: strchr_cstr_at)

declare grep_lines.simps [simp del]

partial_function (option) grep_loop ::
  "'e sysio \<Rightarrow> u8 list \<Rightarrow> int \<Rightarrow> nat \<Rightarrow> carr \<Rightarrow> 'e \<Rightarrow> (carr \<times> 'e) option" where
  "grep_loop io pattern fd m buf e =
     (case u_read io fd (1024 - m - 1) e of
        (Some bs, e) \<Rightarrow>
          if bs \<noteq> [] then
            (let buf = mem_put m bs buf;
                 m = m + length bs;
                 buf = buf(m := 0);
                 (p, buf, e) = grep_lines io pattern 0 buf e
             in if m > 0 then grep_loop io pattern fd (m - p) (umemmove 0 p (int (m - p)) buf) e
                else grep_loop io pattern fd m buf e)
          else Some (buf, e)
      | (None, e) \<Rightarrow> Some (buf, e))"

definition grep :: "'e sysio \<Rightarrow> u8 list \<Rightarrow> int \<Rightarrow> carr \<Rightarrow> 'e \<Rightarrow> (carr \<times> 'e) option" where
  "grep io pattern fd buf e = grep_loop io pattern fd 0 buf e"

fun grep_files :: "'e sysio \<Rightarrow> u8 list \<Rightarrow> u8 list list \<Rightarrow> carr \<Rightarrow> 'e \<Rightarrow> (int \<times> 'e) option" where
  "grep_files io pattern [] buf e = Some (0, e)"
| "grep_files io pattern (arg # argv) buf e =
     (let (fd, e) = u_open io arg O_RDONLY e
      in if fd < 0 then do {
           e \<leftarrow> uprintf io (bytes ''grep: cannot open %s'' @ [10]) [PStr (Some arg)] e;
           Some (1, e)
         } else do {
           (buf, e) \<leftarrow> grep io pattern fd buf e;
           grep_files io pattern argv buf (u_close io fd e)
         })"

text \<open>\<^verbatim>\<open>main\<close> returns the exit status; \<open>argv\<close> includes the program name.\<close>

definition grep_main :: "'e sysio \<Rightarrow> u8 list list \<Rightarrow> 'e \<Rightarrow> (int \<times> 'e) option" where
  "grep_main io argv e =
     (if length argv \<le> 1 then do {
        e \<leftarrow> fprintf io 2 (bytes ''usage: grep pattern [file ...]'' @ [10]) [] e;
        Some (1, e)
      } else if length argv \<le> 2 then do {
        (buf, e) \<leftarrow> grep io (argv ! 1) 0 (\<lambda>_. 0) e;
        Some (0, e)
      } else grep_files io (argv ! 1) (drop 2 argv) (\<lambda>_. 0) e)"

section \<open>Lines\<close>

text \<open>The complete lines of a byte sequence, and what follows the last newline.\<close>

function clines :: "u8 list \<Rightarrow> u8 list list" where
  "clines xs =
     (if 10 \<in> set xs then takeWhile (\<lambda>b. b \<noteq> 10) xs # clines (tl (dropWhile (\<lambda>b. b \<noteq> 10) xs)) else [])"
  by pat_completeness auto
termination
proof (relation "measure length")
  fix xs :: "u8 list" assume "10 \<in> set xs"
  then show "(tl (dropWhile (\<lambda>b. b \<noteq> 10) xs), xs) \<in> measure length"
    using length_dropWhile_le[of "\<lambda>b. b \<noteq> 10" xs] by (cases xs) auto
qed simp

definition ctail :: "u8 list \<Rightarrow> u8 list" where
  "ctail xs = rev (takeWhile (\<lambda>b. b \<noteq> 10) (rev xs))"

declare clines.simps [simp del]

lemma clines_none [simp]: 
  assumes "10 \<notin> set xs"
  shows "clines xs = []" and "ctail xs = xs"
proof -
  show "clines xs = []" using assms by (subst clines.simps) simp
  have "takeWhile (\<lambda>b. b \<noteq> 10) (rev xs) = rev xs" using assms by (auto simp: takeWhile_eq_all_conv)
  then show "ctail xs = xs" unfolding ctail_def by (metis rev_rev_ident)
qed

lemma clines_line [simp]:
  assumes "10 \<notin> set l"
  shows "clines (l @ 10 # ys) = l # clines ys" and "ctail (l @ 10 # ys) = ctail ys"
proof -
  have "takeWhile (\<lambda>b. b \<noteq> 10) (l @ 10 # ys) = l" "dropWhile (\<lambda>b. b \<noteq> 10) (l @ 10 # ys) = 10 # ys"
    using assms by (auto simp: takeWhile_append dropWhile_append)
  then show "clines (l @ 10 # ys) = l # clines ys" by (subst clines.simps) simp
  show "ctail (l @ 10 # ys) = ctail ys" by (cases "10 \<in> set ys") (auto simp: ctail_def takeWhile_append takeWhile_eq_all_conv[THEN iffD2])
qed

lemma line_induct [case_names tail line]:
  assumes "\<And>xs :: u8 list. 10 \<notin> set xs \<Longrightarrow> P xs"
    and "\<And>l ys. 10 \<notin> set l \<Longrightarrow> P ys \<Longrightarrow> P (l @ 10 # ys)"
  shows "P xs"
proof (induction "length xs" arbitrary: xs rule: less_induct)
  case less
  show ?case
  proof (cases "10 \<in> set xs")
    case True
    then obtain l ys where "xs = l @ 10 # ys" "10 \<notin> set l" by (meson split_list_first)
    then show ?thesis using assms(2) less by simp
  qed (rule assms(1))
qed

lemma ctail_no_newline: "10 \<notin> set (ctail xs)"
  by (auto simp: ctail_def dest: set_takeWhileD)

lemma set_ctail: "set (ctail xs) \<subseteq> set xs"
  by (auto simp: ctail_def dest: set_takeWhileD)

lemma length_ctail: "length (ctail xs) \<le> length xs"
  using length_takeWhile_le[of _ "rev xs"] by (simp add: ctail_def)

lemma clines_append: "clines (xs @ ys) = clines xs @ clines (ctail xs @ ys)"
  by (induction xs rule: line_induct) auto

lemma upt_split_at: "p \<le> q \<Longrightarrow> q < m \<Longrightarrow> [p..<m] = [p..<q] @ q # [Suc q..<m]"
  using upt_add_eq_append[of p q "m - q"] by (simp add: upt_conv_Cons)

lemma takeWhile_nonzero:
  assumes "map buf [p..<m] = xs" and "0 \<notin> set xs" and "buf m = (0 :: u8)" and "p \<le> m" and "m < n"
  shows "cstr_at buf n p = xs"
proof -
  have "[p..<n] = [p..<m] @ m # [Suc m..<n]"
    using assms(4,5) by (rule upt_split_at)
  then show ?thesis using assms by (auto simp: cstr_at_def takeWhile_append)
qed

lemma strchr_line: "c \<notin> set l \<Longrightarrow> strchr (l @ c # ys) c = Some (length l)"
  by (simp add: strchr_Some)

text \<open>What \<^verbatim>\<open>grep\<close> prints for a list of lines.\<close>

definition selected :: "u8 list \<Rightarrow> u8 list list \<Rightarrow> u8 list" where
  "selected pattern ls = concat (map (\<lambda>l. l @ [10]) (filter (match pattern) ls))"

lemma selected_simps [simp]:
  "selected pat [] = []"
  "selected pat (l # ls) = (if match pat l then l @ [10] else []) @ selected pat ls"
  "selected pat (ls @ ls') = selected pat ls @ selected pat ls'"
  by (simp_all add: selected_def)

lemma map_upt_split:
  assumes "map f [p..<m] = l @ y # ys" and "p \<le> m"
  shows "map f [p..<p + length l] = l" and "f (p + length l) = y"
    and "map f [p + length l + 1..<m] = ys" and "p + length l < m"
proof -
  have len: "m = p + length l + 1 + length ys"
    using arg_cong[OF assms(1), of length] assms(2) by simp
  then have "[p..<m] = [p..<p + length l] @ (p + length l) # [p + length l + 1..<m]"
    using upt_split_at[of p "p + length l" m] by simp
  then have "map f [p..<p + length l] @ f (p + length l) # map f [p + length l + 1..<m] = l @ y # ys"
    using assms(1) by simp
  then show "map f [p..<p + length l] = l" "f (p + length l) = y" "map f [p + length l + 1..<m] = ys"
    by (simp_all add: append_eq_append_conv)
  show "p + length l < m" using len by simp
qed

lemma grep_lines_spec:
  assumes io: "byte_io io fds inp outp" "1 \<in> fds" and m: "m < 1024"
  shows "map buf [p..<m] = xs \<Longrightarrow> p \<le> m \<Longrightarrow> buf m = 0 \<Longrightarrow> 0 \<notin> set xs \<Longrightarrow>
    \<exists>p' buf' e'. grep_lines io pat p buf e = (p', buf', e') \<and> p' \<le> m \<and> map buf' [p'..<m] = ctail xs
      \<and> outp 1 e' = outp 1 e @ selected pat (clines xs) \<and> (\<forall>g\<in>fds. inp g e' = inp g e)"
proof (induction xs arbitrary: p buf e rule: line_induct)
  case (tail xs)
  then have "cstr_at buf 1024 p = xs" by (intro takeWhile_nonzero[OF _ _ _ _ m]) auto
  then have "strchr (cstr_at buf 1024 p) 10 = None" using tail(1) by (simp add: strchr_None)
  then show ?case using tail by (subst grep_lines.simps) simp
next
  case (line l ys)
  note sp = map_upt_split[OF line(3,4)]
  let ?q = "p + length l" and ?b = "buf(p + length l := 0)"
  have "cstr_at buf 1024 p = l @ 10 # ys" using line by (intro takeWhile_nonzero[OF _ _ _ _ m]) auto
  then have q: "strchr (cstr_at buf 1024 p) 10 = Some (length l)" using line(1) by (simp add: strchr_line)
  have l: "map buf' [p..<?q] = l" "map buf' [?q + 1..<m] = ys" "buf' m = 0" if "buf' = ?b \<or> buf' = buf" for buf'
    using that sp line(5) by (auto simp: map_fun_upd)
  have tx: "cstr_at ?b 1024 p = l"
    using l line(6) sp(4) m by (intro takeWhile_nonzero[of _ _ "p + length l"]) auto
  have buf: "?b(?q := 10) = buf" using sp(2) by auto
  have ih: "\<exists>p' buf'' e'. grep_lines io pat (?q + 1) buf' e = (p', buf'', e') \<and> p' \<le> m
      \<and> map buf'' [p'..<m] = ctail ys \<and> outp 1 e' = outp 1 e @ selected pat (clines ys)
      \<and> (\<forall>g\<in>fds. inp g e' = inp g e)" if "buf' = ?b \<or> buf' = buf" for buf' e
    using l[OF that] sp(4) line(6) by (intro line(2)) auto
  show ?case
  proof (cases "match pat l")
    case True
    obtain e1 where w: "u_write io 1 (l @ [10]) e = (int (length (l @ [10])), e1)"
      "outp 1 e1 = outp 1 e @ l @ [10]" "\<And>g. g \<in> fds \<Longrightarrow> inp g e1 = inp g e"
      using byte_io_write[OF io] by blast
    have "map buf [p..<?q + 1] = l @ [10]" using sp(1,2) by simp
    then have "grep_lines io pat p buf e = grep_lines io pat (?q + 1) buf e1"
      using q tx buf True w(1) by (subst grep_lines.simps) (simp add: Let_def del: fun_upd_upd)
    then show ?thesis using ih[of buf e1] w True line(1) by auto
  next
    case False
    then have "grep_lines io pat p buf e = grep_lines io pat (?q + 1) ?b e"
      using q tx by (subst grep_lines.simps) (simp add: Let_def)
    then show ?thesis using ih[of ?b e] False line(1) by auto
  qed
qed

lemma map_mem_put:
  "map buf [0..<m] = t \<Longrightarrow> map (mem_put m bs buf) [0..<m + length bs] = t @ bs"
  by (rule nth_equalityI) (auto simp: mem_put_def nth_append)

lemma map_umemmove:
  "p \<le> m \<Longrightarrow> map (umemmove 0 p (int (m - p)) buf) [0..<m - p] = map buf [p..<m]"
  by (rule nth_equalityI) (auto simp: umemmove_apply)

lemma long_line:
  assumes "10 \<notin> set t" and "\<forall>l\<in>set (clines (t @ xs)). length l \<le> k" and "k < length t"
  shows "clines (t @ xs) = []"
proof (cases "10 \<in> set xs")
  case True
  then obtain l ys where "xs = l @ 10 # ys" "10 \<notin> set l" by (meson split_list_first)
  then have "clines (t @ xs) = (t @ l) # clines ys" using assms(1) clines_line(1)[of "t @ l"] by simp
  then show ?thesis using assms by simp
qed (use assms in simp)

lemma grep_loop_spec:
  assumes io: "byte_io io fds inp outp" "1 \<in> fds" "fd \<in> fds"
  shows "map buf [0..<m] = t \<Longrightarrow> m < 1024 \<Longrightarrow> 10 \<notin> set t \<Longrightarrow> 0 \<notin> set (t @ inp fd e) \<Longrightarrow>
    \<forall>l\<in>set (clines (t @ inp fd e)). length l \<le> 1022 \<Longrightarrow>
    \<exists>buf' e'. grep_loop io pat fd m buf e = Some (buf', e')
      \<and> outp 1 e' = outp 1 e @ selected pat (clines (t @ inp fd e))"
proof (induction "length (inp fd e)" arbitrary: t m buf e rule: less_induct)
  case less
  note prems = less(2-)
  obtain bs e1 where r: "u_read io fd (1024 - m - 1) e = (Some bs, e1)" "inp fd e = bs @ inp fd e1"
    "length bs \<le> 1024 - m - 1" "bs = [] \<Longrightarrow> 1024 - m - 1 = 0 \<or> inp fd e = []" "outp 1 e1 = outp 1 e"
    using byte_io_read[OF io(1,3), of "1024 - m - 1" e] io(2) by metis
  have len: "length t = m" using prems(1) by auto
  show ?case
  proof (cases "bs = []")
    case True
    then have "clines (t @ inp fd e) = []"
      using r(2,4) prems len long_line[of t "inp fd e" 1022] by auto
    then show ?thesis using r True by (subst grep_loop.simps) simp
  next
    case False
    let ?m = "m + length bs" and ?b = "(mem_put m bs buf)(m + length bs := 0)"
    have b: "map ?b [0..<?m] = t @ bs" using map_mem_put[OF prems(1), of bs] by (simp add: map_fun_upd)
    have "?m < 1024" "0 \<notin> set (t @ bs)" using r(2,3) prems(2,4) by auto
    then obtain p buf2 e2 where g: "grep_lines io pat 0 ?b e1 = (p, buf2, e2)" "p \<le> ?m"
      "map buf2 [p..<?m] = ctail (t @ bs)" "outp 1 e2 = outp 1 e1 @ selected pat (clines (t @ bs))"
      "inp fd e2 = inp fd e1"
      using grep_lines_spec[OF io(1,2) _ b, of pat e1] io(3) by auto
    let ?b2 = "umemmove 0 p (int (?m - p)) buf2"
    have lines: "clines (t @ inp fd e) = clines (t @ bs) @ clines (ctail (t @ bs) @ inp fd e2)"
      using clines_append[of "t @ bs" "inp fd e1"] r(2) g(5) by simp
    have "\<exists>buf' e'. grep_loop io pat fd (?m - p) ?b2 e2 = Some (buf', e')
        \<and> outp 1 e' = outp 1 e2 @ selected pat (clines (ctail (t @ bs) @ inp fd e2))"
    proof (rule less(1))
      show "length (inp fd e2) < length (inp fd e)" using r(2) g(5) False by simp
      show "map ?b2 [0..<?m - p] = ctail (t @ bs)" using map_umemmove[OF g(2)] g(3) by simp
      show "10 \<notin> set (ctail (t @ bs))" by (rule ctail_no_newline)
      show "0 \<notin> set (ctail (t @ bs) @ inp fd e2)" using set_ctail[of "t @ bs"] prems(4) r(2) g(5) by auto
      show "?m - p < 1024" using \<open>?m < 1024\<close> by simp
      show "\<forall>l\<in>set (clines (ctail (t @ bs) @ inp fd e2)). length l \<le> 1022" using prems(5) lines by simp
    qed
    moreover have "grep_loop io pat fd m buf e = grep_loop io pat fd (?m - p) ?b2 e2"
      using r(1) g(1) False by (subst grep_loop.simps) (simp add: Let_def)
    ultimately show ?thesis using g(4) r(5) lines by auto
  qed
qed

text \<open>
  C9. \<^verbatim>\<open>grep\<close> prints exactly the matching lines. However the kernel splits the input into reads, if
  the input has no NUL and no complete line of more than 1022 bytes, \<^verbatim>\<open>grep\<close> returns and has appended
  to its output, in order and each with its newline, the complete input lines that \<^verbatim>\<open>match\<close> accepts
  and nothing else.
\<close>

theorem grep_prints_matching_lines:
  assumes "byte_io io fds inp outp" and "1 \<in> fds" and "fd \<in> fds"
    and "0 \<notin> set (inp fd e)" and "\<forall>l\<in>set (clines (inp fd e)). length l \<le> 1022"
  shows "\<exists>buf' e'. grep io pattern fd buf e = Some (buf', e')
    \<and> outp 1 e' = outp 1 e @ concat (map (\<lambda>l. l @ [10]) (filter (match pattern) (clines (inp fd e))))"
  using grep_loop_spec[OF assms(1-3), of buf 0 "[]" e pattern] assms(4,5)
  by (simp add: grep_def selected_def)

definition grep_ex :: tapes where
  "grep_ex = ((\<lambda>_. [])(0 := bytes ''ab'' @ [10] @ bytes ''xyz'' @ [10] @ bytes ''abc'' @ [10]), \<lambda>_. [])"

theorem grep_prints_matching_lines_witness:
  "\<exists>buf' e'. grep tape_io (bytes ''b'') 0 (\<lambda>_. 0) grep_ex = Some (buf', e')
    \<and> snd e' 1 = bytes ''ab'' @ [10] @ bytes ''abc'' @ [10]"
proof -
  have inp: "fst grep_ex 0 = bytes ''ab'' @ 10 # bytes ''xyz'' @ 10 # bytes ''abc'' @ [10]"
    by (simp add: grep_ex_def)
  have n: "10 \<notin> set (bytes ''ab'')" "10 \<notin> set (bytes ''xyz'')" "10 \<notin> set (bytes ''abc'')"
    by code_simp+
  have ls: "clines (fst grep_ex 0) = [bytes ''ab'', bytes ''xyz'', bytes ''abc'']"
    unfolding inp using n by simp
  have m: "match (bytes ''b'') (bytes ''ab'')" "\<not> match (bytes ''b'') (bytes ''xyz'')"
    "match (bytes ''b'') (bytes ''abc'')"
    by code_simp+
  have "0 \<notin> set (fst grep_ex 0)" unfolding inp by code_simp
  moreover have "\<forall>l\<in>set (clines (fst grep_ex 0)). length l \<le> 1022" unfolding ls by (simp add: bytes_def)
  ultimately show ?thesis
    using grep_prints_matching_lines[OF byte_io_tape, of 0 grep_ex "bytes ''b''" "\<lambda>_. 0"] m
    by (simp add: ls) (simp add: grep_ex_def)
qed

end
