(* ===== verification/Sh.thy ===== *)
theory Sh
  imports Ulib
begin

text \<open>
  The parser of the shell, \<^verbatim>\<open>user/sh.c\<close>. The command line is the C string \<open>buf\<close>; the pointers into
  it are positions, \<^verbatim>\<open>es\<close> being its length, and \<^const>\<open>at\<close> reads the NUL there. A command node keeps
  its strings as pairs of positions, as the source does until \<^verbatim>\<open>nulterminate\<close>.

  The parsing functions return \<open>Some (Inl msg)\<close> for \<^verbatim>\<open>panic(msg)\<close> and \<open>Some (Inr x)\<close> for a result.
  Their mutual recursion is cut off by fuel, \<open>None\<close> being its exhaustion; \<open>4 * length buf + 4\<close>, which
  \<open>parsecmd\<close> uses, is shown to be always enough.
\<close>

definition MAXARGS :: nat where "MAXARGS = 10"

datatype cmd =
    EXEC "(nat \<times> nat) list"
  | REDIR cmd nat nat int int
  | PIPE cmd cmd
  | LIST cmd cmd
  | BACK cmd

section \<open>Tokens\<close>

definition whitespace :: "u8 list" where "whitespace = [32, 9, 13, 10, 11]"
definition symbols :: "u8 list" where "symbols = [60, 124, 62, 38, 59, 40, 41]"

function skip_ws :: "u8 list \<Rightarrow> nat \<Rightarrow> nat" where
  "skip_ws buf s = (if s < length buf \<and> strchr whitespace (at buf s) \<noteq> None then skip_ws buf (s + 1) else s)"
  by pat_completeness auto
termination
  by (relation "measure (\<lambda>(buf, s). length buf - s)") auto

function skip_word :: "u8 list \<Rightarrow> nat \<Rightarrow> nat" where
  "skip_word buf s =
     (if s < length buf \<and> strchr whitespace (at buf s) = None \<and> strchr symbols (at buf s) = None
      then skip_word buf (s + 1) else s)"
  by pat_completeness auto
termination
  by (relation "measure (\<lambda>(buf, s). length buf - s)") auto

declare skip_ws.simps [simp del] skip_word.simps [simp del]

text \<open>The token's code, its bounds \<^verbatim>\<open>q\<close> and \<^verbatim>\<open>eq\<close>, and the advanced position.\<close>

definition gettoken :: "u8 list \<Rightarrow> nat \<Rightarrow> u8 \<times> nat \<times> nat \<times> nat" where
  "gettoken buf ps =
     (let s = skip_ws buf ps;
          q = s;
          c = at buf s;
          (ret, s) =
            (if c = 0 then (c, s)
             else if c = 124 \<or> c = 40 \<or> c = 41 \<or> c = 59 \<or> c = 38 \<or> c = 60 then (c, s + 1)
             else if c = 62 then (if at buf (s + 1) = 62 then (43, s + 2) else (c, s + 1))
             else (97, skip_word buf s));
          eq = s
      in (ret, q, eq, skip_ws buf s))"

definition peek :: "u8 list \<Rightarrow> nat \<Rightarrow> u8 list \<Rightarrow> bool \<times> nat" where
  "peek buf ps toks =
     (let s = skip_ws buf ps
      in (at buf s \<noteq> 0 \<and> strchr toks (at buf s) \<noteq> None, s))"

text \<open>The position after a token.\<close>

abbreviation advance :: "u8 list \<Rightarrow> nat \<Rightarrow> nat" where
  "advance buf ps \<equiv> snd (snd (snd (gettoken buf ps)))"

lemma skip_ws_ge: "s \<le> skip_ws buf s"
  by (induction buf s rule: skip_ws.induct) (subst skip_ws.simps, auto)

lemma skip_word_ge: "s \<le> skip_word buf s"
  by (induction buf s rule: skip_word.induct) (subst skip_word.simps, auto)

lemma skip_ws_le: "s \<le> length buf \<Longrightarrow> skip_ws buf s \<le> length buf"
  by (induction buf s rule: skip_ws.induct) (subst skip_ws.simps, auto)

lemma skip_word_le: "s \<le> length buf \<Longrightarrow> skip_word buf s \<le> length buf"
  by (induction buf s rule: skip_word.induct) (subst skip_word.simps, auto)

lemma skip_ws_stop: "skip_ws buf s < length buf \<Longrightarrow> at buf (skip_ws buf s) \<notin> set whitespace"
proof (induction buf s rule: skip_ws.induct)
  case (1 buf s)
  show ?case
  proof (cases "s < length buf \<and> strchr whitespace (at buf s) \<noteq> None")
    case True
    then have "skip_ws buf s = skip_ws buf (s + 1)" by (subst skip_ws.simps) simp
    then show ?thesis using 1 True by simp
  next
    case False
    then have "skip_ws buf s = s" by (subst skip_ws.simps) (simp only: if_False)
    then show ?thesis using 1(2) False by (simp add: strchr_None)
  qed
qed

lemma skip_word_stop:
  "skip_word buf s < length buf \<Longrightarrow> at buf (skip_word buf s) \<in> set whitespace \<union> set symbols"
proof (induction buf s rule: skip_word.induct)
  case (1 buf s)
  show ?case
  proof (cases "s < length buf \<and> strchr whitespace (at buf s) = None \<and> strchr symbols (at buf s) = None")
    case True
    then have "skip_word buf s = skip_word buf (s + 1)" by (subst skip_word.simps) simp
    then show ?thesis using 1 True by simp
  next
    case False
    then have "skip_word buf s = s" by (subst skip_word.simps) (simp only: if_False)
    then show ?thesis using 1(2) False by (auto simp: strchr_None)
  qed
qed

lemma skip_word_inside:
  "s \<le> i \<Longrightarrow> i < skip_word buf s \<Longrightarrow> i < length buf \<and> at buf i \<notin> set whitespace \<union> set symbols"
proof (induction buf s rule: skip_word.induct)
  case (1 buf s)
  show ?case
  proof (cases "s < length buf \<and> strchr whitespace (at buf s) = None \<and> strchr symbols (at buf s) = None")
    case True
    then have "skip_word buf s = skip_word buf (s + 1)" by (subst skip_word.simps) simp
    then show ?thesis using 1 True by (cases "i = s") (auto simp: strchr_None)
  next
    case False
    then have "skip_word buf s = s" by (subst skip_word.simps) (simp only: if_False)
    then show ?thesis using 1(2,3) by simp
  qed
qed

lemma at_nonzero: "at buf s \<noteq> 0 \<Longrightarrow> s < length buf"
  by (simp add: at_def split: if_splits)

lemma skip_word_gt:
  assumes "at buf s \<noteq> 0" and "at buf s \<notin> set whitespace" and "at buf s \<notin> set symbols"
  shows "s < skip_word buf s"
  using assms at_nonzero[OF assms(1)] skip_word_ge[of "s + 1" buf]
  by (subst skip_word.simps) (auto simp: strchr_None)

lemma gettoken_progress:
  assumes "at buf (skip_ws buf ps) \<noteq> 0"
  shows "ps < advance buf ps" and "advance buf ps \<le> length buf"
proof -
  let ?s = "skip_ws buf ps"
  let ?r = "snd (if at buf ?s = 124 \<or> at buf ?s = 40 \<or> at buf ?s = 41 \<or> at buf ?s = 59 \<or> at buf ?s = 38 \<or> at buf ?s = 60
      then (at buf ?s, ?s + 1)
      else if at buf ?s = 62 then (if at buf (?s + 1) = 62 then (43, ?s + 2) else (at buf ?s, ?s + 1))
      else (97, skip_word buf ?s))"
  have s: "?s < length buf" using assms by (rule at_nonzero)
  have adv: "advance buf ps = skip_ws buf ?r"
    using assms unfolding gettoken_def by (auto simp: Let_def split: prod.split)
  have "?s < ?r"
    using skip_word_gt[OF assms] skip_ws_stop[OF s] by (auto simp: symbols_def)
  moreover have "?r \<le> length buf"
    using s skip_word_le[of ?s buf] at_nonzero[of buf "?s + 1"] by auto
  ultimately show "ps < advance buf ps" "advance buf ps \<le> length buf"
    unfolding adv using skip_ws_ge[of ps buf] skip_ws_ge[of ?r buf] skip_ws_le[of ?r buf] by simp_all
qed

lemma gettoken_mono: "ps \<le> advance buf ps"
proof (cases "at buf (skip_ws buf ps) = 0")
  case True
  then show ?thesis
    using skip_ws_ge[of ps buf] skip_ws_ge[of "skip_ws buf ps" buf] by (simp add: gettoken_def Let_def)
next
  case False
  then show ?thesis using gettoken_progress(1) less_imp_le by blast
qed

lemma gettoken_le: "ps \<le> length buf \<Longrightarrow> advance buf ps \<le> length buf"
  using gettoken_progress(2)[of buf ps] by (cases "at buf (skip_ws buf ps) = 0") (simp_all add: gettoken_def skip_ws_le Let_def)

lemma peek_progress:
  assumes "peek buf ps toks = (True, ps')"
  shows "ps' = skip_ws buf ps" and "ps \<le> ps'" and "ps' < length buf" and "ps' < advance buf ps'"
    and "at buf (skip_ws buf ps') \<noteq> 0" and "at buf ps' \<in> set toks"
proof -
  show ps': "ps' = skip_ws buf ps" using assms by (simp add: peek_def Let_def)
  then show "ps \<le> ps'" by (simp add: skip_ws_ge)
  have nz: "at buf ps' \<noteq> 0" "at buf ps' \<in> set toks"
    using assms by (auto simp: peek_def Let_def strchr_ex)
  then show "ps' < length buf" "at buf ps' \<in> set toks" using at_nonzero by blast+
  then have "at buf ps' \<notin> set whitespace" using skip_ws_stop ps' by blast
  then have "skip_ws buf ps' = ps'" by (subst skip_ws.simps) (simp add: strchr_None[THEN iffD2])
  then show "at buf (skip_ws buf ps') \<noteq> 0" "ps' < advance buf ps'"
    using nz gettoken_progress(1)[of buf ps'] by auto
qed

lemma two_tokens:
  assumes "(True, ps1) = peek buf ps toks" and "(a, b, c, ps2) = gettoken buf ps1"
    and "(a', b', c', ps3) = gettoken buf ps2"
  shows "length buf - ps3 < length buf - ps"
  using peek_progress(2,3,4)[OF assms(1)[symmetric]] gettoken_mono[of ps2 buf] assms(2,3)
  by (metis diff_less_mono2 le_less_trans less_le_trans order.strict_trans snd_conv)

section \<open>Parsing\<close>

type_synonym 'a parse = "(string + 'a) option"

definition pbind :: "'a parse \<Rightarrow> ('a \<Rightarrow> 'b parse) \<Rightarrow> 'b parse" where
  "pbind m f = (case m of None \<Rightarrow> None | Some (Inl e) \<Rightarrow> Some (Inl e) | Some (Inr x) \<Rightarrow> f x)"

lemma pbind_simps [simp]:
  "pbind None f = None" "pbind (Some (Inl e)) f = Some (Inl e)" "pbind (Some (Inr x)) f = f x"
  by (simp_all add: pbind_def)

text \<open>The node for a redirection token.\<close>

definition redirect :: "u8 \<Rightarrow> cmd \<Rightarrow> nat \<Rightarrow> nat \<Rightarrow> cmd" where
  "redirect tok cmd q eq =
     (if tok = 60 then REDIR cmd q eq O_RDONLY 0
      else if tok = 62 then REDIR cmd q eq (O_WRONLY OR O_CREATE OR O_TRUNC) 1
      else if tok = 43 then REDIR cmd q eq (O_WRONLY OR O_CREATE) 1
      else cmd)"

function parseredirs :: "u8 list \<Rightarrow> cmd \<Rightarrow> nat \<Rightarrow> (cmd \<times> nat) parse" where
  "parseredirs buf cmd ps =
     (case peek buf ps [60, 62] of (b, ps) \<Rightarrow>
        if b then
          (case gettoken buf ps of (tok, _, _, ps) \<Rightarrow>
             case gettoken buf ps of (t, q, eq, ps) \<Rightarrow>
               if t \<noteq> 97 then Some (Inl ''missing file for redirection'')
               else parseredirs buf (redirect tok cmd q eq) ps)
        else Some (Inr (cmd, ps)))"
  by pat_completeness auto
termination
  by (relation "measure (\<lambda>(buf, cmd, ps). length buf - ps)") (auto dest: two_tokens)

declare parseredirs.simps [simp del]

text \<open>Appends an argument to the \<^verbatim>\<open>EXEC\<close> node inside the redirections wrapped around it.\<close>

fun add_arg :: "nat \<times> nat \<Rightarrow> cmd \<Rightarrow> cmd" where
  "add_arg a (EXEC argv) = EXEC (argv @ [a])"
| "add_arg a (REDIR c q eq m fd) = REDIR (add_arg a c) q eq m fd"
| "add_arg a c = c"

lemma one_token:
  assumes "(False, ps1) = peek buf ps toks" and "(tok, q, eq, ps2) = gettoken buf ps1" and "tok \<noteq> 0"
  shows "length buf - ps2 < length buf - ps"
proof -
  have ps1: "ps1 = skip_ws buf ps" using assms(1) by (simp add: peek_def Let_def)
  have "at buf (skip_ws buf ps1) \<noteq> 0" using assms(2,3) by (auto simp: gettoken_def Let_def split: if_splits)
  from gettoken_progress[OF this] show ?thesis
    using assms(2) skip_ws_ge[of ps buf] ps1 by (metis diff_less_mono2 le_less_trans less_le_trans snd_conv)
qed

lemma parseredirs_stop: "peek buf ps [60, 62] = (False, ps1) \<Longrightarrow> parseredirs buf cmd ps = Some (Inr (cmd, ps1))"
  by (subst parseredirs.simps) simp

lemma parseredirs_step:
  "peek buf ps [60, 62] = (True, ps1) \<Longrightarrow> gettoken buf ps1 = (tok, a, b, ps2) \<Longrightarrow> gettoken buf ps2 = (t, q, eq, ps3) \<Longrightarrow>
   parseredirs buf cmd ps =
     (if t \<noteq> 97 then Some (Inl ''missing file for redirection'') else parseredirs buf (redirect tok cmd q eq) ps3)"
  by (subst parseredirs.simps) simp

text \<open>Induction over the redirections that are parsed.\<close>

lemma redirs_induct [consumes 1, case_names stop step]:
  assumes "parseredirs buf cmd ps = Some (Inr (cmd', ps'))"
    and "\<And>cmd ps ps1. peek buf ps [60, 62] = (False, ps1) \<Longrightarrow> P cmd ps cmd ps1"
    and "\<And>cmd ps ps1 tok a b ps2 q eq ps3 cmd' ps'. peek buf ps [60, 62] = (True, ps1) \<Longrightarrow>
      gettoken buf ps1 = (tok, a, b, ps2) \<Longrightarrow> gettoken buf ps2 = (97, q, eq, ps3) \<Longrightarrow>
      P (redirect tok cmd q eq) ps3 cmd' ps' \<Longrightarrow> P cmd ps cmd' ps'"
  shows "P cmd ps cmd' ps'"
  using assms(1)
proof (induction "length buf - ps" arbitrary: cmd ps rule: less_induct)
  case less
  obtain b ps1 where p: "peek buf ps [60, 62] = (b, ps1)" by fastforce
  obtain tok q1 eq1 ps2 where g1: "gettoken buf ps1 = (tok, q1, eq1, ps2)" by (metis prod_cases4)
  obtain t q eq ps3 where g2: "gettoken buf ps2 = (t, q, eq, ps3)" by (metis prod_cases4)
  show ?case
  proof (cases b)
    case True
    then have "t = 97" "parseredirs buf (redirect tok cmd q eq) ps3 = Some (Inr (cmd', ps'))"
      using less(2) parseredirs_step[of buf ps ps1 tok q1 eq1 ps2 t q eq ps3 cmd] p g1 g2 by (auto split: if_splits)
    moreover have "length buf - ps3 < length buf - ps"
      using two_tokens[of ps1 buf ps "[60, 62]"] p g1 g2 True by simp
    ultimately have "P (redirect tok cmd q eq) ps3 cmd' ps'" using less(1) by blast
    then show ?thesis using assms(3)[of ps ps1 tok q1 eq1 ps2 q eq ps3] p g1 g2 True \<open>t = 97\<close> by simp
  next
    case False
    then show ?thesis using less(2) parseredirs_stop[of buf ps ps1 cmd] p assms(2) by auto
  qed
qed

lemma peek_ge: "peek buf ps toks = (b, ps') \<Longrightarrow> ps \<le> ps' \<and> (ps \<le> length buf \<longrightarrow> ps' \<le> length buf)"
  by (auto simp: peek_def Let_def skip_ws_ge skip_ws_le)

lemma gettoken_ge: "gettoken buf ps = (a, b, c, ps') \<Longrightarrow> ps \<le> ps' \<and> (ps \<le> length buf \<longrightarrow> ps' \<le> length buf)"
  using gettoken_mono[of ps buf] gettoken_le[of ps buf] by simp

lemma parseredirs_ge:
  "parseredirs buf cmd ps = Some (Inr (cmd', ps')) \<Longrightarrow> ps \<le> ps' \<and> (ps \<le> length buf \<longrightarrow> ps' \<le> length buf)"
proof (induction rule: redirs_induct)
  case (stop cmd ps ps1)
  then show ?case by (rule peek_ge)
next
  case (step cmd ps ps1 tok a b ps2 q eq ps3 cmd' ps')
  then show ?case using peek_ge[OF step(1)] gettoken_ge[OF step(2)] gettoken_ge[OF step(3)] by auto
qed

lemma parseredirs_total: "\<exists>r. parseredirs buf cmd ps = Some r"
proof (induction "length buf - ps" arbitrary: cmd ps rule: less_induct)
  case less
  obtain b ps1 where p: "peek buf ps [60, 62] = (b, ps1)" by fastforce
  obtain tok q1 eq1 ps2 where g1: "gettoken buf ps1 = (tok, q1, eq1, ps2)" by (metis prod_cases4)
  obtain t q eq ps3 where g2: "gettoken buf ps2 = (t, q, eq, ps3)" by (metis prod_cases4)
  show ?case
  proof (cases b)
    case True
    then have "length buf - ps3 < length buf - ps" using two_tokens[of ps1 buf ps "[60, 62]"] p g1 g2 by simp
    then show ?thesis
      using less True parseredirs_step[of buf ps ps1 tok q1 eq1 ps2 t q eq ps3 cmd] p g1 g2 by auto
  next
    case False
    then show ?thesis using parseredirs_stop[of buf ps ps1 cmd] p by simp
  qed
qed

text \<open>The argument loop of \<^verbatim>\<open>parseexec\<close>.\<close>

function parseargs :: "u8 list \<Rightarrow> nat \<Rightarrow> cmd \<Rightarrow> nat \<Rightarrow> (cmd \<times> nat) parse" where
  "parseargs buf argc ret ps =
     (case peek buf ps [124, 41, 38, 59] of (b, ps) \<Rightarrow>
        if b then Some (Inr (ret, ps))
        else (case gettoken buf ps of (tok, q, eq, ps) \<Rightarrow>
                if tok = 0 then Some (Inr (ret, ps))
                else if tok \<noteq> 97 then Some (Inl ''syntax'')
                else if argc + 1 \<ge> MAXARGS then Some (Inl ''too many args'')
                else (case parseredirs buf (add_arg (q, eq) ret) ps of
                        None \<Rightarrow> None
                      | Some (Inl e) \<Rightarrow> Some (Inl e)
                      | Some (Inr (ret, ps)) \<Rightarrow> parseargs buf (argc + 1) ret ps)))"
  by pat_completeness auto
termination
  by (relation "measure (\<lambda>(buf, argc, ret, ps). MAXARGS - argc)") auto

text \<open>The loop over \<^verbatim>\<open>&\<close> in \<^verbatim>\<open>parseline\<close>.\<close>

function parseback :: "u8 list \<Rightarrow> cmd \<Rightarrow> nat \<Rightarrow> cmd \<times> nat" where
  "parseback buf cmd ps =
     (case peek buf ps [38] of (b, ps) \<Rightarrow>
        if b then parseback buf (BACK cmd) (advance buf ps) else (cmd, ps))"
  by pat_completeness auto
termination
proof (relation "measure (\<lambda>(buf, cmd, ps). length buf - ps)")
  fix buf :: "u8 list" and cmd ps b ps1 assume "(b, ps1) = peek buf ps [38]" and b
  then show "((buf, BACK cmd, advance buf ps1), buf, cmd, ps) \<in> measure (\<lambda>(buf, cmd, ps). length buf - ps)"
    using peek_progress(2,3,4)[of buf ps "[38]" ps1] by auto
qed simp

declare parseargs.simps [simp del] parseback.simps [simp del]

fun parseline :: "nat \<Rightarrow> u8 list \<Rightarrow> nat \<Rightarrow> (cmd \<times> nat) parse"
  and parsepipe :: "nat \<Rightarrow> u8 list \<Rightarrow> nat \<Rightarrow> (cmd \<times> nat) parse"
  and parseexec :: "nat \<Rightarrow> u8 list \<Rightarrow> nat \<Rightarrow> (cmd \<times> nat) parse"
  and parseblock :: "nat \<Rightarrow> u8 list \<Rightarrow> nat \<Rightarrow> (cmd \<times> nat) parse" where
  "parseline 0 buf ps = None"
| "parsepipe 0 buf ps = None"
| "parseexec 0 buf ps = None"
| "parseblock 0 buf ps = None"
| "parseline (Suc fuel) buf ps =
     pbind (parsepipe fuel buf ps) (\<lambda>(cmd, ps).
       case parseback buf cmd ps of (cmd, ps) \<Rightarrow>
       case peek buf ps [59] of (b, ps) \<Rightarrow>
         if b then pbind (parseline fuel buf (advance buf ps)) (\<lambda>(right, ps). Some (Inr (LIST cmd right, ps)))
         else Some (Inr (cmd, ps)))"
| "parsepipe (Suc fuel) buf ps =
     pbind (parseexec fuel buf ps) (\<lambda>(cmd, ps).
       case peek buf ps [124] of (b, ps) \<Rightarrow>
         if b then pbind (parsepipe fuel buf (advance buf ps)) (\<lambda>(right, ps). Some (Inr (PIPE cmd right, ps)))
         else Some (Inr (cmd, ps)))"
| "parseexec (Suc fuel) buf ps =
     (case peek buf ps [40] of (b, ps) \<Rightarrow>
        if b then parseblock fuel buf ps
        else pbind (parseredirs buf (EXEC []) ps) (\<lambda>(ret, ps). parseargs buf 0 ret ps))"
| "parseblock (Suc fuel) buf ps =
     (case peek buf ps [40] of (b, ps) \<Rightarrow>
        if \<not> b then Some (Inl ''parseblock'')
        else pbind (parseline fuel buf (advance buf ps)) (\<lambda>(cmd, ps).
               case peek buf ps [41] of (b, ps) \<Rightarrow>
                 if \<not> b then Some (Inl ''syntax - missing )'')
                 else parseredirs buf cmd (advance buf ps)))"

fun nulterminate :: "cmd \<Rightarrow> carr \<Rightarrow> carr" where
  "nulterminate (EXEC argv) b = fold (\<lambda>(q, eq) b. b(eq := 0)) argv b"
| "nulterminate (REDIR c q eq m fd) b = (nulterminate c b)(eq := 0)"
| "nulterminate (PIPE l r) b = nulterminate r (nulterminate l b)"
| "nulterminate (LIST l r) b = nulterminate r (nulterminate l b)"
| "nulterminate (BACK c) b = nulterminate c b"

text \<open>The tree and the buffer with the strings terminated.\<close>

definition parsecmd :: "u8 list \<Rightarrow> (cmd \<times> carr) parse" where
  "parsecmd s =
     pbind (parseline (4 * length s + 4) s 0) (\<lambda>(cmd, ps).
       case peek s ps [] of (_, ps) \<Rightarrow>
         if ps \<noteq> length s then Some (Inl ''syntax'')
         else Some (Inr (cmd, nulterminate cmd (at s))))"

section \<open>Termination\<close>

lemma parseargs_total: "\<exists>r. parseargs buf argc ret ps = Some r"
proof (induction "MAXARGS - argc" arbitrary: argc ret ps rule: less_induct)
  case less
  obtain b ps1 where p: "peek buf ps [124, 41, 38, 59] = (b, ps1)" by fastforce
  obtain tok q eq ps2 where g: "gettoken buf ps1 = (tok, q, eq, ps2)" by (metis prod_cases4)
  obtain r where r: "parseredirs buf (add_arg (q, eq) ret) ps2 = Some r" using parseredirs_total by blast
  have "\<exists>r. parseargs buf (argc + 1) ret ps = Some r" if "\<not> argc + 1 \<ge> MAXARGS" for ret ps
    using that by (intro less) simp
  then show ?case
    using p g r by (subst parseargs.simps) (cases r; simp split: prod.split)
qed

lemma parseargs_ge:
  "parseargs buf argc ret ps = Some (Inr (ret', ps')) \<Longrightarrow> ps \<le> ps' \<and> (ps \<le> length buf \<longrightarrow> ps' \<le> length buf)"
proof (induction "MAXARGS - argc" arbitrary: argc ret ps rule: less_induct)
  case less
  obtain b ps1 where p: "peek buf ps [124, 41, 38, 59] = (b, ps1)" by fastforce
  obtain tok q eq ps2 where g: "gettoken buf ps1 = (tok, q, eq, ps2)" by (metis prod_cases4)
  note eq = less(2)[unfolded parseargs.simps[of buf argc]]
  consider "ps' = ps1" | "ps' = ps2"
    | ret1 ps3 where "parseredirs buf (add_arg (q, eq) ret) ps2 = Some (Inr (ret1, ps3))" "argc + 1 < MAXARGS"
      "parseargs buf (argc + 1) ret1 ps3 = Some (Inr (ret', ps'))"
    using eq p g by (auto split: if_splits option.splits sum.splits)
  then show ?case
  proof cases
    case 3
    then have "MAXARGS - (argc + 1) < MAXARGS - argc" by simp
    from less(1)[OF this 3(3)] show ?thesis
      using parseredirs_ge[OF 3(1)] peek_ge[OF p] gettoken_ge[OF g] by auto
  qed (use peek_ge[OF p] gettoken_ge[OF g] in auto)
qed

lemma parseback_ge: "parseback buf cmd ps = (cmd', ps') \<Longrightarrow> ps \<le> ps' \<and> (ps \<le> length buf \<longrightarrow> ps' \<le> length buf)"
proof (induction "length buf - ps" arbitrary: cmd ps rule: less_induct)
  case less
  obtain b ps1 where p: "peek buf ps [38] = (b, ps1)" by fastforce
  show ?case
  proof (cases b)
    case True
    then have "parseback buf (BACK cmd) (advance buf ps1) = (cmd', ps')"
      using less(2) p by (subst (asm) parseback.simps) simp
    moreover have "length buf - advance buf ps1 < length buf - ps"
      using peek_progress(2,3,4)[of buf ps "[38]" ps1] p True by simp
    ultimately show ?thesis
      using less(1) peek_ge[OF p] gettoken_mono[of ps1 buf] gettoken_le[of ps1 buf] by fastforce
  next
    case False
    then show ?thesis using less(2) p peek_ge[OF p] by (subst (asm) parseback.simps) simp
  qed
qed

lemma pbind_Inr: "pbind m f = Some (Inr x) \<longleftrightarrow> (\<exists>y. m = Some (Inr y) \<and> f y = Some (Inr x))"
  by (cases m) (auto simp: pbind_def split: sum.splits)

lemma pbind_None: "pbind m f = None \<longleftrightarrow> m = None \<or> (\<exists>y. m = Some (Inr y) \<and> f y = None)"
  by (cases m) (auto simp: pbind_def split: sum.splits)

abbreviation moves_on :: "u8 list \<Rightarrow> nat \<Rightarrow> nat \<Rightarrow> bool" where
  "moves_on buf ps ps' \<equiv> ps \<le> ps' \<and> (ps \<le> length buf \<longrightarrow> ps' \<le> length buf)"

lemma moves_on_trans: "moves_on buf a b \<Longrightarrow> moves_on buf b c \<Longrightarrow> moves_on buf a c"
  by auto

lemma advance_ge: "moves_on buf ps (advance buf ps)"
  using gettoken_mono gettoken_le by auto

text \<open>Induction over a successful parse, for a property of start, tree and end position.\<close>

locale parse_property =
  fixes buf :: "u8 list" and Q :: "nat \<Rightarrow> cmd \<Rightarrow> nat \<Rightarrow> bool"
  assumes skip: "Q ps c p1 \<Longrightarrow> peek buf p1 toks = (b, p2) \<Longrightarrow> Q ps c p2"
    and start: "peek buf ps toks = (b, p1) \<Longrightarrow> Q p1 c p2 \<Longrightarrow> Q ps c p2"
    and bg: "Q ps c p1 \<Longrightarrow> peek buf p1 [38] = (True, p2) \<Longrightarrow> Q ps (BACK c) (advance buf p2)"
    and seq: "Q ps c p1 \<Longrightarrow> peek buf p1 [59] = (True, p2) \<Longrightarrow> Q (advance buf p2) r p3 \<Longrightarrow> Q ps (LIST c r) p3"
    and pipe: "Q ps c p1 \<Longrightarrow> peek buf p1 [124] = (True, p2) \<Longrightarrow> Q (advance buf p2) r p3 \<Longrightarrow> Q ps (PIPE c r) p3"
    and block: "peek buf ps [40] = (True, p1) \<Longrightarrow> Q (advance buf p1) c p2 \<Longrightarrow> peek buf p2 [41] = (True, p3) \<Longrightarrow>
      parseredirs buf c (advance buf p3) = Some (Inr (c', p4)) \<Longrightarrow> Q ps c' p4"
    and exec: "peek buf ps [40] = (False, p1) \<Longrightarrow> parseredirs buf (EXEC []) p1 = Some (Inr (r, p2)) \<Longrightarrow>
      parseargs buf 0 r p2 = Some (Inr (c, p3)) \<Longrightarrow> Q ps c p3"
begin

lemma parseback_Q: "Q ps c p1 \<Longrightarrow> parseback buf c p1 = (c', p2) \<Longrightarrow> Q ps c' p2"
proof (induction "length buf - p1" arbitrary: c p1 rule: less_induct)
  case less
  obtain b p where p: "peek buf p1 [38] = (b, p)" by fastforce
  show ?case
  proof (cases b)
    case True
    then have "parseback buf (BACK c) (advance buf p) = (c', p2)"
      using less(3) p by (subst (asm) parseback.simps) simp
    moreover have "length buf - advance buf p < length buf - p1"
      using peek_progress(2,3,4)[of buf p1 "[38]" p] p True by simp
    moreover have "Q ps (BACK c) (advance buf p)" using bg less(2) p True by simp
    ultimately show ?thesis using less(1) by blast
  next
    case False
    then show ?thesis using less p skip by (subst (asm) (2) parseback.simps) auto
  qed
qed

lemma parse_Q:
  "(parseline fuel buf ps = Some (Inr (c, p)) \<longrightarrow> Q ps c p) \<and>
   (parsepipe fuel buf ps = Some (Inr (c, p)) \<longrightarrow> Q ps c p) \<and>
   (parseexec fuel buf ps = Some (Inr (c, p)) \<longrightarrow> Q ps c p) \<and>
   (parseblock fuel buf ps = Some (Inr (c, p)) \<longrightarrow> Q ps c p)"
proof (induction fuel arbitrary: ps c p)
  case (Suc fuel)
  have "Q ps c p" if asm: "parseline (Suc fuel) buf ps = Some (Inr (c, p))"
  proof -
    obtain c1 p1 where 1: "parsepipe fuel buf ps = Some (Inr (c1, p1))" using asm by (auto simp: pbind_Inr)
    obtain c2 p2 where 2: "parseback buf c1 p1 = (c2, p2)" by fastforce
    obtain b p3 where 3: "peek buf p2 [59] = (b, p3)" by fastforce
    have Q: "Q ps c2 p2" using parseback_Q[OF _ 2] Suc 1 by blast
    show ?thesis using asm 1 2 3 Q skip[OF Q 3] seq[OF Q] Suc by (cases b) (auto simp: pbind_Inr)
  qed
  moreover have "Q ps c p" if asm: "parsepipe (Suc fuel) buf ps = Some (Inr (c, p))"
  proof -
    obtain c1 p1 where 1: "parseexec fuel buf ps = Some (Inr (c1, p1))" using asm by (auto simp: pbind_Inr)
    obtain b p2 where 2: "peek buf p1 [124] = (b, p2)" by fastforce
    have Q: "Q ps c1 p1" using Suc 1 by blast
    show ?thesis using asm 1 2 skip[OF Q 2] pipe[OF Q] Suc by (cases b) (auto simp: pbind_Inr)
  qed
  moreover have "Q ps c p" if asm: "parseexec (Suc fuel) buf ps = Some (Inr (c, p))"
  proof -
    obtain b p1 where 1: "peek buf ps [40] = (b, p1)" by fastforce
    show ?thesis using asm 1 start[OF 1] exec Suc by (cases b) (auto simp: pbind_Inr)
  qed
  moreover have "Q ps c p" if asm: "parseblock (Suc fuel) buf ps = Some (Inr (c, p))"
  proof -
    obtain b p1 where 1: "peek buf ps [40] = (b, p1)" by fastforce
    then have b: b using asm by (cases b) auto
    obtain c1 p2 where 2: "parseline fuel buf (advance buf p1) = Some (Inr (c1, p2))"
      using asm 1 b by (auto simp: pbind_Inr)
    obtain b' p3 where 3: "peek buf p2 [41] = (b', p3)" by fastforce
    have Q: "Q (advance buf p1) c1 p2" using Suc 2 by blast
    have "b'" "parseredirs buf c1 (advance buf p3) = Some (Inr (c, p))"
      using asm 1 b 2 3 by (auto split: if_splits)
    then show ?thesis using 1 b 3 block[OF _ Q] by simp
  qed
  ultimately show ?case by blast
qed simp

end

interpretation parse_pos: parse_property buf "\<lambda>ps c p. moves_on buf ps p" for buf
proof (unfold_locales, goal_cases)
  case (1 ps c p1 toks b p2)
  then show ?case using peek_ge[OF 1(2)] by auto
next
  case (2 ps toks b p1 c p2)
  then show ?case using peek_ge[OF 2(1)] by auto
next
  case (3 ps c p1 p2)
  then show ?case using peek_ge[OF 3(2)] advance_ge[of p2 buf] by auto
next
  case (4 ps c p1 p2 r p3)
  then show ?case using peek_ge[OF 4(2)] advance_ge[of p2 buf] by auto
next
  case (5 ps c p1 p2 r p3)
  then show ?case using peek_ge[OF 5(2)] advance_ge[of p2 buf] by auto
next
  case (6 ps p1 c p2 p3 c' p4)
  then show ?case
    using peek_ge[OF 6(1)] peek_ge[OF 6(3)] parseredirs_ge[OF 6(4)] advance_ge[of p1 buf] advance_ge[of p3 buf] by auto
next
  case (7 ps p1 r p2 c p3)
  then show ?case using peek_ge[OF 7(1)] parseredirs_ge[OF 7(2)] parseargs_ge[OF 7(3)] by auto
qed

lemmas parse_ge = parse_pos.parse_Q

lemma parse_fuel:
  assumes "ps \<le> length buf"
  shows "(4 * (length buf - ps) + 4 \<le> fuel \<longrightarrow> parseline fuel buf ps \<noteq> None) \<and>
    (4 * (length buf - ps) + 3 \<le> fuel \<longrightarrow> parsepipe fuel buf ps \<noteq> None) \<and>
    (4 * (length buf - ps) + 2 \<le> fuel \<longrightarrow> parseexec fuel buf ps \<noteq> None) \<and>
    (4 * (length buf - ps) + 1 \<le> fuel \<longrightarrow> parseblock fuel buf ps \<noteq> None)"
  using assms
proof (induction fuel arbitrary: ps)
  case (Suc fuel)
  have adv: "advance buf p \<le> length buf" "4 * (length buf - advance buf p) + 4 \<le> 4 * (length buf - q)"
    if "peek buf q toks = (True, p)" for q p toks
    using peek_progress(2,3,4)[OF that] gettoken_le[of p buf] by auto
  have "parseline (Suc fuel) buf ps \<noteq> None" if f: "4 * (length buf - ps) + 4 \<le> Suc fuel"
  proof
    assume "parseline (Suc fuel) buf ps = None"
    moreover have "parsepipe fuel buf ps \<noteq> None" using Suc f by simp
    ultimately obtain c p where 1: "parsepipe fuel buf ps = Some (Inr (c, p))"
      and n: "(case parseback buf c p of (cmd, ps) \<Rightarrow> case peek buf ps [59] of (b, ps) \<Rightarrow>
         if b then pbind (parseline fuel buf (advance buf ps)) (\<lambda>(right, ps). Some (Inr (LIST cmd right, ps)))
         else Some (Inr (cmd, ps))) = None" by (auto simp: pbind_None)
    obtain c2 p2 where 2: "parseback buf c p = (c2, p2)" by fastforce
    obtain b p3 where 3: "peek buf p2 [59] = (b, p3)" by fastforce
    have le: "ps \<le> p2" using parse_ge[of fuel buf ps c p] 1 parseback_ge[OF 2] by simp
    have "b" "parseline fuel buf (advance buf p3) = None" using n 2 3 by (auto simp: pbind_None split: if_splits)
    moreover from this have "4 * (length buf - advance buf p3) + 4 \<le> fuel" "advance buf p3 \<le> length buf"
      using adv[of p2 "[59]" p3] 3 le f by auto
    ultimately show False using Suc(1)[of "advance buf p3"] by simp
  qed
  moreover have "parsepipe (Suc fuel) buf ps \<noteq> None" if f: "4 * (length buf - ps) + 3 \<le> Suc fuel"
  proof
    assume "parsepipe (Suc fuel) buf ps = None"
    moreover have "parseexec fuel buf ps \<noteq> None" using Suc f by simp
    ultimately obtain c p where 1: "parseexec fuel buf ps = Some (Inr (c, p))"
      and n: "(case peek buf p [124] of (b, ps) \<Rightarrow>
         if b then pbind (parsepipe fuel buf (advance buf ps)) (\<lambda>(right, ps). Some (Inr (PIPE c right, ps)))
         else Some (Inr (c, ps))) = None" by (auto simp: pbind_None)
    obtain b p3 where 3: "peek buf p [124] = (b, p3)" by fastforce
    have le: "ps \<le> p" using parse_ge[of fuel buf ps c p] 1 by simp
    have "b" "parsepipe fuel buf (advance buf p3) = None" using n 3 by (auto simp: pbind_None split: if_splits)
    moreover from this have "4 * (length buf - advance buf p3) + 3 \<le> fuel" "advance buf p3 \<le> length buf"
      using adv[of p "[124]" p3] 3 le f by auto
    ultimately show False using Suc(1)[of "advance buf p3"] by simp
  qed
  moreover have "parseexec (Suc fuel) buf ps \<noteq> None" if f: "4 * (length buf - ps) + 2 \<le> Suc fuel"
  proof -
    obtain b p where p: "peek buf ps [40] = (b, p)" by fastforce
    have "4 * (length buf - p) + 1 \<le> fuel" "p \<le> length buf" using Suc(2) peek_ge[OF p] f by auto
    then have "parseblock fuel buf p \<noteq> None" using Suc(1) by simp
    moreover obtain r where "parseredirs buf (EXEC []) p = Some r" using parseredirs_total by blast
    ultimately show ?thesis
      using p parseargs_total[of buf 0] by (cases b; cases r) (auto split: prod.split)
  qed
  moreover have "parseblock (Suc fuel) buf ps \<noteq> None" if f: "4 * (length buf - ps) + 1 \<le> Suc fuel"
  proof -
    obtain b p where p: "peek buf ps [40] = (b, p)" by fastforce
    have "parseline fuel buf (advance buf p) \<noteq> None" if b using adv[of ps "[40]" p] p that Suc f by simp
    then show ?thesis
      using p parseredirs_total[of buf] by (cases b) (auto simp: pbind_None split: prod.splits if_splits)
  qed
  ultimately show ?case by blast
qed simp

text \<open>A result with more fuel: the same unless the fuel ran out before.\<close>

definition ple :: "'a parse \<Rightarrow> 'a parse \<Rightarrow> bool" where
  "ple x y \<longleftrightarrow> x = None \<or> x = y"

lemma ple_refl: "ple x x"
  by (simp add: ple_def)

lemma ple_bind: "ple m m' \<Longrightarrow> (\<And>y. ple (f y) (g y)) \<Longrightarrow> ple (pbind m f) (pbind m' g)"
  unfolding ple_def by (cases m) (fastforce simp: pbind_def split: sum.splits)+

lemma ple_if: "(b \<Longrightarrow> ple x x') \<Longrightarrow> (\<not> b \<Longrightarrow> ple y y') \<Longrightarrow> ple (if b then x else y) (if b then x' else y')"
  by simp

lemma ple_prod: "(\<And>a b. ple (f a b) (g a b)) \<Longrightarrow> ple (case p of (a, b) \<Rightarrow> f a b) (case p of (a, b) \<Rightarrow> g a b)"
  by (cases p) simp

lemmas ple_intros = ple_bind ple_if ple_prod ple_refl

lemmas parse_simps = parseline.simps parsepipe.simps parseexec.simps parseblock.simps

lemma parse_mono:
  "ple (parseline fuel buf ps) (parseline (Suc fuel) buf ps) \<and> ple (parsepipe fuel buf ps) (parsepipe (Suc fuel) buf ps) \<and>
   ple (parseexec fuel buf ps) (parseexec (Suc fuel) buf ps) \<and> ple (parseblock fuel buf ps) (parseblock (Suc fuel) buf ps)"
proof (induction fuel arbitrary: ps)
  case 0
  then show ?case by (simp add: ple_def del: parse_simps(2,4,6,8))
next
  case (Suc fuel)
  then have ih: "ple (parseline fuel buf ps) (parseline (Suc fuel) buf ps)"
    "ple (parsepipe fuel buf ps) (parsepipe (Suc fuel) buf ps)"
    "ple (parseexec fuel buf ps) (parseexec (Suc fuel) buf ps)"
    "ple (parseblock fuel buf ps) (parseblock (Suc fuel) buf ps)" for ps
    by blast+
  show ?case
    unfolding parseline.simps(2)[of "Suc fuel"] parsepipe.simps(2)[of "Suc fuel"] parseexec.simps(2)[of "Suc fuel"]
      parseblock.simps(2)[of "Suc fuel"]
    by (intro conjI; subst parseline.simps(2) parsepipe.simps(2) parseexec.simps(2) parseblock.simps(2);
        intro ple_intros ih)
qed

lemma parseline_more:
  assumes "parseline fuel buf ps = Some r"
  shows "parseline (fuel + k) buf ps = Some r"
proof (induction k)
  case (Suc k)
  then show ?case using parse_mono[of "fuel + k" buf ps] by (simp add: ple_def del: parse_simps)
qed (simp add: assms)

text \<open>
  C7. The parser always comes to an end: for every command line \<^verbatim>\<open>parsecmd\<close> either returns a command
  tree or panics with a syntax error, and any fuel of at least \<open>4 * length s + 4\<close> gives the same
  result.
\<close>

theorem parsecmd_returns:
  "(\<exists>r. parsecmd s = Some r) \<and>
   (\<forall>k. \<exists>r. parseline (4 * length s + 4) s 0 = Some r \<and> parseline (4 * length s + 4 + k) s 0 = Some r)"
proof -
  obtain r where r: "parseline (4 * length s + 4) s 0 = Some r" using parse_fuel[of 0 s "4 * length s + 4"] by auto
  then have "\<exists>r. parsecmd s = Some r" by (cases r) (auto simp: parsecmd_def split: prod.split)
  then show ?thesis using r parseline_more[OF r] by simp
qed

end
