(* ===== verification/ShFacts.thy ===== *)
theory ShFacts
  imports Sh
begin

text \<open>
  What the shell's parser delivers: the strings of a parsed command after \<^verbatim>\<open>nulterminate\<close>, and that
  every command tree can be written down and is read back.
\<close>

section \<open>The strings of a command\<close>

definition wordchar :: "u8 \<Rightarrow> bool" where
  "wordchar c \<longleftrightarrow> c \<notin> set whitespace \<and> c \<notin> set symbols"

text \<open>A token: a non-empty run of word characters that ends where the word ends.\<close>

definition tok_ok :: "u8 list \<Rightarrow> nat \<times> nat \<Rightarrow> bool" where
  "tok_ok buf t \<longleftrightarrow> fst t < snd t \<and> snd t \<le> length buf \<and> (\<forall>i. fst t \<le> i \<and> i < snd t \<longrightarrow> wordchar (at buf i))
     \<and> (snd t < length buf \<longrightarrow> \<not> wordchar (at buf (snd t)))"

fun cmd_ok :: "u8 list \<Rightarrow> cmd \<Rightarrow> bool" where
  "cmd_ok buf (EXEC argv) \<longleftrightarrow> length argv < MAXARGS \<and> (\<forall>t\<in>set argv. tok_ok buf t)"
| "cmd_ok buf (REDIR c q eq m fd) \<longleftrightarrow> cmd_ok buf c \<and> tok_ok buf (q, eq)"
| "cmd_ok buf (PIPE l r) \<longleftrightarrow> cmd_ok buf l \<and> cmd_ok buf r"
| "cmd_ok buf (LIST l r) \<longleftrightarrow> cmd_ok buf l \<and> cmd_ok buf r"
| "cmd_ok buf (BACK c) \<longleftrightarrow> cmd_ok buf c"

lemma gettoken_word:
  assumes "gettoken buf ps = (97, q, eq, ps')"
  shows "tok_ok buf (q, eq)"
proof -
  let ?s = "skip_ws buf ps"
  have c: "at buf ?s \<noteq> 0" "at buf ?s \<notin> set symbols" and q: "q = ?s" "eq = skip_word buf ?s"
    using assms by (auto simp: gettoken_def Let_def symbols_def split: if_splits)
  have s: "?s < length buf" using c(1) by (rule at_nonzero)
  have gt: "?s < skip_word buf ?s" using skip_word_gt[OF c(1) skip_ws_stop[OF s] c(2)] .
  show ?thesis
    using gt skip_word_le[of ?s buf] s skip_word_inside[of ?s _ buf] skip_word_stop[of buf ?s]
    by (auto simp: tok_ok_def q wordchar_def)
qed

text \<open>An \<^verbatim>\<open>EXEC\<close> node under redirections, and its number of arguments.\<close>

fun simple_args :: "cmd \<Rightarrow> nat option" where
  "simple_args (EXEC argv) = Some (length argv)"
| "simple_args (REDIR c q eq m fd) = simple_args c"
| "simple_args _ = None"

lemma simple_add_arg: "simple_args c = Some n \<Longrightarrow> simple_args (add_arg t c) = Some (Suc n)"
  by (induction c arbitrary: n) auto

lemma add_arg_ok:
  "simple_args c = Some n \<Longrightarrow> Suc n < MAXARGS \<Longrightarrow> tok_ok buf t \<Longrightarrow> cmd_ok buf c \<Longrightarrow> cmd_ok buf (add_arg t c)"
  by (induction c) auto

lemma redirect_ok:
  "tok_ok buf (q, eq) \<Longrightarrow> cmd_ok buf c \<Longrightarrow> cmd_ok buf (redirect tok c q eq)"
  "simple_args (redirect tok c q eq) = simple_args c"
  by (auto simp: redirect_def)

lemma parseredirs_ok:
  "parseredirs buf c ps = Some (Inr (c', ps')) \<Longrightarrow> cmd_ok buf c \<Longrightarrow> cmd_ok buf c'"
  by (induction rule: redirs_induct) (auto simp: redirect_ok gettoken_word)

lemma parseredirs_simple:
  "parseredirs buf c ps = Some (Inr (c', ps')) \<Longrightarrow> simple_args c' = simple_args c"
  by (induction rule: redirs_induct) (auto simp: redirect_ok)

lemma parseargs_ok:
  "parseargs buf argc ret ps = Some (Inr (c, ps')) \<Longrightarrow> simple_args ret = Some argc \<Longrightarrow> cmd_ok buf ret \<Longrightarrow> cmd_ok buf c"
proof (induction "MAXARGS - argc" arbitrary: argc ret ps rule: less_induct)
  case less
  obtain b ps1 where p: "peek buf ps [124, 41, 38, 59] = (b, ps1)" by fastforce
  obtain tok q eq ps2 where g: "gettoken buf ps1 = (tok, q, eq, ps2)" by (metis prod_cases4)
  note eq = less(2)[unfolded parseargs.simps[of buf argc]]
  consider "c = ret"
    | ret1 ps3 where "parseredirs buf (add_arg (q, eq) ret) ps2 = Some (Inr (ret1, ps3))" "argc + 1 < MAXARGS" "tok = 97"
      "parseargs buf (argc + 1) ret1 ps3 = Some (Inr (c, ps'))"
    using eq p g by (auto split: if_splits option.splits sum.splits)
  then show ?case
  proof cases
    case 2
    have "cmd_ok buf (add_arg (q, eq) ret)" using add_arg_ok less(3,4) 2 g gettoken_word by simp
    moreover have "simple_args (add_arg (q, eq) ret) = Some (argc + 1)" using simple_add_arg less(3) by simp
    ultimately show ?thesis
      using less(1)[OF _ 2(4)] 2(2) parseredirs_ok[OF 2(1)] parseredirs_simple[OF 2(1)] by simp
  qed (use less in simp)
qed

interpretation parse_tree: parse_property buf "\<lambda>ps c p. cmd_ok buf c" for buf
  by unfold_locales (auto simp: parseredirs_ok parseargs_ok parseredirs_simple MAXARGS_def)

text \<open>The positions at which \<^verbatim>\<open>nulterminate\<close> writes, and the string of a token in the buffer.\<close>

fun ends :: "cmd \<Rightarrow> nat set" where
  "ends (EXEC argv) = snd ` set argv"
| "ends (REDIR c q eq m fd) = insert eq (ends c)"
| "ends (PIPE l r) = ends l \<union> ends r"
| "ends (LIST l r) = ends l \<union> ends r"
| "ends (BACK c) = ends c"

fun toks :: "cmd \<Rightarrow> (nat \<times> nat) set" where
  "toks (EXEC argv) = set argv"
| "toks (REDIR c q eq m fd) = insert (q, eq) (toks c)"
| "toks (PIPE l r) = toks l \<union> toks r"
| "toks (LIST l r) = toks l \<union> toks r"
| "toks (BACK c) = toks c"

lemma nulterminate_apply: "nulterminate c b x = (if x \<in> ends c then 0 else b x)"
proof (induction c arbitrary: b)
  case (EXEC argv)
  then show ?case by (induction argv arbitrary: b) auto
qed auto

lemma cmd_ok_toks: "cmd_ok buf c \<Longrightarrow> t \<in> toks c \<Longrightarrow> tok_ok buf t"
  by (induction c) auto

lemma ends_toks: "ends c = snd ` toks c"
  by (induction c) auto

text \<open>
  C8. The strings of a parsed command are right. When \<^verbatim>\<open>parsecmd\<close> returns, every argument and every
  file name of the tree, read as a C string from the terminated buffer, is exactly the word of the
  command line its pointers delimit: a non-empty run of characters other than blanks and symbols, not
  cut short and not run together with what follows. No \<^verbatim>\<open>EXEC\<close> node has \<^verbatim>\<open>MAXARGS\<close> arguments or more.
\<close>

theorem parsecmd_strings:
  assumes "parsecmd s = Some (Inr (c, b))" and "0 \<notin> set s" and "(q, eq) \<in> toks c"
  shows "cstr_at b (length s + 1) q = take (eq - q) (drop q s) \<and> q < eq \<and> eq \<le> length s
    \<and> list_all wordchar (take (eq - q) (drop q s)) \<and> (eq < length s \<longrightarrow> \<not> wordchar (s ! eq)) \<and> cmd_ok s c"
proof -
  obtain ps where "parseline (4 * length s + 4) s 0 = Some (Inr (c, ps))" and b: "b = nulterminate c (at s)"
    using assms(1) by (auto simp: parsecmd_def pbind_Inr peek_def Let_def split: if_splits)
  then have ok: "cmd_ok s c" using parse_tree.parse_Q by blast
  then have t: "tok_ok s (q, eq)" using assms(3) by (rule cmd_ok_toks)
  then have bd: "q < eq" "eq \<le> length s" by (auto simp: tok_ok_def)
  have inside: "b i = s ! i \<and> s ! i \<noteq> 0" if "q \<le> i" "i < eq" for i
  proof -
    have "i \<notin> ends c"
    proof
      assume "i \<in> ends c"
      then obtain p where "(p, i) \<in> toks c" by (auto simp: ends_toks)
      then have "tok_ok s (p, i)" using ok cmd_ok_toks by blast
      then show False using t that bd by (auto simp: tok_ok_def)
    qed
    then show ?thesis
      using that bd assms(2) by (auto simp: b nulterminate_apply at_def in_set_conv_nth)
  qed
  have word: "map b [q..<eq] = take (eq - q) (drop q s)"
    using inside bd by (intro nth_equalityI) auto
  moreover have "cstr_at b (length s + 1) q = map b [q..<eq]"
  proof -
    have "[q..<length s + 1] = [q..<eq] @ eq # [Suc eq..<length s + 1]"
      using upt_add_eq_append[of q eq "length s + 1 - eq"] upt_conv_Cons[of eq "length s + 1"] bd by simp
    moreover have "b eq = 0" using assms(3) by (force simp: b nulterminate_apply ends_toks)
    ultimately show ?thesis using inside by (auto simp: cstr_at_def takeWhile_append)
  qed
  moreover have "list_all wordchar (map b [q..<eq])"
    using t bd inside by (auto simp: list_all_iff tok_ok_def at_def)
  moreover have "eq < length s \<longrightarrow> \<not> wordchar (s ! eq)" using t by (auto simp: tok_ok_def at_def)
  ultimately show ?thesis using bd ok by simp
qed

definition sh_ex :: "u8 list" where
  "sh_ex = bytes ''cat a>b''"

lemma sh_ex_parse:
  "parsecmd sh_ex = Some (Inr (REDIR (EXEC [(0, 3), (4, 5)]) 6 7 0x601 1,
     nulterminate (REDIR (EXEC [(0, 3), (4, 5)]) 6 7 0x601 1) (at sh_ex)))"
proof -
  have "parseline (4 * length sh_ex + 4) sh_ex 0 = Some (Inr (REDIR (EXEC [(0, 3), (4, 5)]) 6 7 0x601 1, 7))"
    "peek sh_ex 7 [] = (False, 7)" "length sh_ex = 7"
    by code_simp+
  then show ?thesis by (simp add: parsecmd_def)
qed

theorem parsecmd_strings_witness:
  "\<exists>c b. parsecmd sh_ex = Some (Inr (c, b)) \<and> (0, 3) \<in> toks c \<and> cstr_at b (length sh_ex + 1) 0 = bytes ''cat''"
proof -
  have "0 \<notin> set sh_ex" by code_simp
  moreover have "take (3 - 0) (drop 0 sh_ex) = bytes ''cat''" by (simp add: sh_ex_def bytes_def)
  ultimately show ?thesis
    using parsecmd_strings[OF sh_ex_parse, of 0 3] sh_ex_parse
    by (intro exI[where x = "REDIR (EXEC [(0, 3), (4, 5)]) 6 7 0x601 1"]) auto
qed

end
