(* ===== verification/ShPrint.thy ===== *)
theory ShPrint
  imports ShFacts
begin

text \<open>
  Writing commands down. \<open>shtree\<close> is a command tree with its strings; \<open>unparse\<close> writes it as a
  command line, with parentheses around every sub-command, and the parser reads it back.
\<close>

datatype rkind = RIn | ROut | RApp

datatype shtree =
    TExec "u8 list list"
  | TRedir shtree "u8 list" rkind
  | TPipe shtree shtree
  | TList shtree shtree
  | TBack shtree

fun rsym :: "rkind \<Rightarrow> u8 list" where
  "rsym RIn = [60]"
| "rsym ROut = [62]"
| "rsym RApp = [62, 62]"

fun rmode :: "rkind \<Rightarrow> int \<times> int" where
  "rmode RIn = (O_RDONLY, 0)"
| "rmode ROut = (O_WRONLY OR O_CREATE OR O_TRUNC, 1)"
| "rmode RApp = (O_WRONLY OR O_CREATE, 1)"

fun unparse :: "shtree \<Rightarrow> u8 list" where
  "unparse (TExec ws) = concat (map (\<lambda>w. w @ [32]) ws)"
| "unparse (TRedir t f k) = [40] @ unparse t @ [41] @ rsym k @ f @ [32]"
| "unparse (TPipe l r) = [40] @ unparse l @ [41] @ [124] @ [40] @ unparse r @ [41]"
| "unparse (TList l r) = [40] @ unparse l @ [41] @ [59] @ [40] @ unparse r @ [41]"
| "unparse (TBack t) = [40] @ unparse t @ [41] @ [38]"

definition is_word :: "u8 list \<Rightarrow> bool" where
  "is_word w \<longleftrightarrow> w \<noteq> [] \<and> list_all (\<lambda>c. wordchar c \<and> c \<noteq> 0) w"

fun tree_ok :: "shtree \<Rightarrow> bool" where
  "tree_ok (TExec ws) \<longleftrightarrow> length ws < MAXARGS \<and> list_all is_word ws"
| "tree_ok (TRedir t f k) \<longleftrightarrow> tree_ok t \<and> is_word f"
| "tree_ok (TPipe l r) \<longleftrightarrow> tree_ok l \<and> tree_ok r"
| "tree_ok (TList l r) \<longleftrightarrow> tree_ok l \<and> tree_ok r"
| "tree_ok (TBack t) \<longleftrightarrow> tree_ok t"

text \<open>A command whose tokens spell the strings of the tree.\<close>

definition slice :: "u8 list \<Rightarrow> nat \<times> nat \<Rightarrow> u8 list" where
  "slice buf t = take (snd t - fst t) (drop (fst t) buf)"

fun spells :: "u8 list \<Rightarrow> cmd \<Rightarrow> shtree \<Rightarrow> bool" where
  "spells buf (EXEC argv) (TExec ws) \<longleftrightarrow> map (slice buf) argv = ws"
| "spells buf (REDIR c q eq m fd) (TRedir t f k) \<longleftrightarrow> spells buf c t \<and> slice buf (q, eq) = f \<and> (m, fd) = rmode k"
| "spells buf (PIPE a b) (TPipe l r) \<longleftrightarrow> spells buf a l \<and> spells buf b r"
| "spells buf (LIST a b) (TList l r) \<longleftrightarrow> spells buf a l \<and> spells buf b r"
| "spells buf (BACK c) (TBack t) \<longleftrightarrow> spells buf c t"
| "spells buf _ _ \<longleftrightarrow> False"

section \<open>Reading what stands at a position\<close>

definition here :: "u8 list \<Rightarrow> nat \<Rightarrow> u8 list \<Rightarrow> bool" where
  "here buf p xs \<longleftrightarrow> p + length xs \<le> length buf \<and> take (length xs) (drop p buf) = xs"

lemma here_Nil [simp]: "here buf p [] \<longleftrightarrow> p \<le> length buf"
  by (simp add: here_def)

lemma here_append [simp]: "here buf p (xs @ ys) \<longleftrightarrow> here buf p xs \<and> here buf (p + length xs) ys"
proof -
  have "take (length xs + length ys) (drop p buf) =
      take (length xs) (drop p buf) @ take (length ys) (drop (p + length xs) buf)"
    by (simp add: take_add add.commute)
  then show ?thesis by (auto simp: here_def)
qed

lemma here_Cons [simp]: "here buf p (c # xs) \<longleftrightarrow> p < length buf \<and> at buf p = c \<and> here buf (Suc p) xs"
proof -
  have "here buf p [c] \<longleftrightarrow> p < length buf \<and> at buf p = c"
    by (auto simp: here_def at_def take_Suc_conv_app_nth hd_drop_conv_nth take_Suc)
  then show ?thesis using here_append[of buf p "[c]" xs] by simp
qed

lemma skip_ws_here: "at buf p \<notin> set whitespace \<Longrightarrow> skip_ws buf p = p"
  by (subst skip_ws.simps) (simp add: strchr_None[THEN iffD2])

lemma skip_ws_blank: "p < length buf \<Longrightarrow> at buf p = 32 \<Longrightarrow> at buf (Suc p) \<notin> set whitespace \<Longrightarrow> skip_ws buf p = Suc p"
  by (subst skip_ws.simps) (simp add: skip_ws_here whitespace_def)

lemma peek_here: "at buf p \<notin> set whitespace \<Longrightarrow> peek buf p cs = (at buf p \<noteq> 0 \<and> at buf p \<in> set cs, p)"
  by (simp add: peek_def skip_ws_here strchr_ex)

lemma symbol_here:
  assumes "at buf p = c" and "c \<in> {124, 40, 41, 59, 38, 60}" and "at buf (Suc p) \<notin> set whitespace"
  shows "gettoken buf p = (c, p, Suc p, Suc p)"
proof -
  have "at buf p \<notin> set whitespace" using assms(1,2) by (auto simp: whitespace_def)
  then show ?thesis using assms by (auto simp: gettoken_def skip_ws_here)
qed

lemma skip_word_here:
  "here buf p w \<Longrightarrow> list_all wordchar w \<Longrightarrow> \<not> wordchar (at buf (p + length w)) \<Longrightarrow> skip_word buf p = p + length w"
proof (induction w arbitrary: p)
  case Nil
  then show ?case by (subst skip_word.simps) (auto simp: wordchar_def strchr_None)
next
  case (Cons c w)
  then show ?case by (subst skip_word.simps) (auto simp: wordchar_def strchr_None)
qed

lemma word_here:
  assumes "here buf p (w @ [32])" and "is_word w" and "at buf (p + length w + 1) \<notin> set whitespace"
  shows "gettoken buf p = (97, p, p + length w, p + length w + 1)" and "slice buf (p, p + length w) = w"
    and "at buf p \<notin> set whitespace \<union> set symbols" and "at buf p \<noteq> 0"
proof -
  obtain c v where w: "w = c # v" using assms(2) by (cases w) (auto simp: is_word_def)
  then have c: "at buf p = c" "wordchar c" "c \<noteq> 0" using assms by (auto simp: is_word_def)
  then show "at buf p \<notin> set whitespace \<union> set symbols" "at buf p \<noteq> 0" by (auto simp: wordchar_def)
  have "\<not> wordchar (at buf (p + length w))" using assms(1) by (simp add: wordchar_def whitespace_def)
  then have "skip_word buf p = p + length w"
    using assms(1,2) by (intro skip_word_here) (auto simp: is_word_def list_all_iff)
  moreover have "skip_ws buf (p + length w) = p + length w + 1"
    using assms(1,3) skip_ws_blank[of "p + length w" buf] by simp
  ultimately show "gettoken buf p = (97, p, p + length w, p + length w + 1)"
    using c by (auto simp: gettoken_def skip_ws_here wordchar_def symbols_def Let_def)
  have "here buf p w" using assms(1) by simp
  then show "slice buf (p, p + length w) = w" by (simp add: slice_def here_def)
qed

text \<open>What follows a command inside a line: the end of the line or a closing parenthesis.\<close>

definition closes :: "u8 list \<Rightarrow> nat \<Rightarrow> bool" where
  "closes buf p \<longleftrightarrow> at buf p = 0 \<or> at buf p = 41"

lemma closes_at: "closes buf p \<Longrightarrow> at buf p \<notin> set whitespace" "closes buf p \<Longrightarrow> c \<in> {60, 62, 40, 124, 38, 59} \<Longrightarrow> at buf p \<noteq> c"
  by (auto simp: closes_def whitespace_def)

section \<open>Reading a written command\<close>

lemma first_word:
  assumes "here buf p (unparse (TExec ws))" and "list_all is_word ws" and "closes buf (p + length (unparse (TExec ws)))"
  shows "at buf p \<notin> set whitespace" and "c \<in> {60, 62, 40} \<Longrightarrow> at buf p \<noteq> c"
proof -
  have "at buf p \<notin> set whitespace \<and> at buf p \<notin> {60, 62, 40}"
  proof (cases ws)
    case Nil
    then show ?thesis using assms(3) closes_at[of buf p] by auto
  next
    case (Cons w ws')
    then obtain d v where "w = d # v" "wordchar d" using assms(2) by (cases w) (auto simp: is_word_def)
    then show ?thesis using assms(1) Cons by (auto simp: wordchar_def symbols_def)
  qed
  then show "at buf p \<notin> set whitespace" "c \<in> {60, 62, 40} \<Longrightarrow> at buf p \<noteq> c" by auto
qed

lemma parseredirs_none: "at buf p \<notin> set whitespace \<Longrightarrow> at buf p \<noteq> 60 \<Longrightarrow> at buf p \<noteq> 62 \<Longrightarrow> parseredirs buf c p = Some (Inr (c, p))"
  by (rule parseredirs_stop) (simp add: peek_here)

lemma parseargs_words:
  assumes "closes buf (p + length (unparse (TExec ws)))"
  shows "here buf p (unparse (TExec ws)) \<Longrightarrow> list_all is_word ws \<Longrightarrow> length argv + length ws < MAXARGS \<Longrightarrow>
    \<exists>ts. parseargs buf (length argv) (EXEC argv) p = Some (Inr (EXEC (argv @ ts), p + length (unparse (TExec ws))))
      \<and> map (slice buf) ts = ws"
  using assms
proof (induction ws arbitrary: p argv)
  case Nil
  then have c: "closes buf p" by simp
  then have "gettoken buf p = (0, p, p, p)" if "at buf p = 0"
    using that closes_at(1)[OF c] by (simp add: gettoken_def skip_ws_here Let_def)
  then show ?case
    using c closes_at(1)[OF c] by (subst parseargs.simps) (auto simp: peek_here closes_def)
next
  case (Cons w ws)
  let ?p = "p + length w + 1"
  have rest: "here buf ?p (unparse (TExec ws))" "list_all is_word ws" "closes buf (?p + length (unparse (TExec ws)))"
    and w: "here buf p (w @ [32])" "is_word w"
    using Cons.prems by (simp_all add: add.assoc)
  note f = first_word[OF rest]
  note g = word_here[OF w f(1)]
  have "at buf p \<notin> {124, 41, 38, 59}" using g(3) by (auto simp: symbols_def)
  then have "parseargs buf (length argv) (EXEC argv) p = parseargs buf (length (argv @ [(p, p + length w)])) (EXEC (argv @ [(p, p + length w)])) ?p"
    using g Cons.prems(3) f parseredirs_none[of buf ?p]
    by (subst parseargs.simps) (auto simp: peek_here)
  then show ?case
    using Cons.IH[of ?p "argv @ [(p, p + length w)]"] rest Cons.prems(3) g(2) by (auto simp: add.assoc)
qed

lemma exec_here:
  assumes "here buf p (unparse (TExec ws))" and "tree_ok (TExec ws)" and "closes buf (p + length (unparse (TExec ws)))"
  shows "\<exists>c. parseexec (Suc fuel) buf p = Some (Inr (c, p + length (unparse (TExec ws)))) \<and> spells buf c (TExec ws)"
proof -
  have ws: "list_all is_word ws" "length ([] :: (nat \<times> nat) list) + length ws < MAXARGS" using assms(2) by auto
  note f = first_word[OF assms(1) ws(1) assms(3)]
  obtain ts where ts: "parseargs buf 0 (EXEC []) p = Some (Inr (EXEC ts, p + length (unparse (TExec ws))))" "map (slice buf) ts = ws"
    using parseargs_words[OF assms(3,1) ws] by auto
  have "parseexec (Suc fuel) buf p = Some (Inr (EXEC ts, p + length (unparse (TExec ws))))"
    using f ts(1) parseredirs_none[of buf p "EXEC []"] by (simp add: peek_here del: unparse.simps)
  then show ?thesis using ts(2) by auto
qed

text \<open>A parenthesised command, up to its redirections.\<close>

lemma block_here:
  assumes "at buf p = 40" and "parseline fuel buf (Suc p) = Some (Inr (c, q))" and "at buf q = 41"
    and "at buf (Suc p) \<notin> set whitespace" and "at buf (Suc q) \<notin> set whitespace"
  shows "parseexec (Suc (Suc fuel)) buf p = parseredirs buf c (Suc q)"
proof -
  have ws: "at buf p \<notin> set whitespace" "at buf q \<notin> set whitespace" using assms(1,3) by (auto simp: whitespace_def)
  have "gettoken buf p = (40, p, Suc p, Suc p)" "gettoken buf q = (41, q, Suc q, Suc q)"
    using symbol_here assms by auto
  then show ?thesis using assms ws by (simp add: peek_here)
qed

lemma line_end:
  assumes "parseexec fuel buf p = Some (Inr (c, q))" and "closes buf q"
  shows "parseline (Suc (Suc fuel)) buf p = Some (Inr (c, q))"
  using assms closes_at[OF assms(2)] by (simp add: peek_here parseback.simps)

lemma block_plain:
  assumes "at buf p = 40" and "parseline fuel buf (Suc p) = Some (Inr (c, q))" and "at buf q = 41"
    and "at buf (Suc p) \<notin> set whitespace" and "at buf (Suc q) \<notin> set whitespace \<union> {60, 62}"
  shows "parseexec (Suc (Suc fuel)) buf p = Some (Inr (c, Suc q))"
  using block_here[OF assms(1-4)] assms(5) by (simp add: parseredirs_none)

lemma redir_here:
  assumes "here buf p (rsym k @ f @ [32])" and "is_word f" and "closes buf (p + length (rsym k) + length f + 1)"
  shows "\<exists>q eq m fd. parseredirs buf c p = Some (Inr (REDIR c q eq m fd, p + length (rsym k) + length f + 1))
    \<and> slice buf (q, eq) = f \<and> (m, fd) = rmode k"
proof -
  let ?p = "p + length (rsym k)"
  have f: "here buf ?p (f @ [32])" using assms(1) by simp
  note w = word_here[OF f assms(2) closes_at(1)[OF assms(3)]]
  have k: "at buf p \<in> {60, 62}" "at buf p \<notin> set whitespace"
    using assms(1) by (cases k; auto simp: whitespace_def)+
  have "gettoken buf p = (case k of RIn \<Rightarrow> 60 | ROut \<Rightarrow> 62 | RApp \<Rightarrow> 43, p, ?p, ?p)"
    using assms(1) w(3) k(2) by (cases k) (auto simp: gettoken_def skip_ws_here symbols_def Let_def)
  moreover have "peek buf p [60, 62] = (True, p)" using k by (auto simp: peek_here)
  ultimately have "parseredirs buf c p =
      parseredirs buf (redirect (case k of RIn \<Rightarrow> 60 | ROut \<Rightarrow> 62 | RApp \<Rightarrow> 43) c ?p (?p + length f)) (?p + length f + 1)"
    using parseredirs_step[OF _ _ w(1)] by simp
  moreover have "parseredirs buf c' (?p + length f + 1) = Some (Inr (c', ?p + length f + 1))" for c'
    using parseredirs_none closes_at[OF assms(3)] by simp
  ultimately show ?thesis using w(2) by (cases k) (auto simp: redirect_def)
qed

fun need :: "shtree \<Rightarrow> nat" where
  "need (TExec ws) = 3"
| "need (TRedir t f k) = need t + 4"
| "need (TPipe l r) = max (need l) (need r) + 5"
| "need (TList l r) = max (need l) (need r) + 5"
| "need (TBack t) = need t + 4"

lemma first_char:
  assumes "here buf p (unparse t)" and "tree_ok t" and "closes buf (p + length (unparse t))"
  shows "at buf p \<notin> set whitespace"
proof (cases t)
  case (TExec ws)
  then show ?thesis using assms first_word(1)[of buf p ws] by simp
qed (use assms in \<open>auto simp: whitespace_def\<close>)

text \<open>The parser reads what \<open>unparse\<close> wrote for a tree, wherever it stands.\<close>

definition reads_back :: "u8 list \<Rightarrow> shtree \<Rightarrow> bool" where
  "reads_back buf t \<longleftrightarrow> (\<forall>p k. here buf p (unparse t) \<longrightarrow> closes buf (p + length (unparse t)) \<longrightarrow>
     (\<exists>c. parseline (need t + k) buf p = Some (Inr (c, p + length (unparse t))) \<and> spells buf c t))"

lemma reads_backD:
  assumes "reads_back buf t" and "here buf p (unparse t)" and "closes buf (p + length (unparse t))" and "need t \<le> n"
  obtains c where "parseline n buf p = Some (Inr (c, p + length (unparse t)))" "spells buf c t"
proof -
  have "need t + (n - need t) = n" using assms(4) by simp
  then show thesis using assms(1-3) that unfolding reads_back_def by metis
qed

lemma two_blocks:
  assumes w: "here buf p ([40] @ unparse l @ [41] @ [x] @ [40] @ unparse r @ [41])" and x: "x \<in> {124, 59}"
    and e: "closes buf (p + length (unparse l) + length (unparse r) + 5)"
    and l: "tree_ok l" "reads_back buf l" and r: "tree_ok r" "reads_back buf r"
    and n: "need l \<le> n" "need r \<le> n"
  obtains cl cr q where "at buf q = x" "gettoken buf q = (x, q, Suc q, Suc q)"
    "parseexec (Suc (Suc n)) buf p = Some (Inr (cl, q))" "spells buf cl l"
    "parseexec (Suc (Suc n)) buf (Suc q) = Some (Inr (cr, p + length (unparse l) + length (unparse r) + 5))" "spells buf cr r"
proof -
  let ?q = "Suc p + length (unparse l)"
  let ?q' = "Suc (Suc (Suc ?q)) + length (unparse r)"
  have q: "here buf (Suc p) (unparse l)" "closes buf ?q" "at buf p = 40" "at buf ?q = 41"
    "at buf (Suc ?q) = x" "at buf (Suc (Suc ?q)) = 40"
    and q': "here buf (Suc (Suc (Suc ?q))) (unparse r)" "closes buf ?q'" "at buf ?q' = 41"
    using w by (auto simp: closes_def ac_simps)
  have e': "closes buf (Suc ?q')" using e by (simp add: ac_simps numeral_eq_Suc)
  obtain cl where cl: "parseline n buf (Suc p) = Some (Inr (cl, ?q))" "spells buf cl l"
    by (rule reads_backD[OF l(2) q(1,2) n(1)])
  obtain cr where cr: "parseline n buf (Suc (Suc (Suc ?q))) = Some (Inr (cr, ?q'))" "spells buf cr r"
    by (rule reads_backD[OF r(2) q'(1,2) n(2)])
  have "parseexec (Suc (Suc n)) buf p = Some (Inr (cl, Suc ?q))"
    using block_plain[OF q(3) cl(1) q(4) first_char[OF q(1) l(1) q(2)]] q(5) x by (auto simp: whitespace_def)
  moreover have "parseexec (Suc (Suc n)) buf (Suc (Suc ?q)) = Some (Inr (cr, Suc ?q'))"
    using block_plain[OF q(6) cr(1) q'(3) first_char[OF q'(1) r(1) q'(2)]] closes_at[OF e'] by simp
  moreover have "gettoken buf (Suc ?q) = (x, Suc ?q, Suc (Suc ?q), Suc (Suc ?q))"
    using symbol_here[OF q(5)] q(6) x by (auto simp: whitespace_def)
  moreover have "Suc ?q' = p + length (unparse l) + length (unparse r) + 5" by simp
  ultimately show thesis using that q(5) cl(2) cr(2) by metis
qed

lemma parseexec_more: "parseexec n buf p = Some r \<Longrightarrow> parseexec (Suc n) buf p = Some r"
  using parse_mono[of n buf p] by (simp add: ple_def del: parse_simps)

lemma reads_back_redir: "reads_back buf t \<Longrightarrow> tree_ok (TRedir t f r) \<Longrightarrow> reads_back buf (TRedir t f r)"
  unfolding reads_back_def[of buf "TRedir t f r"]
proof (intro allI impI)
  fix p k
  assume t: "reads_back buf t" "tree_ok (TRedir t f r)"
    and w: "here buf p (unparse (TRedir t f r))" and e0: "closes buf (p + length (unparse (TRedir t f r)))"
  let ?q = "Suc p + length (unparse t)" and ?n = "need t + k"
  have q: "here buf (Suc p) (unparse t)" "at buf p = 40" "at buf ?q = 41" "closes buf ?q"
    "here buf (Suc ?q) (rsym r @ f @ [32])" "tree_ok t" "is_word f"
    using w t by (auto simp: closes_def)
  obtain c where c: "parseline ?n buf (Suc p) = Some (Inr (c, ?q))" "spells buf c t"
    by (rule reads_backD[OF t(1) q(1,4), of ?n]) simp
  have "at buf (Suc ?q) \<notin> set whitespace" using q(5) by (cases r) (auto simp: whitespace_def)
  then have "parseexec (Suc (Suc ?n)) buf p = parseredirs buf c (Suc ?q)"
    using block_here[OF q(2) c(1) q(3) first_char[OF q(1,6,4)]] by simp
  moreover have e: "closes buf (Suc ?q + length (rsym r) + length f + 1)" using e0 by (simp add: ac_simps)
  ultimately show "\<exists>c. parseline (need (TRedir t f r) + k) buf p = Some (Inr (c, p + length (unparse (TRedir t f r))))
      \<and> spells buf c (TRedir t f r)"
    using redir_here[OF q(5,7) e, of c] line_end[OF _ e, of "Suc (Suc ?n)"] c(2)
    by (auto simp: ac_simps numeral_eq_Suc simp del: parse_simps)
qed

lemma reads_back_pipe:
  assumes "reads_back buf l" and "reads_back buf r" and "tree_ok (TPipe l r)"
  shows "reads_back buf (TPipe l r)"
  unfolding reads_back_def
proof (intro allI impI)
  fix p k
  let ?e = "p + length (unparse l) + length (unparse r) + 5" and ?n = "max (need l) (need r) + k"
  assume w: "here buf p (unparse (TPipe l r))" and e0: "closes buf (p + length (unparse (TPipe l r)))"
  have e: "closes buf ?e" using e0 by (simp add: ac_simps numeral_eq_Suc)
  have w': "here buf p ([40] @ unparse l @ [41] @ [124] @ [40] @ unparse r @ [41])" using w by simp
  obtain cl cr q where b: "at buf q = 124" "gettoken buf q = (124, q, Suc q, Suc q)"
    "parseexec (Suc (Suc ?n)) buf p = Some (Inr (cl, q))" "spells buf cl l"
    "parseexec (Suc (Suc ?n)) buf (Suc q) = Some (Inr (cr, ?e))" "spells buf cr r"
    by (rule two_blocks[OF w' _ e _ assms(1) _ assms(2), of ?n]) (use assms(3) in auto)
  have "parsepipe (Suc (Suc (Suc ?n))) buf (Suc q) = Some (Inr (cr, ?e))"
    using b(5) closes_at[OF e] by (simp add: parsepipe.simps(2)[of "Suc (Suc ?n)"] peek_here del: parse_simps)
  then have "parsepipe (Suc (Suc (Suc (Suc ?n)))) buf p = Some (Inr (PIPE cl cr, ?e))"
    using b(1,2) parseexec_more[OF b(3)]
    by (simp add: parsepipe.simps(2)[of "Suc (Suc (Suc ?n))"] peek_here whitespace_def del: parse_simps)
  then have "parseline (Suc (Suc (Suc (Suc (Suc ?n))))) buf p = Some (Inr (PIPE cl cr, ?e))"
    using closes_at[OF e]
    by (simp add: parseline.simps(2)[of "Suc (Suc (Suc (Suc ?n)))"] parseback.simps peek_here del: parse_simps)
  then show "\<exists>c. parseline (need (TPipe l r) + k) buf p = Some (Inr (c, p + length (unparse (TPipe l r))))
      \<and> spells buf c (TPipe l r)"
    using b(4,6) by (auto simp: ac_simps numeral_eq_Suc simp del: parse_simps)
qed

lemma reads_back_list:
  assumes "reads_back buf l" and "reads_back buf r" and "tree_ok (TList l r)"
  shows "reads_back buf (TList l r)"
  unfolding reads_back_def
proof (intro allI impI)
  fix p k
  let ?e = "p + length (unparse l) + length (unparse r) + 5" and ?n = "max (need l) (need r) + k"
  assume w: "here buf p (unparse (TList l r))" and e0: "closes buf (p + length (unparse (TList l r)))"
  have e: "closes buf ?e" using e0 by (simp add: ac_simps numeral_eq_Suc)
  have w': "here buf p ([40] @ unparse l @ [41] @ [59] @ [40] @ unparse r @ [41])" using w by simp
  obtain cl cr q where b: "at buf q = 59" "gettoken buf q = (59, q, Suc q, Suc q)"
    "parseexec (Suc (Suc ?n)) buf p = Some (Inr (cl, q))" "spells buf cl l"
    "parseexec (Suc (Suc ?n)) buf (Suc q) = Some (Inr (cr, ?e))" "spells buf cr r"
    by (rule two_blocks[OF w' _ e _ assms(1) _ assms(2), of ?n]) (use assms(3) in auto)
  have "parsepipe (Suc (Suc (Suc (Suc ?n)))) buf p = Some (Inr (cl, q))"
    using b(1) parseexec_more[OF b(3)]
    by (simp add: parsepipe.simps(2)[of "Suc (Suc (Suc ?n))"] peek_here whitespace_def del: parse_simps)
  then have "parseline (Suc (Suc (Suc (Suc (Suc ?n))))) buf p = Some (Inr (LIST cl cr, ?e))"
    using b(1,2) line_end[OF b(5) e]
    by (simp add: parseline.simps(2)[of "Suc (Suc (Suc (Suc ?n)))"] parseback.simps peek_here whitespace_def del: parse_simps)
  then show "\<exists>c. parseline (need (TList l r) + k) buf p = Some (Inr (c, p + length (unparse (TList l r))))
      \<and> spells buf c (TList l r)"
    using b(4,6) by (auto simp: ac_simps numeral_eq_Suc simp del: parse_simps)
qed

lemma reads_back_bg:
  assumes "reads_back buf t" and "tree_ok (TBack t)"
  shows "reads_back buf (TBack t)"
  unfolding reads_back_def
proof (intro allI impI)
  fix p k
  assume w: "here buf p (unparse (TBack t))" and e0: "closes buf (p + length (unparse (TBack t)))"
  let ?q = "Suc p + length (unparse t)" and ?n = "need t + k"
  have q: "here buf (Suc p) (unparse t)" "at buf p = 40" "at buf ?q = 41" "closes buf ?q" "at buf (Suc ?q) = 38" "tree_ok t"
    and e: "closes buf (Suc (Suc ?q))"
    using w assms e0 by (auto simp: closes_def)
  obtain c where c: "parseline ?n buf (Suc p) = Some (Inr (c, ?q))" "spells buf c t"
    by (rule reads_backD[OF assms(1) q(1,4), of ?n]) simp
  have "parseexec (Suc (Suc ?n)) buf p = Some (Inr (c, Suc ?q))"
    using block_plain[OF q(2) c(1) q(3) first_char[OF q(1,6,4)]] q(5) by (simp add: whitespace_def)
  then have pipe: "parsepipe (Suc (Suc (Suc ?n))) buf p = Some (Inr (c, Suc ?q))"
    using q(5) by (simp add: parsepipe.simps(2)[of "Suc (Suc ?n)"] peek_here whitespace_def del: parse_simps)
  have "gettoken buf (Suc ?q) = (38, Suc ?q, Suc (Suc ?q), Suc (Suc ?q))"
    using symbol_here[OF q(5)] closes_at(1)[OF e] by simp
  then have "parseback buf c (Suc ?q) = parseback buf (BACK c) (Suc (Suc ?q))"
    using q(5) by (subst parseback.simps) (simp add: peek_here whitespace_def)
  also have "\<dots> = (BACK c, Suc (Suc ?q))"
    using closes_at[OF e] by (subst parseback.simps) (simp add: peek_here)
  finally have "parseline (Suc (Suc (Suc (Suc ?n)))) buf p = Some (Inr (BACK c, Suc (Suc ?q)))"
    using pipe closes_at[OF e] by (simp add: parseline.simps(2)[of "Suc (Suc (Suc ?n))"] peek_here del: parse_simps)
  then show "\<exists>c. parseline (need (TBack t) + k) buf p = Some (Inr (c, p + length (unparse (TBack t)))) \<and> spells buf c (TBack t)"
    using c(2) by (auto simp: ac_simps numeral_eq_Suc simp del: parse_simps)
qed

lemma reads_back_exec: "tree_ok (TExec ws) \<Longrightarrow> reads_back buf (TExec ws)"
  unfolding reads_back_def
proof (intro allI impI)
  fix p k
  assume t: "tree_ok (TExec ws)" and w: "here buf p (unparse (TExec ws))" "closes buf (p + length (unparse (TExec ws)))"
  show "\<exists>c. parseline (need (TExec ws) + k) buf p = Some (Inr (c, p + length (unparse (TExec ws)))) \<and> spells buf c (TExec ws)"
    using exec_here[OF w(1) t w(2), of k] line_end[OF _ w(2), of "Suc k"] by (auto simp: numeral_3_eq_3)
qed

lemma reads_back_all: "tree_ok t \<Longrightarrow> reads_back buf t"
  by (induction t) (auto intro: reads_back_exec reads_back_redir reads_back_pipe reads_back_list reads_back_bg
      simp del: tree_ok.simps(1) simp: tree_ok.simps)

text \<open>
  C6. Every command can be written down and is read back. For a tree of commands, redirections,
  pipelines, sequences and background jobs whose words are non-empty and free of blanks and symbols and
  whose commands have fewer than \<^verbatim>\<open>MAXARGS\<close> words, \<^verbatim>\<open>parsecmd\<close> of the written line returns a tree of
  the same shape, with the same redirection modes and descriptors, whose pointers delimit the same words.
\<close>

theorem parse_unparse:
  assumes "tree_ok t"
  shows "\<exists>c b. parsecmd (unparse t) = Some (Inr (c, b)) \<and> spells (unparse t) c t"
proof -
  let ?s = "unparse t"
  have "here ?s 0 ?s" "closes ?s (0 + length ?s)" by (auto simp: here_def closes_def at_def)
  then obtain c where c: "parseline (need t) ?s 0 = Some (Inr (c, length ?s))" "spells ?s c t"
    using reads_backD[OF reads_back_all[OF assms], of ?s 0 "need t"] by auto
  obtain r where r: "parseline (4 * length ?s + 4) ?s 0 = Some r"
    using parse_fuel[of 0 ?s "4 * length ?s + 4"] by auto
  have "r = Inr (c, length ?s)"
    using parseline_more[OF r, of "need t"] parseline_more[OF c(1), of "4 * length ?s + 4"] by (simp add: add.commute)
  moreover have "peek ?s (length ?s) [] = (False, length ?s)" by (simp add: peek_def skip_ws.simps)
  ultimately show ?thesis using r c(2) by (simp add: parsecmd_def)
qed

theorem parse_unparse_witness:
  "\<exists>c b. parsecmd (bytes ''(ls a )|(cat )'') = Some (Inr (c, b))
     \<and> spells (bytes ''(ls a )|(cat )'') c (TPipe (TExec [bytes ''ls'', bytes ''a'']) (TExec [bytes ''cat'']))"
proof -
  let ?t = "TPipe (TExec [bytes ''ls'', bytes ''a'']) (TExec [bytes ''cat''])"
  have "unparse ?t = bytes ''(ls a )|(cat )''" "tree_ok ?t" by code_simp+
  then show ?thesis using parse_unparse[of ?t] by simp
qed

end
