(* ===== verification/Utils.thy ===== *)
theory Utils
  imports Ulib
begin

text \<open>
  Small user programs: \<^verbatim>\<open>user/cat.c\<close>, \<^verbatim>\<open>user/wc.c\<close>, \<^verbatim>\<open>user/echo.c\<close>, \<^verbatim>\<open>user/ls.c\<close>, \<^verbatim>\<open>user/kill.c\<close>,
  \<^verbatim>\<open>user/ln.c\<close>, \<^verbatim>\<open>user/mkdir.c\<close> and \<^verbatim>\<open>user/rm.c\<close>. \<open>argv\<close> includes the program name; a \<open>main\<close> yields
  its exit status.
\<close>

section \<open>cat\<close>

partial_function (option) cat :: "'e sysio \<Rightarrow> int \<Rightarrow> 'e \<Rightarrow> ((int + unit) \<times> 'e) option" where
  "cat io fd e =
     (case u_read io fd 512 e of
        (Some bs, e) \<Rightarrow>
          if bs \<noteq> [] then
            (case u_write io 1 bs e of (r, e) \<Rightarrow>
               if r \<noteq> int (length bs) then do {
                 e \<leftarrow> fprintf io 2 (bytes ''cat: write error'' @ [10]) [] e;
                 Some (Inl 1, e)
               } else cat io fd e)
          else Some (Inr (), e)
      | (None, e) \<Rightarrow> do {
          e \<leftarrow> fprintf io 2 (bytes ''cat: read error'' @ [10]) [] e;
          Some (Inl 1, e)
        })"

text \<open>The loop over the file arguments that \<^verbatim>\<open>cat\<close> and \<^verbatim>\<open>wc\<close> share in form.\<close>

fun cat_files :: "'e sysio \<Rightarrow> u8 list list \<Rightarrow> 'e \<Rightarrow> (int \<times> 'e) option" where
  "cat_files io [] e = Some (0, e)"
| "cat_files io (arg # argv) e =
     (let (fd, e) = u_open io arg O_RDONLY e
      in if fd < 0 then do {
           e \<leftarrow> fprintf io 2 (bytes ''cat: cannot open %s'' @ [10]) [PStr (Some arg)] e;
           Some (1, e)
         } else do {
           (r, e) \<leftarrow> cat io fd e;
           (case r of
              Inl k \<Rightarrow> Some (k, e)
            | Inr _ \<Rightarrow> cat_files io argv (u_close io fd e))
         })"

definition cat_main :: "'e sysio \<Rightarrow> u8 list list \<Rightarrow> 'e \<Rightarrow> (int \<times> 'e) option" where
  "cat_main io argv e =
     (if length argv \<le> 1 then do {
        (r, e) \<leftarrow> cat io 0 e;
        (case r of Inl k \<Rightarrow> Some (k, e) | Inr _ \<Rightarrow> Some (0, e))
      } else cat_files io (drop 1 argv) e)"

section \<open>wc\<close>

record wcst =
  wl :: u32
  ww :: u32
  wch :: u32
  inword :: bool

definition wc_space :: "u8 list" where
  "wc_space = [32, 13, 9, 10, 11]"

definition wc_byte :: "u8 \<Rightarrow> wcst \<Rightarrow> wcst" where
  "wc_byte b t =
     (let t = t\<lparr>wch := wch t + 1\<rparr>;
          t = (if b = 10 then t\<lparr>wl := wl t + 1\<rparr> else t)
      in if strchr wc_space b \<noteq> None then t\<lparr>inword := False\<rparr>
         else if \<not> inword t then t\<lparr>ww := ww t + 1, inword := True\<rparr>
         else t)"

partial_function (option) wc_loop :: "'e sysio \<Rightarrow> int \<Rightarrow> wcst \<Rightarrow> 'e \<Rightarrow> ((int + wcst) \<times> 'e) option" where
  "wc_loop io fd t e =
     (case u_read io fd 512 e of
        (Some bs, e) \<Rightarrow>
          if bs \<noteq> [] then wc_loop io fd (fold wc_byte bs t) e
          else Some (Inr t, e)
      | (None, e) \<Rightarrow> do {
          e \<leftarrow> uprintf io (bytes ''wc: read error'' @ [10]) [] e;
          Some (Inl 1, e)
        })"

definition wc :: "'e sysio \<Rightarrow> int \<Rightarrow> u8 list \<Rightarrow> 'e \<Rightarrow> ((int + unit) \<times> 'e) option" where
  "wc io fd name e = do {
     (r, e) \<leftarrow> wc_loop io fd \<lparr>wl = 0, ww = 0, wch = 0, inword = False\<rparr> e;
     (case r of
        Inl k \<Rightarrow> Some (Inl k, e)
      | Inr t \<Rightarrow> do {
          e \<leftarrow> uprintf io (bytes ''%d %d %d %s'' @ [10])
                 [PVal (ucast (wl t)), PVal (ucast (ww t)), PVal (ucast (wch t)), PStr (Some name)] e;
          Some (Inr (), e)
        })
   }"

fun wc_files :: "'e sysio \<Rightarrow> u8 list list \<Rightarrow> 'e \<Rightarrow> (int \<times> 'e) option" where
  "wc_files io [] e = Some (0, e)"
| "wc_files io (arg # argv) e =
     (let (fd, e) = u_open io arg O_RDONLY e
      in if fd < 0 then do {
           e \<leftarrow> uprintf io (bytes ''wc: cannot open %s'' @ [10]) [PStr (Some arg)] e;
           Some (1, e)
         } else do {
           (r, e) \<leftarrow> wc io fd arg e;
           (case r of
              Inl k \<Rightarrow> Some (k, e)
            | Inr _ \<Rightarrow> wc_files io argv (u_close io fd e))
         })"

definition wc_main :: "'e sysio \<Rightarrow> u8 list list \<Rightarrow> 'e \<Rightarrow> (int \<times> 'e) option" where
  "wc_main io argv e =
     (if length argv \<le> 1 then do {
        (r, e) \<leftarrow> wc io 0 [] e;
        (case r of Inl k \<Rightarrow> Some (k, e) | Inr _ \<Rightarrow> Some (0, e))
      } else wc_files io (drop 1 argv) e)"

section \<open>echo, kill, ln, mkdir, rm\<close>

fun echo_args :: "'e sysio \<Rightarrow> u8 list list \<Rightarrow> 'e \<Rightarrow> 'e" where
  "echo_args io [] e = e"
| "echo_args io (a # argv) e =
     (let (_, e) = u_write io 1 a e;
          (_, e) = u_write io 1 (if argv \<noteq> [] then [32] else [10]) e
      in echo_args io argv e)"

definition echo_main :: "'e sysio \<Rightarrow> u8 list list \<Rightarrow> 'e \<Rightarrow> int \<times> 'e" where
  "echo_main io argv e = (0, echo_args io (drop 1 argv) e)"

definition kill_main :: "'e sysio \<Rightarrow> u8 list list \<Rightarrow> 'e \<Rightarrow> (int \<times> 'e) option" where
  "kill_main io argv e =
     (if length argv < 2 then do {
        e \<leftarrow> fprintf io 2 (bytes ''usage: kill pid...'' @ [10]) [] e;
        Some (1, e)
      } else Some (0, fold (\<lambda>a e. snd (u_kill io (atoi a) e)) (drop 1 argv) e))"

definition ln_main :: "'e sysio \<Rightarrow> u8 list list \<Rightarrow> 'e \<Rightarrow> (int \<times> 'e) option" where
  "ln_main io argv e =
     (if length argv \<noteq> 3 then do {
        e \<leftarrow> fprintf io 2 (bytes ''Usage: ln old new'' @ [10]) [] e;
        Some (1, e)
      } else do {
        let (r, e) = u_link io (argv ! 1) (argv ! 2) e;
        e \<leftarrow> (if r < 0 then fprintf io 2 (bytes ''link %s %s: failed'' @ [10])
                     [PStr (Some (argv ! 1)), PStr (Some (argv ! 2))] e
             else Some e);
        Some (0, e)
      })"

fun mkdir_args :: "'e sysio \<Rightarrow> u8 list list \<Rightarrow> 'e \<Rightarrow> 'e option" where
  "mkdir_args io [] e = Some e"
| "mkdir_args io (a # argv) e = do {
     let (r, e) = u_mkdir io a e;
     if r < 0 then fprintf io 2 (bytes ''mkdir: %s failed to create'' @ [10]) [PStr (Some a)] e
     else mkdir_args io argv e
   }"

definition mkdir_main :: "'e sysio \<Rightarrow> u8 list list \<Rightarrow> 'e \<Rightarrow> (int \<times> 'e) option" where
  "mkdir_main io argv e = do {
     if length argv < 2 then do {
       e \<leftarrow> fprintf io 2 (bytes ''Usage: mkdir files...'' @ [10]) [] e;
       Some (1, e)
     } else do {
       e \<leftarrow> mkdir_args io (drop 1 argv) e;
       Some (0, e)
     }
   }"

fun rm_args :: "'e sysio \<Rightarrow> u8 list list \<Rightarrow> 'e \<Rightarrow> 'e option" where
  "rm_args io [] e = Some e"
| "rm_args io (a # argv) e = do {
     let (r, e) = u_unlink io a e;
     if r < 0 then fprintf io 2 (bytes ''rm: %s failed to delete'' @ [10]) [PStr (Some a)] e
     else rm_args io argv e
   }"

definition rm_main :: "'e sysio \<Rightarrow> u8 list list \<Rightarrow> 'e \<Rightarrow> (int \<times> 'e) option" where
  "rm_main io argv e = do {
     if length argv < 2 then do {
       e \<leftarrow> fprintf io 2 (bytes ''Usage: rm files...'' @ [10]) [] e;
       Some (1, e)
     } else do {
       e \<leftarrow> rm_args io (drop 1 argv) e;
       Some (0, e)
     }
   }"

section \<open>ls\<close>

text \<open>The index just after the last slash before \<open>p\<close>: the scan from the end, then \<^verbatim>\<open>p++\<close>.\<close>

fun fmt_scan :: "u8 list \<Rightarrow> nat \<Rightarrow> nat" where
  "fmt_scan path 0 = 0"
| "fmt_scan path (Suc i) = (if at path i \<noteq> 47 then fmt_scan path i else Suc i)"

definition fmtname :: "u8 list \<Rightarrow> u8 list" where
  "fmtname path =
     (let p = drop (fmt_scan path (length path + 1)) path
      in if length p \<ge> DIRSIZ then p else p @ replicate (DIRSIZ - length p) 32)"

definition ls_print :: "'e sysio \<Rightarrow> u8 list \<Rightarrow> stat \<Rightarrow> 'e \<Rightarrow> 'e option" where
  "ls_print io path st e =
     uprintf io (bytes ''%s %d %d %d'' @ [10])
       [PStr (Some (fmtname path)), PVal (word_of_int (sint (st_type st))), PVal (ucast (st_ino st)), PVal (st_size st)] e"

text \<open>The entries of the open directory; \<open>path\<close> is the directory's name with a slash appended.\<close>

partial_function (option) ls_dir :: "'e sysio \<Rightarrow> int \<Rightarrow> u8 list \<Rightarrow> 'e \<Rightarrow> 'e option" where
  "ls_dir io fd path e =
     (case u_read io fd 16 e of
        (Some de, e) \<Rightarrow>
          if length de = 16 then
            if de_inum de = 0 then ls_dir io fd path e
            else (let buf = path @ cstr_at (de_name de) DIRSIZ 0
                  in case ustat io buf e of
                       (None, e) \<Rightarrow> do {
                         e \<leftarrow> uprintf io (bytes ''ls: cannot stat %s'' @ [10]) [PStr (Some buf)] e;
                         ls_dir io fd path e
                       }
                     | (Some st, e) \<Rightarrow> do {
                         e \<leftarrow> ls_print io buf st e;
                         ls_dir io fd path e
                       })
          else Some e
      | (None, e) \<Rightarrow> Some e)"

definition ls :: "'e sysio \<Rightarrow> u8 list \<Rightarrow> 'e \<Rightarrow> 'e option" where
  "ls io path e =
     (let (fd, e) = u_open io path O_RDONLY e
      in if fd < 0 then fprintf io 2 (bytes ''ls: cannot open %s'' @ [10]) [PStr (Some path)] e
         else (case u_fstat io fd e of
                 (None, e) \<Rightarrow> do {
                   e \<leftarrow> fprintf io 2 (bytes ''ls: cannot stat %s'' @ [10]) [PStr (Some path)] e;
                   Some (u_close io fd e)
                 }
               | (Some st, e) \<Rightarrow> do {
                   e \<leftarrow> (if st_type st = T_DEVICE \<or> st_type st = T_FILE then ls_print io path st e
                        else if st_type st = T_DIR then
                          (if length path + 1 + DIRSIZ + 1 > 512
                           then uprintf io (bytes ''ls: path too long'' @ [10]) [] e
                           else ls_dir io fd (path @ [47]) e)
                        else Some e);
                   Some (u_close io fd e)
                 }))"

fun ls_args :: "'e sysio \<Rightarrow> u8 list list \<Rightarrow> 'e \<Rightarrow> 'e option" where
  "ls_args io [] e = Some e"
| "ls_args io (a # argv) e = do {
     e \<leftarrow> ls io a e;
     ls_args io argv e
   }"

definition ls_main :: "'e sysio \<Rightarrow> u8 list list \<Rightarrow> 'e \<Rightarrow> (int \<times> 'e) option" where
  "ls_main io argv e = do {
     e \<leftarrow> (if length argv < 2 then ls io (bytes ''.'') e else ls_args io (drop 1 argv) e);
     Some (0, e)
   }"

section \<open>Properties\<close>

text \<open>The word starts of a byte sequence: non-blank bytes at the front or after a blank.\<close>

definition word_starts :: "u8 list \<Rightarrow> nat list" where
  "word_starts xs =
     filter (\<lambda>i. xs ! i \<notin> set wc_space \<and> (i = 0 \<or> xs ! (i - 1) \<in> set wc_space)) [0..<length xs]"

lemma wc_fold:
  "fold wc_byte xs \<lparr>wl = 0, ww = 0, wch = 0, inword = False\<rparr> =
     \<lparr>wl = of_nat (length (filter (\<lambda>b. b = 10) xs)), ww = of_nat (length (word_starts xs)),
      wch = of_nat (length xs), inword = (xs \<noteq> [] \<and> last xs \<notin> set wc_space)\<rparr>"
proof (induction xs rule: rev_induct)
  case Nil
  then show ?case by (simp add: word_starts_def)
next
  case (snoc b xs)
  have "word_starts (xs @ [b]) =
      word_starts xs @ (if b \<notin> set wc_space \<and> (xs = [] \<or> last xs \<in> set wc_space) then [length xs] else [])"
    by (auto simp: word_starts_def nth_append last_conv_nth intro!: filter_cong)
  moreover have "strchr wc_space b \<noteq> None \<longleftrightarrow> b \<in> set wc_space" by (auto simp: strchr_None)
  ultimately show ?case
    using snoc by (auto simp: wc_byte_def Let_def)
qed

lemma sext32_ucast: "sext32 (ucast (l :: u32)) = word_of_int (sint l)"
proof -
  have "ucast (ucast l :: u64) = l" by (rule bit_eqI) (auto simp: bit_simps dest: bit_imp_le_length)
  then show ?thesis by (simp add: sext32_def)
qed

abbreviation decimal :: "nat \<Rightarrow> u8 list" where
  "decimal n \<equiv> rev (uprintint_buf Dec n)"

lemma uprintint_of_nat:
  assumes "n < 2147483648"
  shows "uprintint (sext32 (ucast (of_nat n :: u32))) Dec True = decimal n"
proof -
  have "sint (of_nat n :: u32) = int n"
    using assms by (simp add: signed_of_nat signed_take_bit_int_eq_self)
  then have x: "sext32 (ucast (of_nat n :: u32)) = of_nat n" by (simp add: sext32_ucast)
  have "sint (of_nat n :: u64) = int n"
    using assms by (simp add: signed_of_nat signed_take_bit_int_eq_self)
  then show ?thesis using assms by (simp add: x uprintint_def unat_of_nat_64)
qed

lemma wc_format:
  assumes "l < 2147483648" "w < 2147483648" "c < 2147483648"
  shows "vprintf_out False (bytes ''%d %d %d %s'' @ [10])
      [PVal (ucast (of_nat l :: u32)), PVal (ucast (of_nat w :: u32)), PVal (ucast (of_nat c :: u32)), PStr (Some name)]
    = Some (decimal l @ [32] @ decimal w @ [32] @ decimal c @ [32] @ name @ [10])"
  using assms by (simp add: bytes_def uconv_def uprintint_of_nat)

lemma wc_loop_reads:
  assumes "byte_io io fds inp outp" and "1 \<in> fds" and "fd \<in> fds"
  shows "\<exists>e'. wc_loop io fd t e = Some (Inr (fold wc_byte (inp fd e) t), e') \<and> outp 1 e' = outp 1 e"
proof (induction "length (inp fd e)" arbitrary: e t rule: less_induct)
  case less
  obtain bs e1 where r: "u_read io fd 512 e = (Some bs, e1)" "inp fd e = bs @ inp fd e1"
    "bs = [] \<Longrightarrow> inp fd e = []" "outp 1 e1 = outp 1 e"
    using byte_io_read[OF assms(1,3), of 512 e] assms(2) by (metis zero_neq_numeral)
  show ?case
  proof (cases "bs = []")
    case True
    then show ?thesis using r by (subst wc_loop.simps) auto
  next
    case False
    then show ?thesis using less[of e1 "fold wc_byte bs t"] r by (subst wc_loop.simps) auto
  qed
qed

text \<open>
  C10. \<^verbatim>\<open>wc\<close> counts right, however the kernel splits the input into reads. For an input of less than
  \<open>2^31\<close> bytes it returns and prints, in decimal, the number of newlines, the number of words (a word
  starts at every non-blank byte at the front or after a blank) and the number of bytes, then the name.
\<close>

theorem wc_counts:
  assumes "byte_io io fds inp outp" and "1 \<in> fds" and "fd \<in> fds" and "length (inp fd e) < 2 ^ 31"
  shows "\<exists>e'. wc io fd name e = Some (Inr (), e') \<and>
    outp 1 e' = outp 1 e @ decimal (length (filter (\<lambda>b. b = 10) (inp fd e))) @ [32]
      @ decimal (length (word_starts (inp fd e))) @ [32] @ decimal (length (inp fd e)) @ [32] @ name @ [10]"
proof -
  obtain e1 where l: "wc_loop io fd \<lparr>wl = 0, ww = 0, wch = 0, inword = False\<rparr> e =
      Some (Inr (fold wc_byte (inp fd e) \<lparr>wl = 0, ww = 0, wch = 0, inword = False\<rparr>), e1)" "outp 1 e1 = outp 1 e"
    using wc_loop_reads[OF assms(1-3)] by blast
  have "length (filter (\<lambda>b. b = 10) (inp fd e)) \<le> length (inp fd e)" by simp
  moreover have "length (word_starts (inp fd e)) \<le> length (inp fd e)"
    using length_filter_le[of _ "[0..<length (inp fd e)]"] by (simp add: word_starts_def)
  ultimately have "vprintf_out False (bytes ''%d %d %d %s'' @ [10])
      [PVal (ucast (of_nat (length (filter (\<lambda>b. b = 10) (inp fd e))) :: u32)),
       PVal (ucast (of_nat (length (word_starts (inp fd e))) :: u32)),
       PVal (ucast (of_nat (length (inp fd e)) :: u32)), PStr (Some name)] =
    Some (decimal (length (filter (\<lambda>b. b = 10) (inp fd e))) @ [32] @ decimal (length (word_starts (inp fd e)))
      @ [32] @ decimal (length (inp fd e)) @ [32] @ name @ [10])"
    using assms(4) by (intro wc_format) (simp_all del: length_filter_le)
  then show ?thesis
    using l(2) by (elim uprintf_prints[OF assms(1,2), where e = e1]) (simp add: wc_def l(1) wc_fold)
qed

theorem wc_counts_witness:
  "\<exists>e'. wc tape_io 0 [] ((\<lambda>_. [])(0 := bytes ''to be'' @ [10]), \<lambda>_. []) = Some (Inr (), e')
     \<and> snd e' 1 = bytes ''1 2 6 '' @ [10]"
proof -
  let ?xs = "bytes ''to be'' @ [10]"
  have "length ?xs = 6" "length (filter (\<lambda>b. b = 10) ?xs) = 1" "length (word_starts ?xs) = 2"
    "decimal (Suc 0) = [49]" "decimal 2 = [50]" "decimal 6 = [54]" "bytes ''1 2 6 '' = [49, 32, 50, 32, 54, 32]"
    by code_simp+
  then show ?thesis
    using wc_counts[OF byte_io_tape, of 0 "((\<lambda>_. [])(0 := ?xs), \<lambda>_. [])" "[]"] by simp
qed

text \<open>
  C25. \<^verbatim>\<open>cat\<close> copies its input. On descriptors that deliver and accept bytes, \<^verbatim>\<open>cat\<close> returns without an
  error, has consumed the whole input and has appended it, unchanged, to the output.
\<close>

theorem cat_copies:
  assumes "byte_io io fds inp outp" and "1 \<in> fds" and "fd \<in> fds"
  shows "\<exists>e'. cat io fd e = Some (Inr (), e') \<and> outp 1 e' = outp 1 e @ inp fd e \<and> inp fd e' = []"
proof (induction "length (inp fd e)" arbitrary: e rule: less_induct)
  case less
  obtain bs e1 where r: "u_read io fd 512 e = (Some bs, e1)" "inp fd e = bs @ inp fd e1"
    "bs = [] \<Longrightarrow> inp fd e = []" "outp 1 e1 = outp 1 e"
    using byte_io_read[OF assms(1,3), of 512 e] assms(2) by (metis zero_neq_numeral)
  show ?case
  proof (cases "bs = []")
    case True
    then show ?thesis using r by (subst cat.simps) auto
  next
    case False
    obtain e2 where w: "u_write io 1 bs e1 = (int (length bs), e2)" "outp 1 e2 = outp 1 e1 @ bs"
      "inp fd e2 = inp fd e1"
      using byte_io_write[OF assms(1,2), of bs e1] assms(3) by metis
    have "cat io fd e = cat io fd e2" using r(1) w(1) False by (subst cat.simps) simp
    then show ?thesis using less[of e2] r w False by auto
  qed
qed

theorem cat_copies_witness:
  "\<exists>e'. cat tape_io 0 ((\<lambda>_. [])(0 := [1, 2, 3, 4, 5]), \<lambda>_. []) = Some (Inr (), e') \<and> snd e' 1 = [1, 2, 3, 4, 5]"
  using cat_copies[OF byte_io_tape, of 0 "((\<lambda>_. [])(0 := [1, 2, 3, 4, 5]), \<lambda>_. [])"] by auto

section \<open>Decimal numbers\<close>

lemma atoi_from_append:
  "\<forall>d\<in>set ds. 48 \<le> d \<and> d \<le> 57 \<Longrightarrow> atoi_from n (ds @ ys) = atoi_from (atoi_from n ds) ys"
proof (induction ds arbitrary: n)
  case Nil
  then show ?case by (simp add: atoi_from.simps[of n "[]"] at_def)
next
  case (Cons d ds)
  have "at (d # ds @ ys) 0 = d" "at (d # ds) 0 = d" by (simp_all add: at_def)
  then show ?case using Cons by (simp add: atoi_from.simps[of n "d # ds @ ys"] atoi_from.simps[of n "d # ds"])
qed

lemma udigit_range: "d < 10 \<Longrightarrow> 48 \<le> udigit d \<and> udigit d \<le> 57 \<and> ucast (udigit d) - 48 = (of_nat d :: u32)"
proof -
  assume "d < 10"
  then have "d = 0 \<or> d = 1 \<or> d = 2 \<or> d = 3 \<or> d = 4 \<or> d = 5 \<or> d = 6 \<or> d = 7 \<or> d = 8 \<or> d = 9" by arith
  then show ?thesis by (elim disjE) (simp_all add: udigit_def)
qed

lemma decimal_step: "decimal x = (if x div 10 \<noteq> 0 then decimal (x div 10) else []) @ [udigit (x mod 10)]"
  by (subst uprintint_buf.simps) simp

lemma decimal_digits: "\<forall>d\<in>set (decimal x). 48 \<le> d \<and> d \<le> 57"
proof (induction x rule: less_induct)
  case (less x)
  have "\<forall>d\<in>set (if x div 10 \<noteq> 0 then decimal (x div 10) else []). 48 \<le> d \<and> d \<le> 57"
    using less[of "x div 10"] by (cases "x = 0") auto
  then show ?case by (subst decimal_step) (auto simp: udigit_range)
qed

lemma atoi_from_decimal: "atoi_from 0 (decimal x) = of_nat x"
proof (induction x rule: less_induct)
  case (less x)
  let ?ds = "if x div 10 \<noteq> 0 then decimal (x div 10) else []"
  have ds: "atoi_from 0 ?ds = of_nat (x div 10)"
    using less[of "x div 10"] by (cases "x = 0") (auto simp: atoi_from.simps[of 0 "[]"] at_def)
  have one: "atoi_from n [d] = n * 10 + ucast d - 48" if "48 \<le> d" "d \<le> 57" for n d
    using that by (simp add: atoi_from.simps[of n "[d]"] atoi_from.simps[of _ "[]"] at_def)
  have "atoi_from 0 (decimal x) = atoi_from (atoi_from 0 ?ds) [udigit (x mod 10)]"
    using decimal_digits[of "x div 10"] by (subst decimal_step) (auto simp: atoi_from_append)
  also have "\<dots> = of_nat (x div 10) * 10 + (ucast (udigit (x mod 10)) - 48)"
    unfolding ds using udigit_range[of "x mod 10"] by (simp add: one)
  also have "\<dots> = of_nat (x div 10) * 10 + of_nat (x mod 10)" using udigit_range[of "x mod 10"] by simp
  also have "\<dots> = of_nat (x div 10 * 10 + x mod 10)" by (simp only: of_nat_add of_nat_mult of_nat_numeral)
  finally show ?case by simp
qed

text \<open>
  C26. Printing and reading decimal numbers are inverse: \<^verbatim>\<open>atoi\<close> of the bytes \<^verbatim>\<open>printf("%d", n)\<close> prints
  is \<open>n\<close>, for every non-negative \<^verbatim>\<open>int\<close>.
\<close>

theorem atoi_printf:
  assumes "n < 2 ^ 31"
  shows "\<exists>out. vprintf_out False (bytes ''%d'') [PVal (of_nat n)] = Some out \<and> atoi out = int n"
proof -
  have "(ucast (of_nat n :: u64) :: u32) = of_nat n" using assms by (simp add: unsigned_of_nat take_bit_nat_eq_self)
  then have "uprintint (sext32 (of_nat n)) Dec True = decimal n"
    using uprintint_of_nat[of n] assms by (simp add: sext32_def unsigned_of_nat take_bit_nat_eq_self)
  then have "vprintf_out False (bytes ''%d'') [PVal (of_nat n)] = Some (decimal n)"
    by (simp add: bytes_def uconv_def)
  moreover have "atoi (decimal n) = int n"
    using assms by (simp add: atoi_def atoi_from_decimal signed_of_nat signed_take_bit_int_eq_self)
  ultimately show ?thesis by blast
qed

theorem atoi_printf_witness:
  "\<exists>out. vprintf_out False (bytes ''%d'') [PVal 4096] = Some out \<and> atoi out = 4096"
  using atoi_printf[of 4096] by simp

end
