(* ===== verification/Stdio.thy ===== *)
theory Stdio
  imports Utils Grep
begin

text \<open>
  What the host utilities (\<^verbatim>\<open>custom_*.c\<close>, \<^verbatim>\<open>Shell.c\<close>) use of the C library: character classes, decimal
  output with a field width, \<^verbatim>\<open>fgets\<close>, \<^verbatim>\<open>strtok\<close> and \<^verbatim>\<open>getopt\<close>.

  A program is a function on the standard streams \<open>stdst\<close>: the input not yet read and the bytes
  written to standard output and error. The files of the host are the parameter \<open>host\<close>: the content
  \<^verbatim>\<open>fopen\<close> finds under a name, or the error text. \<^verbatim>\<open>getopt\<close> is that of the GNU library, which accepts
  options after operands; its own diagnostic for an unknown option is not recorded.
\<close>

record stdst =
  sin :: "u8 list"
  sout :: "u8 list"
  serr :: "u8 list"

record host =
  fcontent :: "u8 list \<Rightarrow> u8 list option"
  ferror :: "u8 list \<Rightarrow> u8 list"

definition emit :: "u8 list \<Rightarrow> stdst \<Rightarrow> stdst" where
  "emit bs s = s\<lparr>sout := sout s @ bs\<rparr>"

definition complain :: "u8 list \<Rightarrow> stdst \<Rightarrow> stdst" where
  "complain bs s = s\<lparr>serr := serr s @ bs\<rparr>"

lemma emit_simps [simp]:
  "sout (emit bs s) = sout s @ bs" "serr (emit bs s) = serr s" "sin (emit bs s) = sin s"
  "emit bs (emit cs s) = emit (cs @ bs) s" "emit [] s = s"
  "emit bs (s\<lparr>sin := xs\<rparr>) = (emit bs s)\<lparr>sin := xs\<rparr>"
  by (simp_all add: emit_def)

lemma complain_simps [simp]:
  "sout (complain bs s) = sout s" "serr (complain bs s) = serr s @ bs" "sin (complain bs s) = sin s"
  by (simp_all add: complain_def)

definition is_space :: "u8 \<Rightarrow> bool" where
  "is_space c \<longleftrightarrow> c = 32 \<or> (9 \<le> c \<and> c \<le> 13)"

text \<open>\<^verbatim>\<open>%wld\<close> of a non-negative number.\<close>

definition dec_width :: "nat \<Rightarrow> nat \<Rightarrow> u8 list" where
  "dec_width w n = replicate (w - length (decimal n)) 32 @ decimal n"

text \<open>\<^verbatim>\<open>fgets\<close> with a buffer of \<open>n + 1\<close> bytes: up to \<open>n\<close> bytes, ending after the first newline.\<close>

fun fgets_take :: "nat \<Rightarrow> u8 list \<Rightarrow> u8 list" where
  "fgets_take 0 xs = []"
| "fgets_take (Suc n) [] = []"
| "fgets_take (Suc n) (x # xs) = (if x = 10 then [x] else x # fgets_take n xs)"

lemma fgets_prefix: "fgets_take n xs @ drop (length (fgets_take n xs)) xs = xs"
  by (induction n xs rule: fgets_take.induct) auto

lemma fgets_nonempty: "xs \<noteq> [] \<Longrightarrow> 0 < n \<Longrightarrow> 0 < length (fgets_take n xs)"
  by (cases n; cases xs) auto

lemma fgets_length: "length (fgets_take n xs) \<le> n"
  by (induction n xs rule: fgets_take.induct) auto

text \<open>The lines of a file as \<^verbatim>\<open>getline\<close> delivers them, each with its newline except perhaps the last.\<close>

function getlines :: "u8 list \<Rightarrow> u8 list list" where
  "getlines xs =
     (if xs = [] then []
      else fgets_take (length xs) xs # getlines (drop (length (fgets_take (length xs) xs)) xs))"
  by pat_completeness auto
termination
proof (relation "measure length")
  fix xs :: "u8 list" assume "xs \<noteq> []"
  then show "(drop (length (fgets_take (length xs) xs)) xs, xs) \<in> measure length"
    using fgets_nonempty[of xs "length xs"] by simp
qed simp

declare getlines.simps [simp del]

lemma getlines_Nil [simp]: "getlines [] = []"
  by (simp add: getlines.simps)

lemma fgets_all: "10 \<notin> set l \<Longrightarrow> length l \<le> n \<Longrightarrow> fgets_take n l = l"
proof (induction l arbitrary: n)
  case (Cons c l)
  then show ?case by (cases n) auto
qed (metis fgets_take.elims list.distinct(1))

lemma fgets_line: "10 \<notin> set l \<Longrightarrow> length l < n \<Longrightarrow> fgets_take n (l @ 10 # xs) = l @ [10]"
proof (induction l arbitrary: n)
  case Nil
  then show ?case by (cases n) auto
next
  case (Cons c l)
  then show ?case by (cases n) auto
qed

lemma getlines_line: "10 \<notin> set l \<Longrightarrow> getlines (l @ 10 # xs) = (l @ [10]) # getlines xs"
  by (subst getlines.simps) (simp add: fgets_line)

lemma getlines_tail: "10 \<notin> set l \<Longrightarrow> l \<noteq> [] \<Longrightarrow> getlines l = [l]"
  by (subst getlines.simps) (simp add: fgets_all)

lemma concat_getlines: "concat (getlines xs) = xs"
proof (induction xs rule: getlines.induct)
  case (1 xs)
  then show ?case using fgets_prefix[of "length xs" xs] by (subst getlines.simps) simp
qed

text \<open>The tokens of \<^verbatim>\<open>strtok\<close>: the maximal runs of characters that are not delimiters.\<close>

function strtok_all :: "u8 list \<Rightarrow> u8 list \<Rightarrow> u8 list list" where
  "strtok_all delim xs =
     (let ys = dropWhile (\<lambda>c. c \<in> set delim) xs
      in if ys = [] then []
         else takeWhile (\<lambda>c. c \<notin> set delim) ys # strtok_all delim (dropWhile (\<lambda>c. c \<notin> set delim) ys))"
  by pat_completeness auto
termination
proof (relation "measure (length o snd)")
  fix delim xs ys :: "u8 list"
  assume ys: "ys = dropWhile (\<lambda>c. c \<in> set delim) xs" "ys \<noteq> []"
  obtain y zs where y: "ys = y # zs" using ys(2) by (cases ys) blast+
  have "hd ys \<notin> set delim" unfolding ys(1) by (rule hd_dropWhile) (use ys in simp)
  then have "length (dropWhile (\<lambda>c. c \<notin> set delim) ys) < length ys"
    using length_dropWhile_le[of "\<lambda>c. c \<notin> set delim" zs] by (simp add: y)
  moreover have "length ys \<le> length xs" unfolding ys(1) by (rule length_dropWhile_le)
  ultimately show "((delim, dropWhile (\<lambda>c. c \<notin> set delim) ys), delim, xs) \<in> measure (length o snd)" by simp
qed simp

declare strtok_all.simps [simp del]

section \<open>getopt\<close>

text \<open>
  The letters of one option cluster: the options read, and what ended it: the end of the cluster, an
  option that takes its argument from the next word, or an unknown letter. \<open>fl\<close> are the flags, \<open>ar\<close>
  the options with an argument.
\<close>

datatype cluster_end = Done | Wants u8 | Bad

fun cluster :: "u8 list \<Rightarrow> u8 list \<Rightarrow> u8 list \<Rightarrow> (u8 \<times> u8 list) list \<times> cluster_end" where
  "cluster fl ar [] = ([], Done)"
| "cluster fl ar (c # cs) =
     (if c \<in> set ar then (if cs \<noteq> [] then ([(c, cs)], Done) else ([], Wants c))
      else if c \<in> set fl then (let (os, e) = cluster fl ar cs in ((c, []) # os, e))
      else ([], Bad))"

text \<open>The options in order, whether an error ended the scan, and the operands.\<close>

function getopt :: "u8 list \<Rightarrow> u8 list \<Rightarrow> u8 list list \<Rightarrow> (u8 \<times> u8 list) list \<times> bool \<times> u8 list list" where
  "getopt fl ar [] = ([], False, [])"
| "getopt fl ar (x # xs) =
     (if x = [45, 45] then ([], False, xs)
      else if at x 0 = 45 \<and> length x > 1 then
        (case cluster fl ar (drop 1 x) of
           (os, Done) \<Rightarrow> (let (os', e, r) = getopt fl ar xs in (os @ os', e, r))
         | (os, Wants c) \<Rightarrow>
             (case xs of
                [] \<Rightarrow> (os, True, [])
              | y # ys \<Rightarrow> (let (os', e, r) = getopt fl ar ys in (os @ (c, y) # os', e, r)))
         | (os, Bad) \<Rightarrow> (os, True, []))
      else (let (os, e, r) = getopt fl ar xs in (os, e, x # r)))"
  by pat_completeness auto
termination
  by (relation "measure (\<lambda>(fl, ar, xs). length xs)") auto

lemma getopt_operands:
  "list_all (\<lambda>x. \<not> (at x 0 = 45 \<and> length x > 1)) xs \<Longrightarrow> getopt fl ar xs = ([], False, xs)"
  by (induction xs) (auto simp: at_def)

end
