(* ===== verification/CustomWc.thy ===== *)
theory CustomWc
  imports Stdio
begin

text \<open>
  The host utilities \<^verbatim>\<open>custom_wc.c\<close> and \<^verbatim>\<open>custom_head_tail.c\<close>. Counters of type \<^verbatim>\<open>long\<close> are natural
  numbers: they count bytes of a file and cannot overflow. A file is the sequence of the bytes \<^verbatim>\<open>fgetc\<close>
  delivers; standard input is at its end after one file has been read from it.
\<close>

section \<open>Counting\<close>

record cwc =
  cw_lines :: nat
  cw_words :: nat
  cw_bytes :: nat
  cw_curlen :: nat
  cw_maxlen :: nat
  cw_in :: bool

definition cwc_byte :: "u8 \<Rightarrow> cwc \<Rightarrow> cwc" where
  "cwc_byte c t =
     (let t = t\<lparr>cw_bytes := cw_bytes t + 1\<rparr>;
          t = (if c = 10 then t\<lparr>cw_lines := cw_lines t + 1,
                                cw_maxlen := (if cw_curlen t > cw_maxlen t then cw_curlen t else cw_maxlen t),
                                cw_curlen := 0\<rparr>
               else t\<lparr>cw_curlen := cw_curlen t + 1\<rparr>)
      in if is_space c then t\<lparr>cw_in := False\<rparr>
         else if \<not> cw_in t then t\<lparr>cw_words := cw_words t + 1, cw_in := True\<rparr>
         else t)"

text \<open>The counts of a whole file, with the last line that has no newline.\<close>

definition cwc_count :: "u8 list \<Rightarrow> cwc" where
  "cwc_count xs =
     (let t = fold cwc_byte xs \<lparr>cw_lines = 0, cw_words = 0, cw_bytes = 0, cw_curlen = 0, cw_maxlen = 0, cw_in = False\<rparr>
      in if cw_curlen t > cw_maxlen t then t\<lparr>cw_maxlen := cw_curlen t\<rparr> else t)"

record wcopt =
  opt_lines :: bool
  opt_words :: bool
  opt_bytes :: bool
  opt_chars :: bool
  opt_maxlen :: bool

record wctot =
  tl_lines :: nat
  tl_words :: nat
  tl_bytes :: nat
  tl_max :: nat

text \<open>The columns selected by the options.\<close>

definition wc_columns :: "wcopt \<Rightarrow> nat \<Rightarrow> nat \<Rightarrow> nat \<Rightarrow> nat \<Rightarrow> u8 list" where
  "wc_columns op l w b m =
     (if opt_lines op then 32 # dec_width 7 l else [])
     @ (if opt_words op then 32 # dec_width 7 w else [])
     @ (if opt_bytes op \<or> opt_chars op then 32 # dec_width 7 b else [])
     @ (if opt_maxlen op then 32 # dec_width 7 m else [])"

definition wc_file :: "wcopt \<Rightarrow> u8 list \<Rightarrow> u8 list option \<Rightarrow> wctot \<Rightarrow> stdst \<Rightarrow> wctot \<times> stdst" where
  "wc_file op fp name tot s =
     (let t = cwc_count fp;
          tot = tot\<lparr>tl_lines := tl_lines tot + cw_lines t, tl_words := tl_words tot + cw_words t,
                    tl_bytes := tl_bytes tot + cw_bytes t,
                    tl_max := (if cw_maxlen t > tl_max tot then cw_maxlen t else tl_max tot)\<rparr>
      in (tot, emit (wc_columns op (cw_lines t) (cw_words t) (cw_bytes t) (cw_maxlen t)
                     @ (case name of None \<Rightarrow> [] | Some n \<Rightarrow> 32 # n) @ [10]) s))"

definition wc_option :: "u8 \<times> u8 list \<Rightarrow> wcopt \<Rightarrow> wcopt" where
  "wc_option p op =
     (if fst p = 108 then op\<lparr>opt_lines := True\<rparr>
      else if fst p = 119 then op\<lparr>opt_words := True\<rparr>
      else if fst p = 99 then op\<lparr>opt_bytes := True\<rparr>
      else if fst p = 109 then op\<lparr>opt_chars := True\<rparr>
      else op\<lparr>opt_maxlen := True\<rparr>)"

fun wc_operands :: "host \<Rightarrow> wcopt \<Rightarrow> u8 list list \<Rightarrow> wctot \<Rightarrow> stdst \<Rightarrow> wctot \<times> stdst" where
  "wc_operands h op [] tot s = (tot, s)"
| "wc_operands h op (a # argv) tot s =
     (if a = [45] then
        (let (tot, s') = wc_file op (sin s) (Some a) tot s
         in wc_operands h op argv tot (s'\<lparr>sin := []\<rparr>))
      else (case fcontent h a of
              None \<Rightarrow> wc_operands h op argv tot
                        (complain (bytes ''custom_wc: '' @ a @ bytes '': '' @ ferror h a @ [10]) s)
            | Some fp \<Rightarrow> (let (tot, s) = wc_file op fp (Some a) tot s in wc_operands h op argv tot s)))"

definition custom_wc :: "host \<Rightarrow> u8 list list \<Rightarrow> stdst \<Rightarrow> int \<times> stdst" where
  "custom_wc h argv s =
     (case getopt (bytes ''lwcmL'') [] (drop 1 argv) of (os, bad, fnames) \<Rightarrow>
        if bad then (1, complain (bytes ''Usage: custom_wc [-lwcmL] [file...]'' @ [10]) s)
        else (let op = fold wc_option os \<lparr>opt_lines = False, opt_words = False, opt_bytes = False,
                                         opt_chars = False, opt_maxlen = False\<rparr>;
                  op = (if \<not> opt_lines op \<and> \<not> opt_words op \<and> \<not> opt_bytes op \<and> \<not> opt_chars op \<and> \<not> opt_maxlen op
                       then op\<lparr>opt_lines := True, opt_words := True, opt_bytes := True\<rparr> else op);
                  tot = \<lparr>tl_lines = 0, tl_words = 0, tl_bytes = 0, tl_max = 0\<rparr>
              in if fnames = [] then (let (_, s') = wc_file op (sin s) None tot s in (0, s'\<lparr>sin := []\<rparr>))
                 else (let (tot, s) = wc_operands h op fnames tot s
                       in if length fnames > 1
                          then (0, emit (wc_columns op (tl_lines tot) (tl_words tot) (tl_bytes tot) (tl_max tot)
                                         @ bytes '' total'' @ [10]) s)
                          else (0, s))))"

section \<open>Correctness of the counts\<close>

text \<open>The lengths of the lines of a file, the last one included even without a newline.\<close>

fun line_lengths :: "nat \<Rightarrow> u8 list \<Rightarrow> nat list" where
  "line_lengths k [] = [k]"
| "line_lengths k (c # cs) = (if c = 10 then k # line_lengths 0 cs else line_lengths (Suc k) cs)"

definition cwords :: "u8 list \<Rightarrow> nat list" where
  "cwords xs = filter (\<lambda>i. \<not> is_space (xs ! i) \<and> (i = 0 \<or> is_space (xs ! (i - 1)))) [0..<length xs]"

lemma max_fold:
  "(let t = fold cwc_byte xs t in max (cw_maxlen t) (cw_curlen t)) =
     Max (insert (cw_maxlen t) (set (line_lengths (cw_curlen t) xs)))"
proof (induction xs arbitrary: t)
  case (Cons c xs)
  let ?t = "cwc_byte c t"
  have "cw_maxlen ?t = (if c = 10 then max (cw_maxlen t) (cw_curlen t) else cw_maxlen t)"
    "cw_curlen ?t = (if c = 10 then 0 else Suc (cw_curlen t))"
    by (auto simp: cwc_byte_def Let_def max_def)
  moreover have "set (line_lengths k ys) \<noteq> {}" for k ys by (induction k ys rule: line_lengths.induct) auto
  ultimately show ?case using Cons[of ?t] by (auto simp: Let_def max.assoc max.left_commute)
qed (simp add: Let_def)

lemma cwc_fold:
  "let t = fold cwc_byte xs \<lparr>cw_lines = 0, cw_words = 0, cw_bytes = 0, cw_curlen = 0, cw_maxlen = 0, cw_in = False\<rparr>
   in cw_lines t = length (filter (\<lambda>b. b = 10) xs) \<and> cw_words t = length (cwords xs) \<and> cw_bytes t = length xs
     \<and> cw_in t = (xs \<noteq> [] \<and> \<not> is_space (last xs))"
proof (induction xs rule: rev_induct)
  case Nil
  then show ?case by (simp add: cwords_def)
next
  case (snoc b xs)
  have "cwords (xs @ [b]) =
      cwords xs @ (if \<not> is_space b \<and> (xs = [] \<or> is_space (last xs)) then [length xs] else [])"
    by (auto simp: cwords_def nth_append last_conv_nth intro!: filter_cong)
  then show ?case using snoc by (auto simp: cwc_byte_def Let_def)
qed

lemma cwc_count_spec:
  "cw_lines (cwc_count xs) = length (filter (\<lambda>b. b = 10) xs)" "cw_words (cwc_count xs) = length (cwords xs)"
  "cw_bytes (cwc_count xs) = length xs" "cw_maxlen (cwc_count xs) = Max (set (line_lengths 0 xs))"
proof -
  let ?t0 = "\<lparr>cw_lines = 0, cw_words = 0, cw_bytes = 0, cw_curlen = 0, cw_maxlen = 0, cw_in = False\<rparr>"
  show "cw_lines (cwc_count xs) = length (filter (\<lambda>b. b = 10) xs)" "cw_words (cwc_count xs) = length (cwords xs)"
    "cw_bytes (cwc_count xs) = length xs"
    using cwc_fold[of xs] by (simp_all add: cwc_count_def Let_def)
  have ne: "set (line_lengths k ys) \<noteq> {}" for k ys by (induction k ys rule: line_lengths.induct) auto
  have "cw_maxlen (cwc_count xs) = max (cw_maxlen (fold cwc_byte xs ?t0)) (cw_curlen (fold cwc_byte xs ?t0))"
    by (simp add: cwc_count_def Let_def max_def)
  also have "\<dots> = Max (insert 0 (set (line_lengths 0 xs)))" using max_fold[of xs ?t0] by (simp add: Let_def)
  also have "\<dots> = Max (set (line_lengths 0 xs))" using ne by simp
  finally show "cw_maxlen (cwc_count xs) = Max (set (line_lengths 0 xs))" .
qed

lemma space_agree: "c \<noteq> 12 \<Longrightarrow> is_space c \<longleftrightarrow> c \<in> set wc_space"
  by (auto simp: is_space_def wc_space_def word_le_nat_alt word_unat_eq_iff)

lemma cwords_word_starts:
  assumes "12 \<notin> set xs"
  shows "cwords xs = word_starts xs"
proof -
  have "xs ! i \<noteq> 12" "xs ! (i - 1) \<noteq> 12" if "i < length xs" for i
    using assms that by (metis nth_mem, metis less_imp_diff_less nth_mem)
  then show ?thesis unfolding cwords_def word_starts_def by (intro filter_cong) (auto simp: space_agree)
qed

text \<open>
  C35. The two word counters of the repository agree: on input without form feeds, which only one of
  them treats as blank, \<^verbatim>\<open>custom_wc\<close> and the kernel's \<^verbatim>\<open>wc\<close> arrive at the same numbers of lines, words
  and bytes, up to the 32 bits the latter counts in.
\<close>

theorem wc_programs_agree:
  assumes "12 \<notin> set xs"
  shows "fold wc_byte xs \<lparr>wl = 0, ww = 0, wch = 0, inword = False\<rparr> =
    \<lparr>wl = of_nat (cw_lines (cwc_count xs)), ww = of_nat (cw_words (cwc_count xs)),
     wch = of_nat (cw_bytes (cwc_count xs)), inword = cw_in (cwc_count xs)\<rparr>"
proof -
  have last: "last xs \<noteq> 12" if "xs \<noteq> []" using assms that by (metis last_in_set)
  have "cw_in (cwc_count xs) \<longleftrightarrow> xs \<noteq> [] \<and> \<not> is_space (last xs)"
    using cwc_fold[of xs] by (simp add: cwc_count_def Let_def)
  also have "\<dots> \<longleftrightarrow> xs \<noteq> [] \<and> last xs \<notin> set wc_space" using last by (auto simp: space_agree)
  finally show ?thesis by (simp add: wc_fold cwc_count_spec cwords_word_starts[OF assms])
qed

theorem wc_programs_agree_witness:
  "fold wc_byte (bytes ''a b'' @ [10]) \<lparr>wl = 0, ww = 0, wch = 0, inword = False\<rparr> =
    \<lparr>wl = of_nat (cw_lines (cwc_count (bytes ''a b'' @ [10]))), ww = of_nat (cw_words (cwc_count (bytes ''a b'' @ [10]))),
     wch = of_nat (cw_bytes (cwc_count (bytes ''a b'' @ [10]))), inword = cw_in (cwc_count (bytes ''a b'' @ [10]))\<rparr>"
proof -
  have "12 \<notin> set (bytes ''a b'' @ [10])" by code_simp
  then show ?thesis by (rule wc_programs_agree)
qed

text \<open>What is printed for one file in the default format.\<close>

abbreviation wc_row :: "nat \<Rightarrow> nat \<Rightarrow> nat \<Rightarrow> u8 list \<Rightarrow> u8 list" where
  "wc_row l w b label \<equiv> 32 # dec_width 7 l @ 32 # dec_width 7 w @ 32 # dec_width 7 b @ 32 # label @ [10]"

abbreviation newlines :: "u8 list \<Rightarrow> nat" where
  "newlines xs \<equiv> length (filter (\<lambda>b. b = 10) xs)"

lemma wc_operands_files:
  assumes "\<forall>f\<in>set fs. fst f \<noteq> [45] \<and> fcontent h (fst f) = Some (snd f)"
  shows "\<exists>m. wc_operands h \<lparr>opt_lines = True, opt_words = True, opt_bytes = True, opt_chars = False, opt_maxlen = False\<rparr>
      (map fst fs) tot s =
    (\<lparr>tl_lines = tl_lines tot + (\<Sum>f\<leftarrow>fs. newlines (snd f)), tl_words = tl_words tot + (\<Sum>f\<leftarrow>fs. length (cwords (snd f))),
      tl_bytes = tl_bytes tot + (\<Sum>f\<leftarrow>fs. length (snd f)), tl_max = m\<rparr>,
     emit (concat (map (\<lambda>f. wc_row (newlines (snd f)) (length (cwords (snd f))) (length (snd f)) (fst f)) fs)) s)"
  using assms
proof (induction fs arbitrary: tot s)
  case (Cons f fs)
  let ?op = "\<lparr>opt_lines = True, opt_words = True, opt_bytes = True, opt_chars = False, opt_maxlen = False\<rparr>"
  obtain tot' where w: "wc_file ?op (snd f) (Some (fst f)) tot s =
      (tot', emit (wc_row (newlines (snd f)) (length (cwords (snd f))) (length (snd f)) (fst f)) s)"
    "tl_lines tot' = tl_lines tot + newlines (snd f)" "tl_words tot' = tl_words tot + length (cwords (snd f))"
    "tl_bytes tot' = tl_bytes tot + length (snd f)"
    by (simp add: wc_file_def wc_columns_def cwc_count_spec Let_def)
  have "\<forall>f\<in>set fs. fst f \<noteq> [45] \<and> fcontent h (fst f) = Some (snd f)" using Cons.prems by simp
  from Cons.IH[OF this] obtain m where "wc_operands h ?op (map fst fs) tot'
      (emit (wc_row (newlines (snd f)) (length (cwords (snd f))) (length (snd f)) (fst f)) s) =
    (\<lparr>tl_lines = tl_lines tot' + (\<Sum>f\<leftarrow>fs. newlines (snd f)), tl_words = tl_words tot' + (\<Sum>f\<leftarrow>fs. length (cwords (snd f))),
      tl_bytes = tl_bytes tot' + (\<Sum>f\<leftarrow>fs. length (snd f)), tl_max = m\<rparr>,
     emit (concat (map (\<lambda>f. wc_row (newlines (snd f)) (length (cwords (snd f))) (length (snd f)) (fst f)) fs))
       (emit (wc_row (newlines (snd f)) (length (cwords (snd f))) (length (snd f)) (fst f)) s))"
    by blast
  then show ?case using Cons.prems w by simp
next
  case Nil
  then show ?case by (intro exI[of _ "tl_max tot"]) simp
qed

text \<open>
  C36. \<^verbatim>\<open>custom_wc\<close> without options on two or more readable files prints one row per file, in order, with
  its numbers of newlines, words and bytes and its name, and then the row of the sums.
\<close>

theorem custom_wc_totals:
  assumes "\<forall>f\<in>set fs. at (fst f) 0 \<noteq> 45 \<and> fcontent h (fst f) = Some (snd f)" and "2 \<le> length fs"
  shows "custom_wc h (prog # map fst fs) s =
    (0, emit (concat (map (\<lambda>f. wc_row (newlines (snd f)) (length (cwords (snd f))) (length (snd f)) (fst f)) fs)
      @ wc_row (\<Sum>f\<leftarrow>fs. newlines (snd f)) (\<Sum>f\<leftarrow>fs. length (cwords (snd f))) (\<Sum>f\<leftarrow>fs. length (snd f)) (bytes ''total'')) s)"
proof -
  have "list_all (\<lambda>x. \<not> (at x 0 = 45 \<and> length x > 1)) (map fst fs)" using assms(1) by (auto simp: list_all_iff)
  from getopt_operands[OF this] have g: "getopt (bytes ''lwcmL'') [] (map fst fs) = ([], False, map fst fs)" .
  have "\<forall>f\<in>set fs. fst f \<noteq> [45] \<and> fcontent h (fst f) = Some (snd f)" using assms(1) by (auto simp: at_def)
  from wc_operands_files[OF this, of "\<lparr>tl_lines = 0, tl_words = 0, tl_bytes = 0, tl_max = 0\<rparr>" s] obtain m where
    "wc_operands h \<lparr>opt_lines = True, opt_words = True, opt_bytes = True, opt_chars = False, opt_maxlen = False\<rparr>
      (map fst fs) \<lparr>tl_lines = 0, tl_words = 0, tl_bytes = 0, tl_max = 0\<rparr> s =
    (\<lparr>tl_lines = (\<Sum>f\<leftarrow>fs. newlines (snd f)), tl_words = (\<Sum>f\<leftarrow>fs. length (cwords (snd f))),
      tl_bytes = (\<Sum>f\<leftarrow>fs. length (snd f)), tl_max = m\<rparr>,
     emit (concat (map (\<lambda>f. wc_row (newlines (snd f)) (length (cwords (snd f))) (length (snd f)) (fst f)) fs)) s)"
    by auto
  moreover have "bytes '' total'' = 32 # bytes ''total''" by (simp add: bytes_def)
  moreover have "fs \<noteq> []" "Suc 0 < length fs" using assms(2) by auto
  ultimately show ?thesis by (simp add: custom_wc_def g Let_def wc_columns_def)
qed

theorem custom_wc_totals_witness:
  "custom_wc \<lparr>fcontent = (\<lambda>a. Some (a @ [10])), ferror = (\<lambda>_. [])\<rparr> [[], bytes ''x'', bytes ''yz''] \<lparr>sin = [], sout = [], serr = []\<rparr> =
    (0, emit (wc_row 1 1 2 (bytes ''x'') @ wc_row 1 1 3 (bytes ''yz'') @ wc_row 2 2 5 (bytes ''total'')) \<lparr>sin = [], sout = [], serr = []\<rparr>)"
proof -
  let ?h = "\<lparr>fcontent = (\<lambda>a. Some (a @ [10])), ferror = (\<lambda>_. [])\<rparr>"
  let ?fs = "[(bytes ''x'', bytes ''x'' @ [10]), (bytes ''yz'', bytes ''yz'' @ [10])]"
  have "length (cwords (bytes ''x'' @ [10])) = 1" "length (cwords (bytes ''yz'' @ [10])) = 1"
    "newlines (bytes ''x'' @ [10]) = 1" "newlines (bytes ''yz'' @ [10]) = 1"
    "length (bytes ''x'' @ [10]) = 2" "length (bytes ''yz'' @ [10]) = 3"
    "at (bytes ''x'') 0 \<noteq> 45" "at (bytes ''yz'') 0 \<noteq> 45"
    by code_simp+
  then show ?thesis using custom_wc_totals[of ?fs ?h "[]" "\<lparr>sin = [], sout = [], serr = []\<rparr>"] by (simp add: numeral_eq_Suc)
qed

section \<open>head and tail\<close>

definition MAX_LINES :: nat where "MAX_LINES = 10000"
definition MAX_LEN :: nat where "MAX_LEN = 1024"

text \<open>The library's \<^verbatim>\<open>atoi\<close>: blanks, a sign, digits.\<close>

fun dec_value :: "int \<Rightarrow> u8 list \<Rightarrow> int" where
  "dec_value v [] = v"
| "dec_value v (c # cs) = (if 48 \<le> c \<and> c \<le> 57 then dec_value (10 * v + (uint c - 48)) cs else v)"

definition libc_atoi :: "u8 list \<Rightarrow> int" where
  "libc_atoi xs =
     (let ys = dropWhile is_space xs
      in if at ys 0 = 45 then - dec_value 0 (drop 1 ys)
         else if at ys 0 = 43 then dec_value 0 (drop 1 ys)
         else dec_value 0 ys)"

definition show_int :: "int \<Rightarrow> u8 list" where
  "show_int n = (if n < 0 then 45 # decimal (nat (- n)) else decimal (nat n))"

record htopt =
  ht_n :: int
  ht_head :: bool
  ht_tail :: bool
  ht_file :: "u8 list option"

fun ht_args :: "u8 list list \<Rightarrow> htopt \<Rightarrow> htopt" where
  "ht_args [] op = op"
| "ht_args (a # argv) op =
     (if a = bytes ''-n'' \<and> argv \<noteq> [] then ht_args (drop 1 argv) (op\<lparr>ht_n := libc_atoi (hd argv)\<rparr>)
      else if a = bytes ''-h'' then ht_args argv (op\<lparr>ht_tail := False\<rparr>)
      else if a = bytes ''-t'' then ht_args argv (op\<lparr>ht_head := False\<rparr>)
      else ht_args argv (op\<lparr>ht_file := Some a\<rparr>))"

text \<open>The pieces \<^verbatim>\<open>fgets\<close> delivers; each is kept as a C string, so up to a NUL.\<close>

function ht_lines :: "u8 list \<Rightarrow> u8 list list" where
  "ht_lines fp =
     (if fp = [] then []
      else takeWhile (\<lambda>b. b \<noteq> 0) (fgets_take (MAX_LEN - 1) fp)
             # ht_lines (drop (length (fgets_take (MAX_LEN - 1) fp)) fp))"
  by pat_completeness auto
termination
  by (relation "measure length") (use fgets_nonempty[of _ "MAX_LEN - 1"] in \<open>auto simp: MAX_LEN_def\<close>)

declare ht_lines.simps [simp del]

text \<open>Storing more than \<^verbatim>\<open>MAX_LINES\<close> lines overruns the array: no result.\<close>

definition head_tail :: "host \<Rightarrow> u8 list list \<Rightarrow> stdst \<Rightarrow> (int \<times> stdst) option" where
  "head_tail h argv s =
     (let op = ht_args (drop 1 argv) \<lparr>ht_n = 10, ht_head = True, ht_tail = True, ht_file = None\<rparr>
      in case ht_file op of
           None \<Rightarrow> Some (1, complain (bytes ''Usage: custom_headtail [OPTIONS] file'' @ [10]) s)
         | Some a \<Rightarrow>
             (case fcontent h a of
                None \<Rightarrow> Some (1, complain (bytes ''Error opening file: '' @ ferror h a @ [10]) s)
              | Some fp \<Rightarrow>
                  (let lines = ht_lines fp;
                       count = int (length lines);
                       n = ht_n op;
                       s = (if ht_head op
                            then emit (bytes ''---- HEAD ('' @ show_int n @ bytes '' lines) ----'' @ [10]
                                       @ concat (map (\<lambda>i. lines ! nat i) [0..min n count - 1])) s
                            else s);
                       s = (if ht_tail op
                            then emit (bytes ''---- TAIL ('' @ show_int n @ bytes '' lines) ----'' @ [10]
                                       @ concat (map (\<lambda>i. if i \<ge> 0 then lines ! nat i else []) [count - n..count - 1])) s
                            else s)
                   in if length lines > MAX_LINES then None else Some (0, s))))"

text \<open>A line as it stands in a file: terminated, short enough for the buffer and without NUL.\<close>

definition is_line :: "u8 list \<Rightarrow> bool" where
  "is_line l \<longleftrightarrow> l \<noteq> [] \<and> last l = 10 \<and> 10 \<notin> set (butlast l) \<and> 0 \<notin> set l \<and> length l < MAX_LEN"

lemma ht_lines_concat: "list_all is_line xss \<Longrightarrow> ht_lines (concat xss) = xss"
proof (induction xss)
  case Nil
  then show ?case by (subst ht_lines.simps) simp
next
  case (Cons l xss)
  then have l: "l = butlast l @ [10]" "10 \<notin> set (butlast l)" "0 \<notin> set l" "length l < MAX_LEN"
    by (auto simp: is_line_def) (metis append_butlast_last_id)
  have len: "length l = length (butlast l) + 1" by (subst l(1)) simp
  have f: "fgets_take (MAX_LEN - 1) (concat (l # xss)) = l"
    using fgets_line[OF l(2), of "MAX_LEN - 1" "concat xss"] l(1,4) len by (metis append_Cons append_assoc append_Nil
        concat.simps(2) less_diff_conv)
  have "takeWhile (\<lambda>b. b \<noteq> 0) l = l" using l(3) by (auto simp: takeWhile_eq_all_conv)
  moreover have "concat (l # xss) \<noteq> []" using len by auto
  ultimately show ?case using Cons f by (subst ht_lines.simps) simp
qed

lemma upto_take: "0 \<le> n \<Longrightarrow> map (\<lambda>i. xs ! nat i) [0..min n (int (length xs)) - 1] = take (nat n) xs"
  by (rule nth_equalityI) (auto simp: nth_upto zless_nat_eq_int_zless)

lemma upto_drop:
  assumes "0 \<le> n"
  shows "concat (map (\<lambda>i. if i \<ge> 0 then xs ! nat i else []) [int (length xs) - n..int (length xs) - 1])
    = concat (drop (length xs - nat n) xs)"
proof (cases "nat n \<le> length xs")
  case True
  then have "map (\<lambda>i. if i \<ge> 0 then xs ! nat i else []) [int (length xs) - n..int (length xs) - 1] = drop (length xs - nat n) xs"
    using assms by (intro nth_equalityI) (auto simp: nth_upto nat_diff_distrib nat_add_distrib)
  then show ?thesis by simp
next
  case False
  then have "[int (length xs) - n..int (length xs) - 1] = [int (length xs) - n..-1] @ [0..int (length xs) - 1]"
    using assms upto_split1[of "int (length xs) - n" 0 "int (length xs) - 1"] by (cases "xs = []") auto
  moreover have "map (\<lambda>i. if i \<ge> 0 then xs ! nat i else []) [0..int (length xs) - 1] = xs"
    by (rule nth_equalityI) (auto simp: nth_upto)
  moreover have "concat (map (\<lambda>i. if i \<ge> 0 then xs ! nat i else []) [int (length xs) - n..-1]) = []"
    by auto
  ultimately show ?thesis using False by simp
qed



end
