(* ===== verification/CustomGrep.thy ===== *)
theory CustomGrep
  imports Stdio
begin

text \<open>
  The host utility \<^verbatim>\<open>custom_grep.c\<close>. The regular-expression library is the parameter
  \<open>regcomp\<close>, which yields the matching predicate of a pattern; the directories of the host are the
  fields added to \<open>host\<close>; \<open>ferror\<close> is the one error text of a name, whichever of \<^verbatim>\<open>stat\<close>, \<^verbatim>\<open>opendir\<close> and
  \<^verbatim>\<open>fopen\<close> fails. The recursion over directories is bounded by fuel, \<open>None\<close> being its exhaustion. What an
  early return leaves unread of the standard input is dropped, since the program ends there.
\<close>

section \<open>Searching one file\<close>

record grepopt =
  g_ignore_case :: bool
  g_invert :: bool
  g_line_num :: bool
  g_count :: bool
  g_list_files :: bool
  g_recursive :: bool
  g_whole_word :: bool
  g_whole_line :: bool
  g_quiet :: bool
  g_force_fname :: bool
  g_no_fname :: bool
  g_pattern :: "u8 list option"

text \<open>A line as it is matched and printed: without its newline, up to a NUL.\<close>

definition line_text :: "u8 list \<Rightarrow> u8 list" where
  "line_text l = takeWhile (\<lambda>b. b \<noteq> 0) (if l \<noteq> [] \<and> last l = 10 then butlast l else l)"

text \<open>\<^verbatim>\<open>printf("%s:", filename)\<close>; the library prints a null pointer as \<^verbatim>\<open>(null)\<close>.\<close>

definition show_name :: "u8 list option \<Rightarrow> u8 list" where
  "show_name name = (case name of None \<Rightarrow> bytes ''(null)'' | Some a \<Rightarrow> a)"

definition or_stdin :: "u8 list option \<Rightarrow> u8 list" where
  "or_stdin name = (case name of None \<Rightarrow> bytes ''(stdin)'' | Some a \<Rightarrow> a)"

text \<open>The loop over the lines: whether it returned early, the number of matches, the output.\<close>

fun do_grep_loop ::
  "grepopt \<Rightarrow> bool \<Rightarrow> (u8 list \<Rightarrow> bool) \<Rightarrow> u8 list option \<Rightarrow> nat \<Rightarrow> nat \<Rightarrow> u8 list list \<Rightarrow> u8 list
     \<Rightarrow> bool \<times> nat \<times> u8 list" where
  "do_grep_loop op fname re name lineno cnt [] out = (False, cnt, out)"
| "do_grep_loop op fname re name lineno cnt (l # xs) out =
     (let lineno = lineno + 1;
          line = line_text l;
          matched = (if g_invert op then \<not> re line else re line)
      in if matched then
           (let cnt = cnt + 1
            in if g_quiet op then (True, cnt, out)
               else if g_list_files op then (True, cnt, out @ or_stdin name @ [10])
               else if \<not> g_count op
               then do_grep_loop op fname re name lineno cnt xs
                      (out @ (if fname then show_name name @ [58] else [])
                           @ (if g_line_num op then decimal lineno @ [58] else []) @ line @ [10])
               else do_grep_loop op fname re name lineno cnt xs out)
         else do_grep_loop op fname re name lineno cnt xs out)"

text \<open>The result, whether a line matched, and the streams after.\<close>

definition do_grep :: "grepopt \<Rightarrow> bool \<Rightarrow> (u8 list \<Rightarrow> bool) \<Rightarrow> u8 list option \<Rightarrow> u8 list \<Rightarrow> stdst \<Rightarrow> bool \<times> stdst" where
  "do_grep op multi_file re name fp s =
     (let fname = ((multi_file \<or> g_force_fname op) \<and> \<not> g_no_fname op);
          (early, cnt, out) = do_grep_loop op fname re name 0 0 (getlines fp) []
      in if early then (True, emit out s)
         else (cnt > 0, emit (out @ (if g_count op then (if fname then or_stdin name @ [58] else []) @ decimal cnt @ [10]
                                     else [])) s))"

section \<open>Files and directories\<close>

text \<open>\<open>g_isdir\<close> is the result of \<^verbatim>\<open>stat\<close>, \<open>g_entries\<close> that of \<^verbatim>\<open>opendir\<close> and \<^verbatim>\<open>readdir\<close>.\<close>

record ghost = host +
  g_isdir :: "u8 list \<Rightarrow> bool option"
  g_entries :: "u8 list \<Rightarrow> u8 list list option"

definition perror :: "ghost \<Rightarrow> u8 list \<Rightarrow> stdst \<Rightarrow> stdst" where
  "perror h path s = complain (path @ bytes '': '' @ ferror h path @ [10]) s"

text \<open>\<open>found\<close> is the global \<^verbatim>\<open>found_any\<close>.\<close>

fun grep_path :: "nat \<Rightarrow> ghost \<Rightarrow> grepopt \<Rightarrow> bool \<Rightarrow> (u8 list \<Rightarrow> bool) \<Rightarrow> u8 list \<Rightarrow> bool \<times> stdst \<Rightarrow> (bool \<times> stdst) option"
  and grep_dir :: "nat \<Rightarrow> ghost \<Rightarrow> grepopt \<Rightarrow> bool \<Rightarrow> (u8 list \<Rightarrow> bool) \<Rightarrow> u8 list \<Rightarrow> u8 list list \<Rightarrow> bool \<times> stdst \<Rightarrow> (bool \<times> stdst) option" where
  "grep_path 0 h op mf re path fs = None"
| "grep_path (Suc fuel) h op mf re path (found, s) =
     (case g_isdir h path of
        None \<Rightarrow> Some (found, perror h path s)
      | Some True \<Rightarrow>
          if g_recursive op then
            (case g_entries h path of
               None \<Rightarrow> Some (found, perror h path s)
             | Some names \<Rightarrow> grep_dir fuel h op mf re path names (found, s))
          else Some (found, complain (bytes ''custom_grep: '' @ path @ bytes '': Is a directory'' @ [10]) s)
      | Some False \<Rightarrow>
          (case fcontent h path of
             None \<Rightarrow> Some (found, complain (bytes ''custom_grep: '' @ path @ bytes '': '' @ ferror h path @ [10]) s)
           | Some fp \<Rightarrow> (let (r, s) = do_grep op mf re (Some path) fp s in Some (found \<or> r, s))))"
| "grep_dir fuel h op mf re dirpath [] fs = Some fs"
| "grep_dir fuel h op mf re dirpath (d # names) fs =
     (if d = [46] \<or> d = [46, 46] then grep_dir fuel h op mf re dirpath names fs
      else (case grep_path fuel h op mf re (take 4095 (dirpath @ [47] @ d)) fs of
              None \<Rightarrow> None
            | Some fs \<Rightarrow> grep_dir fuel h op mf re dirpath names fs))"

fun grep_args :: "nat \<Rightarrow> ghost \<Rightarrow> grepopt \<Rightarrow> bool \<Rightarrow> (u8 list \<Rightarrow> bool) \<Rightarrow> u8 list list \<Rightarrow> bool \<times> stdst \<Rightarrow> (bool \<times> stdst) option" where
  "grep_args fuel h op mf re [] fs = Some fs"
| "grep_args fuel h op mf re (a # argv) fs =
     (case grep_path fuel h op mf re a fs of
        None \<Rightarrow> None
      | Some fs \<Rightarrow> grep_args fuel h op mf re argv fs)"

definition grep_option :: "u8 \<times> u8 list \<Rightarrow> grepopt \<Rightarrow> grepopt" where
  "grep_option p op =
     (if fst p = 105 then op\<lparr>g_ignore_case := True\<rparr>
      else if fst p = 118 then op\<lparr>g_invert := True\<rparr>
      else if fst p = 110 then op\<lparr>g_line_num := True\<rparr>
      else if fst p = 99 then op\<lparr>g_count := True\<rparr>
      else if fst p = 108 then op\<lparr>g_list_files := True\<rparr>
      else if fst p = 114 then op\<lparr>g_recursive := True\<rparr>
      else if fst p = 119 then op\<lparr>g_whole_word := True\<rparr>
      else if fst p = 120 then op\<lparr>g_whole_line := True\<rparr>
      else if fst p = 113 then op\<lparr>g_quiet := True\<rparr>
      else if fst p = 72 then op\<lparr>g_force_fname := True\<rparr>
      else if fst p = 104 then op\<lparr>g_no_fname := True\<rparr>
      else op\<lparr>g_pattern := Some (snd p)\<rparr>)"

definition build_pattern :: "grepopt \<Rightarrow> u8 list \<Rightarrow> u8 list" where
  "build_pattern op p =
     take 4095
       (if g_whole_line op then bytes ''^('' @ p @ bytes '')$''
        else if g_whole_word op then bytes ''(^|[^[:alnum:]_])('' @ p @ bytes '')([^[:alnum:]_]|$)''
        else p)"

definition custom_grep ::
  "(u8 list \<Rightarrow> bool \<Rightarrow> (u8 list \<Rightarrow> bool) option) \<Rightarrow> nat \<Rightarrow> ghost \<Rightarrow> u8 list list \<Rightarrow> stdst \<Rightarrow> (int \<times> stdst) option" where
  "custom_grep regcomp fuel h argv s =
     (case getopt (bytes ''ivnclrwxqHh'') (bytes ''e'') (drop 1 argv) of (os, bad, rest) \<Rightarrow>
        if bad then Some (2, complain (bytes ''Usage: custom_grep [-ivnclerwxqHh] [-e pattern] pattern [file...]'' @ [10]) s)
        else (let op = fold grep_option os \<lparr>g_ignore_case = False, g_invert = False, g_line_num = False, g_count = False,
                         g_list_files = False, g_recursive = False, g_whole_word = False, g_whole_line = False,
                         g_quiet = False, g_force_fname = False, g_no_fname = False, g_pattern = None\<rparr>
              in if g_pattern op = None \<and> rest = [] then Some (2, complain (bytes ''custom_grep: missing pattern'' @ [10]) s)
                 else (let (p, rest) = (case g_pattern op of Some p \<Rightarrow> (p, rest) | None \<Rightarrow> (hd rest, tl rest))
                       in case regcomp (build_pattern op p) (g_ignore_case op) of
                            None \<Rightarrow> Some (2, complain (bytes ''custom_grep: invalid regex: '' @ p @ [10]) s)
                          | Some re \<Rightarrow>
                              if rest = [] then
                                (let (r, s') = do_grep op False re None (sin s) s in Some (if r then 0 else 1, s'\<lparr>sin := []\<rparr>))
                              else (case grep_args fuel h op (length rest > 1) re rest (False, s) of
                                      None \<Rightarrow> None
                                    | Some (found, s) \<Rightarrow> Some (if found then 0 else 1, s)))))"

section \<open>What do_grep prints\<close>

definition selects :: "grepopt \<Rightarrow> (u8 list \<Rightarrow> bool) \<Rightarrow> u8 list \<Rightarrow> bool" where
  "selects op re l \<longleftrightarrow> re (line_text l) \<noteq> g_invert op"

text \<open>The selected lines of a file with their prefixes; \<open>k\<close> lines come before.\<close>

fun selected_out :: "grepopt \<Rightarrow> bool \<Rightarrow> (u8 list \<Rightarrow> bool) \<Rightarrow> u8 list option \<Rightarrow> nat \<Rightarrow> u8 list list \<Rightarrow> u8 list" where
  "selected_out op fname re name k [] = []"
| "selected_out op fname re name k (l # xs) =
     (if selects op re l
      then (if fname then show_name name @ [58] else []) @ (if g_line_num op then decimal (k + 1) @ [58] else [])
             @ line_text l @ [10]
      else []) @ selected_out op fname re name (k + 1) xs"

lemma do_grep_loop_out:
  assumes "\<not> g_quiet op" and "\<not> g_list_files op"
  shows "do_grep_loop op fname re name k cnt xs out =
    (False, cnt + length (filter (selects op re) xs), out @ (if g_count op then [] else selected_out op fname re name k xs))"
  using assms by (induction xs arbitrary: k cnt out) (auto simp: selects_def Let_def)

lemma do_grep_loop_early:
  assumes "g_quiet op \<or> g_list_files op"
  shows "do_grep_loop op fname re name k cnt xs out =
    (if \<exists>l\<in>set xs. selects op re l then (True, cnt + 1, out @ (if g_quiet op then [] else or_stdin name @ [10])) else (False, cnt, out))"
  using assms by (induction xs arbitrary: k) (auto simp: selects_def Let_def)

text \<open>
  C16. What \<^verbatim>\<open>custom_grep\<close> prints for one file, whatever the matcher. In the normal mode it prints the
  selected lines in order, each with the file name and line number where these are asked for; with
  \<^verbatim>\<open>-c\<close> it prints instead how many lines are selected; with \<^verbatim>\<open>-q\<close> nothing and with \<^verbatim>\<open>-l\<close> the file name at
  most once (without \<^verbatim>\<open>-c\<close>). In every mode it reports success exactly when some line is selected, and
  \<^verbatim>\<open>-v\<close> selects exactly the lines that are not selected without it.
\<close>

theorem do_grep_spec:
  "let fname = ((mf \<or> g_force_fname op) \<and> \<not> g_no_fname op); found = (\<exists>l\<in>set (getlines fp). selects op re l);
       count = length (filter (selects op re) (getlines fp))
   in fst (do_grep op mf re name fp s) = found
    \<and> (\<not> g_quiet op \<and> \<not> g_list_files op \<longrightarrow> snd (do_grep op mf re name fp s) =
         emit (if g_count op then (if fname then or_stdin name @ [58] else []) @ decimal count @ [10]
               else selected_out op fname re name 0 (getlines fp)) s)
    \<and> (g_quiet op \<and> \<not> g_count op \<longrightarrow> snd (do_grep op mf re name fp s) = s)
    \<and> (\<not> g_quiet op \<and> g_list_files op \<and> \<not> g_count op \<longrightarrow>
         snd (do_grep op mf re name fp s) = emit (if found then or_stdin name @ [10] else []) s)
    \<and> (\<forall>l. selects (op\<lparr>g_invert := \<not> g_invert op\<rparr>) re l \<longleftrightarrow> \<not> selects op re l)"
proof -
  have ex: "0 < length (filter (selects op re) xs) \<longleftrightarrow> (\<exists>l\<in>set xs. selects op re l)" for xs
    by (auto simp: filter_empty_conv)
  show ?thesis
  proof (cases "g_quiet op \<or> g_list_files op")
    case True
    then show ?thesis by (auto simp: do_grep_def Let_def do_grep_loop_early[OF True] selects_def)
  next
    case False
    then have "\<not> g_quiet op" "\<not> g_list_files op" by auto
    note loop = do_grep_loop_out[OF this]
    show ?thesis using False ex[of "getlines fp"] by (auto simp: do_grep_def Let_def loop selects_def)
  qed
qed

definition grep_plain :: grepopt where
  "grep_plain = \<lparr>g_ignore_case = False, g_invert = False, g_line_num = False, g_count = False, g_list_files = False,
     g_recursive = False, g_whole_word = False, g_whole_line = False, g_quiet = False, g_force_fname = False,
     g_no_fname = False, g_pattern = None\<rparr>"

theorem do_grep_spec_witness:
  "do_grep (grep_plain\<lparr>g_line_num := True\<rparr>) True (\<lambda>l. 97 \<in> set l) (Some [120]) [98, 10, 97, 98, 10, 97]
       \<lparr>sin = [], sout = [], serr = []\<rparr>
     = (True, \<lparr>sin = [], sout = [120, 58, 50, 58, 97, 98, 10, 120, 58, 51, 58, 97, 10], serr = []\<rparr>)"
proof -
  have ls: "getlines [98, 10, 97, 98, 10, 97] = [[98, 10], [97, 98, 10], [97 :: u8]]" by code_simp
  have dec: "decimal (Suc (Suc 0)) = [50]" "decimal (Suc (Suc (Suc 0))) = [51]" by code_simp+
  show ?thesis
    using do_grep_spec[of True "grep_plain\<lparr>g_line_num := True\<rparr>" "[98, 10, 97, 98, 10, 97]" "\<lambda>l. 97 \<in> set l" "Some [120]"
        "\<lparr>sin = [], sout = [], serr = []\<rparr>"]
    by (intro prod_eqI) (simp_all add: ls dec grep_plain_def selects_def line_text_def show_name_def emit_def Let_def)
qed

end
