(* ===== verification/CustomText.thy ===== *)
theory CustomText
  imports Stdio
begin

text \<open>The host utilities \<^verbatim>\<open>custom_cat.c\<close> and \<^verbatim>\<open>custom_echo.c\<close>.\<close>

section \<open>custom_cat\<close>

record catopt =
  opt_number :: bool
  opt_number_nb :: bool
  opt_show_ends :: bool
  opt_show_tabs :: bool
  opt_show_nonprint :: bool
  opt_squeeze :: bool

text \<open>The locals of \<^verbatim>\<open>cat_file\<close>; the line number is its static variable.\<close>

record catst =
  cc_lineno :: nat
  cc_prev :: u8
  cc_blank :: nat
  cc_started :: bool
  cc_printed :: bool
  cc_out :: "u8 list"

definition cat_char :: "catopt \<Rightarrow> u8 \<Rightarrow> u8 list" where
  "cat_char op c =
     (if c = 10 then (if opt_show_ends op then [36] else []) @ [10]
      else if c = 9 \<and> opt_show_tabs op then [94, 73]
      else if opt_show_nonprint op \<and> (c < 32 \<or> c = 127) \<and> c \<noteq> 9
      then (if c < 32 then [94, c + 64] else [94, 63])
      else [c])"

definition cat_byte :: "catopt \<Rightarrow> u8 \<Rightarrow> catst \<Rightarrow> catst" where
  "cat_byte op c t =
     (let t = (if opt_squeeze op
               then (if c = 10 \<and> cc_prev t = 10 then t\<lparr>cc_blank := cc_blank t + 1\<rparr> else t\<lparr>cc_blank := 0\<rparr>)
               else t)
      in if opt_squeeze op \<and> c = 10 \<and> cc_prev t = 10 \<and> cc_blank t > 1 then t\<lparr>cc_prev := c\<rparr>
         else (let t = (if cc_prev t = 10
                        then (let t = t\<lparr>cc_started := True, cc_printed := False\<rparr>
                              in if opt_number op \<and> \<not> opt_number_nb op
                                 then t\<lparr>cc_lineno := cc_lineno t + 1,
                                        cc_out := cc_out t @ dec_width 6 (cc_lineno t + 1) @ [9], cc_printed := True\<rparr>
                                 else t)
                        else t);
                   t = (if opt_number_nb op \<and> \<not> cc_printed t \<and> cc_started t \<and> \<not> is_space c \<and> c \<noteq> 10
                        then t\<lparr>cc_lineno := cc_lineno t + 1,
                               cc_out := cc_out t @ dec_width 6 (cc_lineno t + 1) @ [9], cc_printed := True\<rparr>
                        else t);
                   t = t\<lparr>cc_out := cc_out t @ cat_char op c\<rparr>;
                   t = (if c = 10 then t\<lparr>cc_started := False\<rparr> else t)
               in t\<lparr>cc_prev := c\<rparr>))"

definition cat_file :: "catopt \<Rightarrow> u8 list \<Rightarrow> nat \<Rightarrow> stdst \<Rightarrow> nat \<times> stdst" where
  "cat_file op fp lineno s =
     (let t = fold (cat_byte op) fp \<lparr>cc_lineno = lineno, cc_prev = 10, cc_blank = 0, cc_started = False,
                                     cc_printed = False, cc_out = []\<rparr>
      in (cc_lineno t, emit (cc_out t) s))"

definition cat_option :: "u8 \<times> u8 list \<Rightarrow> catopt \<Rightarrow> catopt" where
  "cat_option p op =
     (if fst p = 110 then op\<lparr>opt_number := True\<rparr>
      else if fst p = 98 then op\<lparr>opt_number_nb := True, opt_number := False\<rparr>
      else if fst p = 65 then op\<lparr>opt_show_ends := True, opt_show_tabs := True, opt_show_nonprint := True\<rparr>
      else if fst p = 69 then op\<lparr>opt_show_ends := True\<rparr>
      else if fst p = 84 then op\<lparr>opt_show_tabs := True\<rparr>
      else if fst p = 118 then op\<lparr>opt_show_nonprint := True\<rparr>
      else op\<lparr>opt_squeeze := True\<rparr>)"

fun cat_operands :: "host \<Rightarrow> catopt \<Rightarrow> u8 list list \<Rightarrow> nat \<Rightarrow> stdst \<Rightarrow> stdst" where
  "cat_operands h op [] n s = s"
| "cat_operands h op (a # argv) n s =
     (if a = [45] then
        (let (n, s') = cat_file op (sin s) n s in cat_operands h op argv n (s'\<lparr>sin := []\<rparr>))
      else (case fcontent h a of
              None \<Rightarrow> cat_operands h op argv n
                        (complain (bytes ''custom_cat: '' @ a @ bytes '': '' @ ferror h a @ [10]) s)
            | Some fp \<Rightarrow> (let (n, s) = cat_file op fp n s in cat_operands h op argv n s)))"

definition custom_cat :: "host \<Rightarrow> u8 list list \<Rightarrow> stdst \<Rightarrow> int \<times> stdst" where
  "custom_cat h argv s =
     (case getopt (bytes ''nbAETvs'') [] (drop 1 argv) of (os, bad, names) \<Rightarrow>
        if bad then (1, complain (bytes ''Usage: custom_cat [-nbAETvs] [file...]'' @ [10]) s)
        else (let op = fold cat_option os \<lparr>opt_number = False, opt_number_nb = False, opt_show_ends = False,
                         opt_show_tabs = False, opt_show_nonprint = False, opt_squeeze = False\<rparr>
              in if names = [] then (let (_, s') = cat_file op (sin s) 0 s in (0, s'\<lparr>sin := []\<rparr>))
                 else (0, cat_operands h op names 0 s)))"

section \<open>custom_echo\<close>

text \<open>Up to \<open>k\<close> octal digits: their value on top of \<open>v\<close>, and what follows them.\<close>

fun octal :: "nat \<Rightarrow> nat \<Rightarrow> u8 list \<Rightarrow> nat \<times> u8 list" where
  "octal (Suc k) v (c # cs) =
     (if 48 \<le> c \<and> c \<le> 55 then octal k (v * 8 + (unat c - 48)) cs else (v, c # cs))"
| "octal k v cs = (v, cs)"

lemma length_octal: "length (snd (octal k v cs)) \<le> length cs"
  by (induction k v cs rule: octal.induct) auto

text \<open>The bytes stored in the buffer, without the NUL written after them.\<close>

function process_escapes :: "u8 list \<Rightarrow> u8 list" where
  "process_escapes [] = []"
| "process_escapes (c # src) =
     (if c = 92 \<and> src \<noteq> [] then
        (let d = hd src;
             src = tl src
         in if d = 92 then 92 # process_escapes src
            else if d = 110 then 10 # process_escapes src
            else if d = 116 then 9 # process_escapes src
            else if d = 114 then 13 # process_escapes src
            else if d = 97 then 7 # process_escapes src
            else if d = 98 then 8 # process_escapes src
            else if d = 48 then of_nat (fst (octal 3 0 src)) # process_escapes (snd (octal 3 0 src))
            else 92 # d # process_escapes src)
      else c # process_escapes src)"
  by pat_completeness auto
termination
proof (relation "measure length", goal_cases)
  case (8 c src d src')
  then show ?case using length_octal[of 3 0 src'] by (cases src) auto
qed auto

declare process_escapes.simps(2) [simp del]

record echoopt =
  no_newline :: bool
  escape_enabled :: bool

text \<open>The letters of a word that starts with a dash; whether all of them are flags.\<close>

fun echo_flags :: "u8 list \<Rightarrow> echoopt \<Rightarrow> bool \<times> echoopt" where
  "echo_flags [] op = (True, op)"
| "echo_flags (c # cs) op =
     (if c = 110 then echo_flags cs (op\<lparr>no_newline := True\<rparr>)
      else if c = 101 then echo_flags cs (op\<lparr>escape_enabled := True\<rparr>)
      else if c = 69 then echo_flags cs (op\<lparr>escape_enabled := False\<rparr>)
      else (False, op))"

datatype echo_scan = EHelp | EVersion | EWords "u8 list list" echoopt

fun echo_options :: "u8 list list \<Rightarrow> echoopt \<Rightarrow> echo_scan" where
  "echo_options [] op = EWords [] op"
| "echo_options (a # argv) op =
     (if a = bytes ''--help'' then EHelp
      else if a = bytes ''--version'' then EVersion
      else if at a 0 = 45 \<and> at a 1 \<noteq> 0 then
        (let (ok, op) = echo_flags (drop 1 a) op
         in if ok then echo_options argv op else EWords (a # argv) op)
      else EWords (a # argv) op)"

definition print_usage :: "u8 list" where
  "print_usage =
     bytes ''Usage: custom_echo [OPTION]... [STRING]...'' @ [10]
     @ bytes ''Echo the STRING(s) to standard output.'' @ [10, 10]
     @ bytes ''  -n          do not output the trailing newline'' @ [10]
     @ bytes ''  -e          enable interpretation of backslash escapes'' @ [10]
     @ bytes ''  -E          disable interpretation of backslash escapes (default)'' @ [10]
     @ bytes ''  --help      display this help and exit'' @ [10]
     @ bytes ''  --version   output version information and exit'' @ [10, 10]
     @ bytes ''Supported escape sequences with -e:'' @ [10]
     @ bytes ''  '' @ [92, 92] @ bytes ''   backslash'' @ [10]
     @ bytes ''  '' @ [92] @ bytes ''n   newline'' @ [10]
     @ bytes ''  '' @ [92] @ bytes ''t   horizontal tab'' @ [10]
     @ bytes ''  '' @ [92] @ bytes ''r   carriage return'' @ [10]
     @ bytes ''  '' @ [92] @ bytes ''a   alert / bell'' @ [10]
     @ bytes ''  '' @ [92] @ bytes ''b   backspace'' @ [10]
     @ bytes ''  '' @ [92] @ bytes ''0N  octal value (up to 3 digits)'' @ [10]"

definition print_version :: "u8 list" where
  "print_version = bytes ''custom_echo version 1.0.0'' @ [10]
     @ bytes ''A simplified UNIX-like echo utility written in C.'' @ [10]"

text \<open>\<^verbatim>\<open>fputs\<close> prints up to the first NUL.\<close>

fun echo_words :: "echoopt \<Rightarrow> bool \<Rightarrow> u8 list list \<Rightarrow> u8 list" where
  "echo_words op first [] = []"
| "echo_words op first (a # argv) =
     (if first then [] else [32])
     @ (if escape_enabled op then takeWhile (\<lambda>b. b \<noteq> 0) (process_escapes a) else a)
     @ echo_words op False argv"

definition custom_echo :: "u8 list list \<Rightarrow> stdst \<Rightarrow> int \<times> stdst" where
  "custom_echo argv s =
     (case echo_options (drop 1 argv) \<lparr>no_newline = False, escape_enabled = False\<rparr> of
        EHelp \<Rightarrow> (0, emit print_usage s)
      | EVersion \<Rightarrow> (0, emit print_version s)
      | EWords ws op \<Rightarrow> (0, emit (echo_words op True ws @ (if no_newline op then [] else [10])) s))"

section \<open>What custom_cat prints\<close>

text \<open>One line: its number when lines are numbered, then its characters.\<close>

definition cat_line :: "catopt \<Rightarrow> nat \<Rightarrow> u8 list \<Rightarrow> u8 list" where
  "cat_line op n l = (if opt_number op then dec_width 6 n @ [9] else []) @ concat (map (cat_char op) l)"

lemma cat_inside:
  assumes "\<not> opt_squeeze op" and "\<not> opt_number_nb op"
  shows "10 \<notin> set l \<Longrightarrow> cc_prev t \<noteq> 10 \<Longrightarrow>
    cc_prev (fold (cat_byte op) l t) \<noteq> 10 \<and> cc_lineno (fold (cat_byte op) l t) = cc_lineno t
    \<and> cc_out (fold (cat_byte op) l t) = cc_out t @ concat (map (cat_char op) l)"
proof (induction l arbitrary: t)
  case (Cons c l)
  let ?t = "t\<lparr>cc_prev := c, cc_out := cc_out t @ cat_char op c\<rparr>"
  have "cat_byte op c t = ?t" using Cons.prems assms by (simp add: cat_byte_def Let_def)
  moreover have "cc_prev ?t \<noteq> 10" "10 \<notin> set l" using Cons.prems(1) by auto
  ultimately show ?case using Cons.IH[of ?t] by auto
qed simp

lemma cat_first:
  assumes "\<not> opt_squeeze op" and "\<not> opt_number_nb op" and "cc_prev t = 10"
  shows "cc_prev (cat_byte op c t) = c"
    and "cc_lineno (cat_byte op c t) = (if opt_number op then cc_lineno t + 1 else cc_lineno t)"
    and "cc_out (cat_byte op c t) = cc_out t @ cat_line op (cc_lineno t + 1) [c]"
  using assms by (auto simp: cat_byte_def cat_line_def Let_def)

lemma cat_piece:
  assumes "\<not> opt_squeeze op" and "\<not> opt_number_nb op" and "cc_prev t = 10" and "10 \<notin> set l" and "l \<noteq> []"
  shows "cc_prev (fold (cat_byte op) l t) \<noteq> 10"
    and "cc_lineno (fold (cat_byte op) l t) = (if opt_number op then cc_lineno t + 1 else cc_lineno t)"
    and "cc_out (fold (cat_byte op) l t) = cc_out t @ cat_line op (cc_lineno t + 1) l"
proof -
  obtain c cs where l: "l = c # cs" using assms(5) by (cases l) auto
  note f = cat_first[OF assms(1-3), of c]
  have "cc_prev (cat_byte op c t) \<noteq> 10" "10 \<notin> set cs" using assms(4) f(1) by (auto simp: l)
  note i = cat_inside[OF assms(1,2) this(2,1)]
  show "cc_prev (fold (cat_byte op) l t) \<noteq> 10"
    "cc_lineno (fold (cat_byte op) l t) = (if opt_number op then cc_lineno t + 1 else cc_lineno t)"
    "cc_out (fold (cat_byte op) l t) = cc_out t @ cat_line op (cc_lineno t + 1) l"
    using i f by (auto simp: l cat_line_def)
qed

lemma cat_newline:
  assumes "\<not> opt_squeeze op" and "\<not> opt_number_nb op" and "cc_prev t = 10" and "10 \<notin> set l"
  shows "cc_prev (fold (cat_byte op) (l @ [10]) t) = 10"
    and "cc_lineno (fold (cat_byte op) (l @ [10]) t) = (if opt_number op then cc_lineno t + 1 else cc_lineno t)"
    and "cc_out (fold (cat_byte op) (l @ [10]) t) = cc_out t @ cat_line op (cc_lineno t + 1) (l @ [10])"
proof -
  have later: "cat_byte op 10 u = u\<lparr>cc_prev := 10, cc_started := False, cc_out := cc_out u @ cat_char op 10\<rparr>"
    if "cc_prev u \<noteq> 10" for u
    using that assms by (simp add: cat_byte_def Let_def)
  show "cc_prev (fold (cat_byte op) (l @ [10]) t) = 10"
    "cc_lineno (fold (cat_byte op) (l @ [10]) t) = (if opt_number op then cc_lineno t + 1 else cc_lineno t)"
    "cc_out (fold (cat_byte op) (l @ [10]) t) = cc_out t @ cat_line op (cc_lineno t + 1) (l @ [10])"
    using cat_first[OF assms(1-3), of 10] cat_piece[OF assms] later by (cases "l = []"; simp add: cat_line_def)+
qed

text \<open>The lines with their numbers.\<close>

fun cat_lines :: "catopt \<Rightarrow> nat \<Rightarrow> u8 list list \<Rightarrow> u8 list" where
  "cat_lines op n [] = []"
| "cat_lines op n (l # xs) = cat_line op (n + 1) l @ cat_lines op (if opt_number op then n + 1 else n) xs"

lemma cat_fold:
  assumes op: "\<not> opt_squeeze op" "\<not> opt_number_nb op"
  shows "cc_prev t = 10 \<Longrightarrow>
    cc_out (fold (cat_byte op) xs t) = cc_out t @ cat_lines op (cc_lineno t) (getlines xs)
    \<and> cc_lineno (fold (cat_byte op) xs t) = cc_lineno t + (if opt_number op then length (getlines xs) else 0)"
proof (induction xs arbitrary: t rule: line_induct)
  case (tail l)
  then show ?case using cat_piece[OF op tail(2,1)] by (cases "l = []") (simp_all add: getlines_tail)
next
  case (line l ys)
  let ?t = "fold (cat_byte op) (l @ [10]) t"
  note n = cat_newline[OF op line(3,1)]
  have "fold (cat_byte op) (l @ 10 # ys) t = fold (cat_byte op) ys ?t" by simp
  then show ?case using line(2)[OF n(1)] n(2,3) by (simp add: getlines_line[OF line(1)])
qed

text \<open>
  C38. \<^verbatim>\<open>custom_cat\<close> prints each file line by line. Without \<^verbatim>\<open>-s\<close> and \<^verbatim>\<open>-b\<close>, for any choice of the other
  options, what is printed for a file is the sequence of its lines, each character shown as the
  options ask and each line preceded by its number in a field of six and a tab under \<^verbatim>\<open>-n\<close>; the
  numbering continues from the files before and goes on after. With no option at all the file is
  copied unchanged.
\<close>

theorem cat_file_lines:
  assumes "\<not> opt_squeeze op" and "\<not> opt_number_nb op"
  shows "cat_file op fp n s =
      (n + (if opt_number op then length (getlines fp) else 0), emit (cat_lines op n (getlines fp)) s)
    \<and> (\<not> opt_number op \<and> \<not> opt_show_ends op \<and> \<not> opt_show_tabs op \<and> \<not> opt_show_nonprint op \<longrightarrow>
       cat_file op fp n s = (n, emit fp s))"
proof -
  have main: "cat_file op fp n s =
      (n + (if opt_number op then length (getlines fp) else 0), emit (cat_lines op n (getlines fp)) s)"
    using cat_fold[OF assms, of "\<lparr>cc_lineno = n, cc_prev = 10, cc_blank = 0, cc_started = False, cc_printed = False, cc_out = []\<rparr>" fp]
    by (simp add: cat_file_def Let_def)
  have "cat_lines op n xs = concat xs"
    if "\<not> opt_number op" "\<not> opt_show_ends op" "\<not> opt_show_tabs op" "\<not> opt_show_nonprint op" for xs
  proof (induction xs)
    case (Cons l xs)
    have "concat (map (cat_char op) l) = l" using that by (induction l) (auto simp: cat_char_def)
    then show ?case using Cons that by (simp add: cat_line_def)
  qed simp
  then show ?thesis using main by (auto simp: concat_getlines)
qed

theorem cat_file_lines_witness:
  "cat_file \<lparr>opt_number = True, opt_number_nb = False, opt_show_ends = True, opt_show_tabs = False,
      opt_show_nonprint = False, opt_squeeze = False\<rparr> (bytes ''a'' @ [10] @ bytes ''b'') 4 \<lparr>sin = [], sout = [], serr = []\<rparr>
   = (6, \<lparr>sin = [], sout = bytes ''     5'' @ [9] @ bytes ''a$'' @ [10] @ bytes ''     6'' @ [9] @ bytes ''b'', serr = []\<rparr>)"
proof -
  let ?op = "\<lparr>opt_number = True, opt_number_nb = False, opt_show_ends = True, opt_show_tabs = False,
      opt_show_nonprint = False, opt_squeeze = False\<rparr>" and ?fp = "bytes ''a'' @ [10] @ bytes ''b''"
  have "length (getlines ?fp) = 2" "cat_lines ?op 4 (getlines ?fp) =
      bytes ''     5'' @ [9] @ bytes ''a$'' @ [10] @ bytes ''     6'' @ [9] @ bytes ''b''"
    by code_simp+
  then show ?thesis using cat_file_lines[of ?op ?fp 4] by (simp add: emit_def)
qed

section \<open>Escapes\<close>

lemma length_process_escapes: "length (process_escapes src) \<le> length src"
proof (induction "length src" arbitrary: src rule: less_induct)
  case less
  show ?case
  proof (cases src)
    case (Cons c ds)
    show ?thesis
    proof (cases "c = 92 \<and> ds \<noteq> []")
      case True
      then obtain d es where ds: "ds = d # es" by (cases ds) auto
      have "length (process_escapes es) \<le> length es" "length (process_escapes (snd (octal 3 0 es))) \<le> length es"
        using less[of es] less[of "snd (octal 3 0 es)"] length_octal[of 3 0 es] by (simp_all add: Cons ds)
      then show ?thesis using True by (simp add: Cons ds process_escapes.simps(2) Let_def)
    next
      case False
      then have "process_escapes (c # ds) = c # process_escapes ds" by (simp only: process_escapes.simps(2) if_False)
      then show ?thesis using less[of ds] by (simp add: Cons)
    qed
  qed simp
qed

text \<open>A quoting of arbitrary bytes for \<^verbatim>\<open>echo -e\<close>.\<close>

fun quote :: "u8 list \<Rightarrow> u8 list" where
  "quote [] = []"
| "quote (c # cs) =
     (if c = 92 then [92, 92] else if c = 10 then [92, 110] else if c = 9 then [92, 116] else [c]) @ quote cs"




end
