(* ===== verification/CustomShell.thy ===== *)
theory CustomShell
  imports CustomText
begin

text \<open>
  The interactive shell of the host, \<^verbatim>\<open>Shell.c\<close>. The processes it starts are the parameter \<open>shenv\<close>: whether
  \<^verbatim>\<open>fork\<close> succeeds, the program \<^verbatim>\<open>execv\<close> finds under a path as its effect on the standard streams, and the
  error texts. The loop is bounded by fuel, because a child may read from the same input.
\<close>

definition MAX_INPUT :: nat where "MAX_INPUT = 1024"
definition MAX_ARGS :: nat where "MAX_ARGS = 128"
definition PROMPT :: "u8 list" where "PROMPT = bytes ''myshell> ''"

definition parse_input :: "u8 list \<Rightarrow> u8 list list" where
  "parse_input line = take (MAX_ARGS - 1) (strtok_all [32, 9] line)"

record shenv =
  sh_fork :: bool
  sh_exec :: "u8 list \<Rightarrow> (u8 list list \<Rightarrow> stdst \<Rightarrow> stdst) option"
  sh_error :: "u8 list \<Rightarrow> u8 list"

text \<open>The body the four \<^verbatim>\<open>run_custom_*\<close> functions share.\<close>

definition run_custom :: "u8 list \<Rightarrow> shenv \<Rightarrow> u8 list list \<Rightarrow> stdst \<Rightarrow> stdst" where
  "run_custom name h args s =
     (let local_path = bytes ''./'' @ name
      in if \<not> sh_fork h then complain (bytes ''fork: '' @ sh_error h (bytes ''fork'') @ [10]) s
         else (case sh_exec h local_path of
                 Some child \<Rightarrow> child (args[0 := local_path]) s
               | None \<Rightarrow> complain (bytes ''myshell: '' @ name @ bytes '': '' @ sh_error h local_path @ [10]) s))"

definition run_custom_wc :: "shenv \<Rightarrow> u8 list list \<Rightarrow> stdst \<Rightarrow> stdst" where
  "run_custom_wc = run_custom (bytes ''custom_wc'')"

definition run_custom_echo :: "shenv \<Rightarrow> u8 list list \<Rightarrow> stdst \<Rightarrow> stdst" where
  "run_custom_echo = run_custom (bytes ''custom_echo'')"

definition run_custom_cat :: "shenv \<Rightarrow> u8 list list \<Rightarrow> stdst \<Rightarrow> stdst" where
  "run_custom_cat = run_custom (bytes ''custom_cat'')"

definition run_custom_ls :: "shenv \<Rightarrow> u8 list list \<Rightarrow> stdst \<Rightarrow> stdst" where
  "run_custom_ls = run_custom (bytes ''custom_ls'')"

text \<open>The routing of one command.\<close>

definition shell_route :: "shenv \<Rightarrow> u8 list list \<Rightarrow> stdst \<Rightarrow> stdst" where
  "shell_route h args s =
     (if hd args = bytes ''custom_echo'' then run_custom_echo h args s
      else if hd args = bytes ''custom_wc'' then run_custom_wc h args s
      else if hd args = bytes ''custom_cat'' then run_custom_cat h args s
      else if hd args = bytes ''custom_ls'' then run_custom_ls h args s
      else complain (bytes ''myshell: unknown command '' @ [39] @ hd args @ [39, 46, 10]) s)"

text \<open>One line as \<^verbatim>\<open>main\<close> cuts it: up to the newline, or to a NUL before it.\<close>

definition cut_line :: "u8 list \<Rightarrow> u8 list" where
  "cut_line l = takeWhile (\<lambda>c. c \<noteq> 0 \<and> c \<noteq> 10) l"

fun shell_loop :: "nat \<Rightarrow> shenv \<Rightarrow> stdst \<Rightarrow> stdst option" where
  "shell_loop 0 h s = None"
| "shell_loop (Suc fuel) h s =
     (let s = emit PROMPT s
      in if sin s = [] then Some (emit [10] s)
         else (let l = fgets_take (MAX_INPUT - 1) (sin s);
                   s = s\<lparr>sin := drop (length l) (sin s)\<rparr>;
                   line = cut_line l;
                   args = parse_input line
               in if line = [] then shell_loop fuel h s
                  else if args = [] then shell_loop fuel h s
                  else if hd args = bytes ''exit'' then Some (emit (bytes ''Goodbye!'' @ [10]) s)
                  else shell_loop fuel h (shell_route h args s)))"

definition banner :: "u8 list" where
  "banner = bytes ''=== Custom OS Shell (type '' @ [39] @ bytes ''exit'' @ [39] @ bytes '' to quit) ==='' @ [10, 10]"

definition shell_main :: "nat \<Rightarrow> shenv \<Rightarrow> stdst \<Rightarrow> stdst option" where
  "shell_main fuel h s = shell_loop fuel h (emit banner s)"

section \<open>Words of a line\<close>

definition word_ok :: "u8 list \<Rightarrow> bool" where
  "word_ok w \<longleftrightarrow> w \<noteq> [] \<and> 32 \<notin> set w \<and> 9 \<notin> set w"

fun spaced :: "u8 list list \<Rightarrow> u8 list" where
  "spaced [] = []"
| "spaced [w] = w"
| "spaced (w # ws) = w @ 32 # spaced ws"

lemma strtok_word:
  assumes "word_ok w"
  shows "strtok_all [32, 9] w = [w]" "strtok_all [32, 9] (w @ 32 # xs) = w # strtok_all [32, 9] xs"
proof -
  from assms obtain c cs where w: "w = c # cs" "c \<noteq> 32" "c \<noteq> 9" by (cases w) (auto simp: word_ok_def)
  have tw: "takeWhile (\<lambda>c. c \<notin> set [32, 9]) w = w" "dropWhile (\<lambda>c. c \<notin> set [32, 9]) w = []"
    using assms by (auto simp: word_ok_def takeWhile_eq_all_conv dropWhile_eq_Nil_conv)
  have all: "\<forall>x\<in>set w. x \<notin> set [32, 9]" using assms by (auto simp: word_ok_def)
  have dd: "dropWhile (\<lambda>c. c \<in> set [32, 9]) (w @ ys) = w @ ys" for ys using w by simp
  have nil: "strtok_all [32, 9] [] = []" by (simp add: strtok_all.simps)
  show "strtok_all [32, 9] w = [w]"
    using dd[of "[]"] tw w(1) by (subst strtok_all.simps) (simp add: nil Let_def)
  have sp: "strtok_all [32, 9] (32 # xs) = strtok_all [32, 9] xs"
    by (subst (1 2) strtok_all.simps) (simp add: Let_def)
  have "takeWhile (\<lambda>c. c \<notin> set [32, 9]) (w @ 32 # xs) = w" "dropWhile (\<lambda>c. c \<notin> set [32, 9]) (w @ 32 # xs) = 32 # xs"
    using all by (simp_all add: takeWhile_append2 dropWhile_append2)
  then show "strtok_all [32, 9] (w @ 32 # xs) = w # strtok_all [32, 9] xs"
    using dd[of "32 # xs"] w(1) sp by (subst strtok_all.simps) (simp add: Let_def)
qed

lemma strtok_spaced: "list_all word_ok ws \<Longrightarrow> strtok_all [32, 9] (spaced ws) = ws"
  by (induction ws rule: spaced.induct) (simp_all add: strtok_word, simp add: strtok_all.simps)



section \<open>The command loop ends\<close>

definition shrinks :: "shenv \<Rightarrow> bool" where
  "shrinks h \<longleftrightarrow> (\<forall>path child args s. sh_exec h path = Some child \<longrightarrow> length (sin (child args s)) \<le> length (sin s))"

lemma shell_route_sin: "shrinks h \<Longrightarrow> length (sin (shell_route h args s)) \<le> length (sin s)"
  by (auto simp: shell_route_def run_custom_wc_def run_custom_echo_def run_custom_cat_def run_custom_ls_def
      run_custom_def shrinks_def Let_def split: option.splits)

lemma shell_loop_ends: "shrinks h \<Longrightarrow> length (sin s) < fuel \<Longrightarrow> \<exists>s'. shell_loop fuel h s = Some s'"
proof (induction fuel arbitrary: s)
  case (Suc fuel)
  show ?case
  proof (cases "sin s = []")
    case False
    let ?l = "fgets_take (MAX_INPUT - 1) (sin s)"
    define t where "t = (emit PROMPT s)\<lparr>sin := drop (length ?l) (sin s)\<rparr>"
    have "0 < length ?l" by (rule fgets_nonempty) (use False in \<open>simp_all add: MAX_INPUT_def\<close>)
    moreover have "0 < length (sin s)" using False by simp
    ultimately have "length (sin s) - length ?l < length (sin s)" by (rule diff_less)
    then have t: "length (sin t) < fuel" using Suc.prems(2) by (simp add: t_def)
    have r: "length (sin (shell_route h args t)) < fuel" for args
      using shell_route_sin[OF Suc.prems(1), of args t] t by simp
    show ?thesis using False Suc.IH[OF Suc.prems(1) t] Suc.IH[OF Suc.prems(1) r]
      by (simp add: Let_def t_def)
  qed simp
qed simp


section \<open>The shell running custom_echo\<close>

text \<open>An environment in which the echo model is the program behind its path.\<close>

definition echo_env :: shenv where
  "echo_env = \<lparr>sh_fork = True, sh_exec = (\<lambda>p. if p = bytes ''./custom_echo'' then Some (\<lambda>args s. snd (custom_echo args s)) else None),
     sh_error = (\<lambda>_. bytes ''No such file or directory'')\<rparr>"

lemma custom_echo_sin: "sin (snd (custom_echo args s)) = sin s"
  by (simp add: custom_echo_def split: echo_scan.splits)

lemma shrinks_echo: "shrinks echo_env"
  by (auto simp: shrinks_def echo_env_def custom_echo_sin split: if_splits)


end
