(* ===== verification/Posix.thy ===== *)
theory Posix
  imports Stdio
begin

text \<open>
  The system interface under \<^verbatim>\<open>custom_cp.c\<close>, \<^verbatim>\<open>custom_mv.c\<close> and \<^verbatim>\<open>custom_rm.c\<close>, and the copy loop the first two
  share. The operating system is the parameter \<open>posix\<close>, a record of its calls on a state of type \<open>'w\<close>;
  a call that fails yields the error number. A directory is read as a whole when it is opened.

  What the programs rely on is \<open>posix_files\<close>, in terms of three views of the state: the content of the
  regular file under a path, what is left to read from a descriptor and of which path, and the path
  a descriptor appends to. Calls may fail at any time, reads and writes may be short. Distinct paths
  are distinct files: the contract does not describe hard links. \<open>mini_posix\<close> is one system that meets it.
\<close>

unbundle bit_operations_syntax

type_synonym path = "u8 list"
type_synonym errno = nat

definition ENOENT :: errno where "ENOENT = 2"
definition EEXIST :: errno where "EEXIST = 17"
definition EXDEV :: errno where "EXDEV = 18"

record fstatus =
  st_dev :: nat
  st_ino :: nat
  st_mode :: "u32"
  st_atime :: int
  st_mtime :: int

definition S_ISDIR :: "u32 \<Rightarrow> bool" where "S_ISDIR m \<longleftrightarrow> m AND 0xF000 = 0x4000"
definition owner_writable :: "u32 \<Rightarrow> bool" where "owner_writable m \<longleftrightarrow> m AND 0x80 \<noteq> 0"

record 'w posix =
  p_stat :: "path \<Rightarrow> 'w \<Rightarrow> errno + fstatus"
  p_lstat :: "path \<Rightarrow> 'w \<Rightarrow> errno + fstatus"
  p_open_rd :: "path \<Rightarrow> 'w \<Rightarrow> (errno + nat) \<times> 'w"
  p_open_wr :: "path \<Rightarrow> u32 \<Rightarrow> 'w \<Rightarrow> (errno + nat) \<times> 'w"
  p_read :: "nat \<Rightarrow> nat \<Rightarrow> 'w \<Rightarrow> (errno + u8 list) \<times> 'w"
  p_write :: "nat \<Rightarrow> u8 list \<Rightarrow> 'w \<Rightarrow> (errno + nat) \<times> 'w"
  p_close :: "nat \<Rightarrow> 'w \<Rightarrow> 'w"
  p_unlink :: "path \<Rightarrow> 'w \<Rightarrow> errno option \<times> 'w"
  p_rmdir :: "path \<Rightarrow> 'w \<Rightarrow> errno option \<times> 'w"
  p_mkdir :: "path \<Rightarrow> u32 \<Rightarrow> 'w \<Rightarrow> errno option \<times> 'w"
  p_rename :: "path \<Rightarrow> path \<Rightarrow> 'w \<Rightarrow> errno option \<times> 'w"
  p_utime :: "path \<Rightarrow> int \<Rightarrow> int \<Rightarrow> 'w \<Rightarrow> 'w"
  p_chmod :: "path \<Rightarrow> u32 \<Rightarrow> 'w \<Rightarrow> 'w"
  p_dir :: "path \<Rightarrow> 'w \<Rightarrow> errno + path list"
  p_strerror :: "errno \<Rightarrow> u8 list"
  p_malloc :: bool

definition dot_entry :: "path \<Rightarrow> bool" where "dot_entry d \<longleftrightarrow> d = [46] \<or> d = [46, 46]"

text \<open>\<^verbatim>\<open>snprintf(t, 4096, "%s/%s", dir, name)\<close>.\<close>

definition join_path :: "path \<Rightarrow> path \<Rightarrow> path" where
  "join_path dir name = take 4095 (dir @ 47 # name)"

text \<open>What follows the last slash.\<close>

definition base_name :: "path \<Rightarrow> path" where
  "base_name p = rev (takeWhile (\<lambda>c. c \<noteq> 47) (rev p))"

definition px_perror :: "'w posix \<Rightarrow> u8 list \<Rightarrow> errno \<Rightarrow> stdst \<Rightarrow> stdst" where
  "px_perror px what e s = complain (what @ bytes '': '' @ p_strerror px e @ [10]) s"

section \<open>The copy loop\<close>

definition BUF_SIZE :: nat where "BUF_SIZE = 1024 * 1024"

text \<open>The inner loop: a short write is followed by another one for the rest.\<close>

fun write_all :: "nat \<Rightarrow> 'w posix \<Rightarrow> nat \<Rightarrow> u8 list \<Rightarrow> 'w \<Rightarrow> (errno option \<times> 'w) option" where
  "write_all fuel px fd [] w = Some (None, w)"
| "write_all 0 px fd (b # bs) w = None"
| "write_all (Suc fuel) px fd (b # bs) w =
     (case p_write px fd (b # bs) w of
        (Inl e, w) \<Rightarrow> Some (Some e, w)
      | (Inr n, w) \<Rightarrow> write_all fuel px fd (drop n (b # bs)) w)"

datatype copy_end = CopyDone | ReadError errno | WriteError errno

fun copy_loop :: "nat \<Rightarrow> 'w posix \<Rightarrow> nat \<Rightarrow> nat \<Rightarrow> 'w \<Rightarrow> (copy_end \<times> 'w) option" where
  "copy_loop 0 px in_fd out_fd w = None"
| "copy_loop (Suc fuel) px in_fd out_fd w =
     (case p_read px in_fd BUF_SIZE w of
        (Inl e, w) \<Rightarrow> Some (ReadError e, w)
      | (Inr bs, w) \<Rightarrow>
          if bs = [] then Some (CopyDone, w)
          else (case write_all fuel px out_fd bs w of
                  None \<Rightarrow> None
                | Some (Some e, w) \<Rightarrow> Some (WriteError e, w)
                | Some (None, w) \<Rightarrow> copy_loop fuel px in_fd out_fd w))"

section \<open>What the system promises\<close>

type_synonym 'w fview = "'w \<Rightarrow> path \<Rightarrow> u8 list option"
type_synonym 'w rview = "'w \<Rightarrow> nat \<Rightarrow> (path \<times> u8 list) option"
type_synonym 'w wview = "'w \<Rightarrow> nat \<Rightarrow> path option"

text \<open>The readers of files other than \<open>p\<close> are where they were.\<close>

definition readers_kept :: "'w rview \<Rightarrow> path \<Rightarrow> 'w \<Rightarrow> 'w \<Rightarrow> bool" where
  "readers_kept rd p w w' \<longleftrightarrow> (\<forall>fd q c. rd w fd = Some (q, c) \<longrightarrow> q \<noteq> p \<longrightarrow> rd w' fd = Some (q, c))"

definition posix_open :: "'w posix \<Rightarrow> 'w fview \<Rightarrow> 'w rview \<Rightarrow> 'w wview \<Rightarrow> bool" where
  "posix_open px fv rd wr \<longleftrightarrow>
     (\<forall>p w e w'. p_open_rd px p w = (Inl e, w') \<longrightarrow> fv w' = fv w)
   \<and> (\<forall>p w fd w'. p_open_rd px p w = (Inr fd, w') \<longrightarrow> fv w' = fv w \<and> (\<exists>c. fv w p = Some c \<and> rd w' fd = Some (p, c)))
   \<and> (\<forall>p m w e w'. p_open_wr px p m w = (Inl e, w') \<longrightarrow> fv w' = fv w \<and> rd w' = rd w)
   \<and> (\<forall>p m w fd w'. p_open_wr px p m w = (Inr fd, w') \<longrightarrow>
        fv w' = (fv w)(p \<mapsto> []) \<and> wr w' fd = Some p \<and> readers_kept rd p w w')"

definition posix_transfer :: "'w posix \<Rightarrow> 'w fview \<Rightarrow> 'w rview \<Rightarrow> 'w wview \<Rightarrow> bool" where
  "posix_transfer px fv rd wr \<longleftrightarrow>
     (\<forall>fd n w e w'. p_read px fd n w = (Inl e, w') \<longrightarrow> fv w' = fv w)
   \<and> (\<forall>fd n w q c bs w'. p_read px fd n w = (Inr bs, w') \<longrightarrow> 0 < n \<longrightarrow> rd w fd = Some (q, c) \<longrightarrow>
        fv w' = fv w \<and> wr w' = wr w \<and> (\<exists>r. c = bs @ r \<and> rd w' fd = Some (q, r)) \<and> (bs = [] \<longrightarrow> c = []))
   \<and> (\<forall>fd bs w e w'. p_write px fd bs w = (Inl e, w') \<longrightarrow> fv w' = fv w)
   \<and> (\<forall>fd bs w p c n w'. p_write px fd bs w = (Inr n, w') \<longrightarrow> bs \<noteq> [] \<longrightarrow> wr w fd = Some p \<longrightarrow> fv w p = Some c \<longrightarrow>
        0 < n \<and> n \<le> length bs \<and> fv w' = (fv w)(p \<mapsto> c @ take n bs) \<and> wr w' = wr w \<and> readers_kept rd p w w')"

definition posix_names :: "'w posix \<Rightarrow> 'w fview \<Rightarrow> 'w rview \<Rightarrow> bool" where
  "posix_names px fv rd \<longleftrightarrow>
     (\<forall>fd w. fv (p_close px fd w) = fv w)
   \<and> (\<forall>p a m w. fv (p_utime px p a m w) = fv w)
   \<and> (\<forall>p m w. fv (p_chmod px p m w) = fv w)
   \<and> (\<forall>p w r w'. p_unlink px p w = (r, w') \<longrightarrow> fv w' = (if r = None then (fv w)(p := None) else fv w) \<and> rd w' = rd w)
   \<and> (\<forall>p q w r w'. p_rename px p q w = (r, w') \<longrightarrow> p \<noteq> q \<longrightarrow>
        fv w' = (if r = None then (fv w)(q := fv w p, p := None) else fv w))"

definition posix_files :: "'w posix \<Rightarrow> 'w fview \<Rightarrow> 'w rview \<Rightarrow> 'w wview \<Rightarrow> bool" where
  "posix_files px fv rd wr \<longleftrightarrow> posix_open px fv rd wr \<and> posix_transfer px fv rd wr \<and> posix_names px fv rd"

lemma posix_filesD:
  assumes "posix_files px fv rd wr"
  shows "posix_open px fv rd wr" "posix_transfer px fv rd wr" "posix_names px fv rd"
  using assms by (simp_all add: posix_files_def)

text \<open>The laws as rules.\<close>

lemma read_law:
  assumes "posix_transfer px fv rd wr" and "p_read px fd n w = (Inr bs, w')" and "0 < n" and "rd w fd = Some (q, c)"
  shows "fv w' = fv w" "wr w' = wr w" "\<exists>r. c = bs @ r \<and> rd w' fd = Some (q, r)" "bs = [] \<Longrightarrow> c = []"
  using assms unfolding posix_transfer_def by blast+

lemma write_law:
  assumes "posix_transfer px fv rd wr" and "p_write px fd bs w = (Inr n, w')" and "bs \<noteq> []" and "wr w fd = Some p"
    and "fv w p = Some c"
  shows "0 < n" "n \<le> length bs" "fv w' = (fv w)(p \<mapsto> c @ take n bs)" "wr w' = wr w" "readers_kept rd p w w'"
  using assms unfolding posix_transfer_def by blast+

lemma read_error: "posix_transfer px fv rd wr \<Longrightarrow> p_read px fd n w = (Inl e, w') \<Longrightarrow> fv w' = fv w"
  unfolding posix_transfer_def by (elim conjE) simp

lemma write_error: "posix_transfer px fv rd wr \<Longrightarrow> p_write px fd bs w = (Inl e, w') \<Longrightarrow> fv w' = fv w"
  unfolding posix_transfer_def by (elim conjE) simp

section \<open>The copy loop copies\<close>

definition only_changed :: "'w fview \<Rightarrow> path \<Rightarrow> 'w \<Rightarrow> 'w \<Rightarrow> bool" where
  "only_changed fv p w w' \<longleftrightarrow> (\<forall>q. q \<noteq> p \<longrightarrow> fv w' q = fv w q)"

lemma only_changedI [intro]: "fv w' = fv w \<Longrightarrow> only_changed fv p w w'"
  by (simp add: only_changed_def)

lemma only_changed_upd: "fv w' = (fv w)(p := x) \<Longrightarrow> only_changed fv p w w'"
  by (simp add: only_changed_def)

lemma only_changed_trans: "only_changed fv p w w1 \<Longrightarrow> only_changed fv p w1 w2 \<Longrightarrow> only_changed fv p w w2"
  by (simp add: only_changed_def)

lemma readers_kept_trans: "readers_kept rd p w w1 \<Longrightarrow> readers_kept rd p w1 w2 \<Longrightarrow> readers_kept rd p w w2"
  by (simp add: readers_kept_def)

lemma write_all_appends:
  assumes "posix_transfer px fv rd wr"
  shows "wr w fd = Some p \<Longrightarrow> fv w p = Some c \<Longrightarrow> length bs \<le> fuel \<Longrightarrow>
    \<exists>r w'. write_all fuel px fd bs w = Some (r, w') \<and> only_changed fv p w w'
      \<and> (r = None \<longrightarrow> fv w' p = Some (c @ bs) \<and> wr w' = wr w \<and> readers_kept rd p w w')"
proof (induction fuel arbitrary: bs w c)
  case 0
  then show ?case by (auto simp: readers_kept_def)
next
  case (Suc fuel)
  show ?case
  proof (cases bs)
    case Nil
    then show ?thesis using Suc.prems by (auto simp: readers_kept_def)
  next
    case (Cons b bs')
    obtain res w1 where e: "p_write px fd bs w = (res, w1)" by fastforce
    show ?thesis
    proof (cases res)
      case (Inl e')
      then show ?thesis using write_error[OF assms, of fd bs w e' w1] e Cons by auto
    next
      case (Inr n)
      have e': "p_write px fd bs w = (Inr n, w1)" and ne: "bs \<noteq> []" using e Inr Cons by simp_all
      note st = write_law[OF assms e' ne Suc.prems(1,2)]
      have pre: "wr w1 fd = Some p" "fv w1 p = Some (c @ take n bs)" "length (drop n bs) \<le> fuel"
        using st Suc.prems by simp_all
      from Suc.IH[OF this] obtain r w' where
        IH: "write_all fuel px fd (drop n bs) w1 = Some (r, w')" "only_changed fv p w1 w'"
          "r = None \<longrightarrow> fv w' p = Some ((c @ take n bs) @ drop n bs) \<and> wr w' = wr w1 \<and> readers_kept rd p w1 w'"
        by blast
      have "write_all (Suc fuel) px fd bs w = Some (r, w')" using IH(1) e' Cons by simp
      moreover have "only_changed fv p w w'" by (rule only_changed_trans[OF only_changed_upd[OF st(3)] IH(2)])
      ultimately show ?thesis using IH(3) st(4) readers_kept_trans[OF st(5)] by auto
    qed
  qed
qed

lemma copy_loop_copies:
  assumes "posix_transfer px fv rd wr" and "p \<noteq> q"
  shows "rd w ifd = Some (q, xs) \<Longrightarrow> wr w ofd = Some p \<Longrightarrow> fv w p = Some c \<Longrightarrow> length xs < fuel \<Longrightarrow>
    \<exists>r w'. copy_loop fuel px ifd ofd w = Some (r, w') \<and> only_changed fv p w w' \<and> (r = CopyDone \<longrightarrow> fv w' p = Some (c @ xs))"
proof (induction fuel arbitrary: w xs c)
  case (Suc fuel)
  obtain res w1 where e: "p_read px ifd BUF_SIZE w = (res, w1)" by fastforce
  show ?case
  proof (cases res)
    case (Inl x)
    then show ?thesis using read_error[OF assms(1), of ifd BUF_SIZE w x w1] e by auto
  next
    case (Inr bs)
    have e': "p_read px ifd BUF_SIZE w = (Inr bs, w1)" and "0 < BUF_SIZE" using e Inr by (simp_all add: BUF_SIZE_def)
    note rl = read_law[OF assms(1) this Suc.prems(1)]
    from rl(3) obtain ys where ys: "xs = bs @ ys" "rd w1 ifd = Some (q, ys)" by blast
    show ?thesis
    proof (cases "bs = []")
      case True
      then show ?thesis using e' rl Suc.prems by auto
    next
      case False
      have "wr w1 ofd = Some p" "fv w1 p = Some c" "length bs \<le> fuel" using rl Suc.prems ys by simp_all
      from write_all_appends[OF assms(1) this] obtain r w2 where
        wa: "write_all fuel px ofd bs w1 = Some (r, w2)" "only_changed fv p w1 w2"
          "r = None \<longrightarrow> fv w2 p = Some (c @ bs) \<and> wr w2 = wr w1 \<and> readers_kept rd p w1 w2" by blast
      have oc: "only_changed fv p w w2" by (rule only_changed_trans[OF only_changedI[OF rl(1)] wa(2)])
      show ?thesis
      proof (cases r)
        case (Some x)
        then show ?thesis using e' False wa(1) oc by simp
      next
        case None
        have "length ys < fuel" using Suc.prems(4) ys(1) False by (cases bs) simp_all
        moreover have "rd w2 ifd = Some (q, ys)" "wr w2 ofd = Some p" "fv w2 p = Some (c @ bs)"
          using None wa(3) ys rl Suc.prems assms(2) by (auto simp: readers_kept_def)
        ultimately obtain r' w' where "copy_loop fuel px ifd ofd w2 = Some (r', w')" "only_changed fv p w2 w'"
          "r' = CopyDone \<longrightarrow> fv w' p = Some ((c @ bs) @ ys)" using Suc.IH by blast
        then show ?thesis using e' False wa(1) None ys only_changed_trans[OF oc] by auto
      qed
    qed
  qed
qed simp

section \<open>A system that meets the contract\<close>

text \<open>
  Regular files only; reads deliver at most two bytes and writes take at most three. \<open>xdev\<close> makes every
  rename fail as between two devices.
\<close>

record mini =
  m_files :: "path \<Rightarrow> u8 list option"
  m_rd :: "nat \<Rightarrow> (path \<times> u8 list) option"
  m_wr :: "nat \<Rightarrow> path option"

definition mini_stat :: "path \<Rightarrow> mini \<Rightarrow> errno + fstatus" where
  "mini_stat p w =
     (if m_files w p = None then Inl ENOENT
      else Inr \<lparr>st_dev = 1, st_ino = fold (\<lambda>b n. 256 * n + unat b) p 1, st_mode = 0x81A4, st_atime = 0, st_mtime = 0\<rparr>)"

definition mini_open_rd :: "path \<Rightarrow> mini \<Rightarrow> (errno + nat) \<times> mini" where
  "mini_open_rd p w =
     (case m_files w p of None \<Rightarrow> (Inl ENOENT, w) | Some c \<Rightarrow> (Inr 3, w\<lparr>m_rd := (m_rd w)(3 \<mapsto> (p, c))\<rparr>))"

definition mini_read :: "nat \<Rightarrow> nat \<Rightarrow> mini \<Rightarrow> (errno + u8 list) \<times> mini" where
  "mini_read fd n w =
     (case m_rd w fd of
        None \<Rightarrow> (Inl 9, w)
      | Some (p, c) \<Rightarrow> (Inr (take (min n 2) c), w\<lparr>m_rd := (m_rd w)(fd \<mapsto> (p, drop (min n 2) c))\<rparr>))"

definition mini_write :: "nat \<Rightarrow> u8 list \<Rightarrow> mini \<Rightarrow> (errno + nat) \<times> mini" where
  "mini_write fd bs w =
     (case m_wr w fd of
        None \<Rightarrow> (Inl 9, w)
      | Some p \<Rightarrow>
          (case m_files w p of
             None \<Rightarrow> (Inl 9, w)
           | Some c \<Rightarrow> (Inr (min 3 (length bs)), w\<lparr>m_files := (m_files w)(p \<mapsto> c @ take 3 bs)\<rparr>)))"

definition mini_unlink :: "path \<Rightarrow> mini \<Rightarrow> errno option \<times> mini" where
  "mini_unlink p w = (if m_files w p = None then (Some ENOENT, w) else (None, w\<lparr>m_files := (m_files w)(p := None)\<rparr>))"

definition mini_rename :: "bool \<Rightarrow> path \<Rightarrow> path \<Rightarrow> mini \<Rightarrow> errno option \<times> mini" where
  "mini_rename xdev p q w =
     (if xdev then (Some EXDEV, w)
      else if m_files w p = None then (Some ENOENT, w)
      else (None, w\<lparr>m_files := (m_files w)(q := m_files w p, p := None)\<rparr>))"

definition mini_posix :: "bool \<Rightarrow> mini posix" where
  "mini_posix xdev = \<lparr>p_stat = mini_stat, p_lstat = mini_stat, p_open_rd = mini_open_rd,
     p_open_wr = (\<lambda>p m w. (Inr 4, w\<lparr>m_files := (m_files w)(p \<mapsto> []), m_wr := (m_wr w)(4 \<mapsto> p)\<rparr>)),
     p_read = mini_read, p_write = mini_write, p_close = (\<lambda>fd w. w), p_unlink = mini_unlink,
     p_rmdir = (\<lambda>p w. (Some ENOENT, w)), p_mkdir = (\<lambda>p m w. (Some EEXIST, w)), p_rename = mini_rename xdev,
     p_utime = (\<lambda>p a m w. w), p_chmod = (\<lambda>p m w. w), p_dir = (\<lambda>p w. Inl ENOENT),
     p_strerror = (\<lambda>e. bytes ''error''), p_malloc = True\<rparr>"

lemma mini_posix_files: "posix_files (mini_posix xdev) m_files m_rd m_wr"
  unfolding posix_files_def
proof (intro conjI)
  show "posix_open (mini_posix xdev) m_files m_rd m_wr"
    by (auto simp: posix_open_def mini_posix_def mini_open_rd_def readers_kept_def split: option.splits)
  show "posix_transfer (mini_posix xdev) m_files m_rd m_wr"
    by (auto simp: posix_transfer_def mini_posix_def mini_read_def mini_write_def readers_kept_def min_def
        split: option.splits)
  show "posix_names (mini_posix xdev) m_files m_rd"
    by (auto simp: posix_names_def mini_posix_def mini_unlink_def mini_rename_def)
qed

end
