(* ===== verification/CustomCp.thy ===== *)
theory CustomCp
  imports Posix
begin

text \<open>
  The host utility \<^verbatim>\<open>custom_cp.c\<close>. \<open>n\<close> bounds the rounds of the copy loop of one file and \<open>fuel\<close> the depth of
  the recursion over directories; \<open>None\<close> is their exhaustion.
\<close>

record cpopt =
  cp_recursive :: bool
  cp_verbose :: bool
  cp_force :: bool
  cp_preserve :: bool
  cp_noclobber :: bool
  cp_update :: bool

definition quoted :: "path \<Rightarrow> u8 list" where "quoted p = 39 # p @ [39]"

text \<open>\<^verbatim>\<open>fprintf(stderr, "<what> '%s': %s\n", name, strerror(errno))\<close>.\<close>

definition px_complain :: "'w posix \<Rightarrow> string \<Rightarrow> path \<Rightarrow> errno \<Rightarrow> stdst \<Rightarrow> stdst" where
  "px_complain px what name e s = complain (bytes what @ [32] @ quoted name @ bytes '': '' @ p_strerror px e @ [10]) s"

text \<open>The line printed under \<^verbatim>\<open>-v\<close>.\<close>

definition say_copied :: "path \<Rightarrow> path \<Rightarrow> stdst \<Rightarrow> stdst" where
  "say_copied src dst s = emit (quoted src @ bytes '' -> '' @ quoted dst @ [10]) s"

definition create_dst :: "'w posix \<Rightarrow> cpopt \<Rightarrow> path \<Rightarrow> u32 \<Rightarrow> 'w \<Rightarrow> (errno + nat) \<times> 'w" where
  "create_dst px op dst mode w =
     (case p_open_wr px dst mode w of
        (Inr fd, w) \<Rightarrow> (Inr fd, w)
      | (Inl e, w) \<Rightarrow> if cp_force op then p_open_wr px dst mode (snd (p_unlink px dst w)) else (Inl e, w))"

text \<open>From the allocation of the buffer on, with both files open.\<close>

definition copy_opened ::
  "nat \<Rightarrow> 'w posix \<Rightarrow> cpopt \<Rightarrow> path \<Rightarrow> path \<Rightarrow> fstatus \<Rightarrow> nat \<Rightarrow> nat \<Rightarrow> 'w \<Rightarrow> stdst \<Rightarrow> (int \<times> 'w \<times> stdst) option" where
  "copy_opened n px op src dst src_st in_fd out_fd w s =
     (if \<not> p_malloc px then Some (1, p_close px out_fd (p_close px in_fd w), px_perror px (bytes ''malloc'') 12 s)
      else (case copy_loop n px in_fd out_fd w of
              None \<Rightarrow> None
            | Some (r, w) \<Rightarrow>
                (let w = p_close px out_fd (p_close px in_fd w)
                 in case r of
                      WriteError e \<Rightarrow> Some (1, w, px_complain px ''custom_cp: write error'' dst e s)
                    | ReadError e \<Rightarrow> Some (1, w, px_complain px ''custom_cp: read error'' src e s)
                    | CopyDone \<Rightarrow>
                        Some (0,
                          if cp_preserve op
                          then p_chmod px dst (st_mode src_st) (p_utime px dst (st_atime src_st) (st_mtime src_st) w) else w,
                          if cp_verbose op then say_copied src dst s else s))))"

definition copy_file :: "nat \<Rightarrow> 'w posix \<Rightarrow> cpopt \<Rightarrow> path \<Rightarrow> path \<Rightarrow> 'w \<times> stdst \<Rightarrow> (int \<times> 'w \<times> stdst) option" where
  "copy_file n px op src dst ws =
     (case ws of (w, s) \<Rightarrow>
      case p_stat px src w of
        Inl e \<Rightarrow> Some (1, w, px_complain px ''custom_cp: cannot stat'' src e s)
      | Inr src_st \<Rightarrow>
          (let dst_st = (case p_stat px dst w of Inl e \<Rightarrow> None | Inr d \<Rightarrow> Some d)
           in if (case dst_st of None \<Rightarrow> False | Some d \<Rightarrow> st_ino src_st = st_ino d \<and> st_dev src_st = st_dev d)
              then Some (1, w, complain (bytes ''custom_cp: '' @ quoted src @ bytes '' and '' @ quoted dst
                                           @ bytes '' are same file'' @ [10]) s)
              else if cp_noclobber op \<and> dst_st \<noteq> None then Some (0, w, s)
              else if cp_update op \<and> (case dst_st of None \<Rightarrow> False | Some d \<Rightarrow> st_mtime d \<ge> st_mtime src_st)
              then Some (0, w, s)
              else (case p_open_rd px src w of
                      (Inl e, w) \<Rightarrow> Some (1, w, px_complain px ''custom_cp: cannot open'' src e s)
                    | (Inr in_fd, w) \<Rightarrow>
                        (case create_dst px op dst (st_mode src_st AND 0x1FF) w of
                           (Inl e, w) \<Rightarrow> Some (1, p_close px in_fd w, px_complain px ''custom_cp: cannot create'' dst e s)
                         | (Inr out_fd, w) \<Rightarrow> copy_opened n px op src dst src_st in_fd out_fd w s))))"

text \<open>The recursive call of \<^verbatim>\<open>copy_dir\<close> is its argument \<open>copy\<close>.\<close>

fun copy_entries ::
  "(path \<Rightarrow> path \<Rightarrow> 'w \<times> stdst \<Rightarrow> (int \<times> 'w \<times> stdst) option) \<Rightarrow> path \<Rightarrow> path \<Rightarrow> path list \<Rightarrow> int \<Rightarrow> 'w \<times> stdst
     \<Rightarrow> (int \<times> 'w \<times> stdst) option" where
  "copy_entries copy src dst [] ret ws = Some (ret, ws)"
| "copy_entries copy src dst (d # names) ret ws =
     (if dot_entry d then copy_entries copy src dst names ret ws
      else (case copy (join_path src d) (join_path dst d) ws of
              None \<Rightarrow> None
            | Some (r, ws) \<Rightarrow> copy_entries copy src dst names (ret OR r) ws))"

definition copy_dir ::
  "(path \<Rightarrow> path \<Rightarrow> 'w \<times> stdst \<Rightarrow> (int \<times> 'w \<times> stdst) option) \<Rightarrow> 'w posix \<Rightarrow> cpopt \<Rightarrow> path \<Rightarrow> path \<Rightarrow> 'w \<times> stdst
     \<Rightarrow> (int \<times> 'w \<times> stdst) option" where
  "copy_dir copy px op src dst ws =
     (case ws of (w, s) \<Rightarrow>
      case p_stat px src w of
        Inl e \<Rightarrow> Some (1, w, px_perror px src e s)
      | Inr st \<Rightarrow>
          (case p_mkdir px dst 0x1FF w of (made, w) \<Rightarrow>
             if made \<noteq> None \<and> made \<noteq> Some EEXIST
             then Some (1, w, px_complain px ''custom_cp: cannot mkdir'' dst (the made) s)
             else (case p_dir px src w of
                     Inl e \<Rightarrow> Some (1, w, px_perror px src e s)
                   | Inr names \<Rightarrow>
                       (case copy_entries copy src dst names 0 (w, s) of
                          None \<Rightarrow> None
                        | Some (ret, w, s) \<Rightarrow>
                            Some (ret, if cp_preserve op then p_chmod px dst (st_mode st) w else w, s)))))"

primrec copy_path :: "nat \<Rightarrow> nat \<Rightarrow> 'w posix \<Rightarrow> cpopt \<Rightarrow> path \<Rightarrow> path \<Rightarrow> 'w \<times> stdst \<Rightarrow> (int \<times> 'w \<times> stdst) option" where
  "copy_path 0 n px op src dst ws = None"
| "copy_path (Suc fuel) n px op src dst ws =
     (case ws of (w, s) \<Rightarrow>
      case p_lstat px src w of
        Inl e \<Rightarrow> Some (1, w, px_perror px src e s)
      | Inr st \<Rightarrow>
          if S_ISDIR (st_mode st) then
            (if \<not> cp_recursive op
             then Some (1, w, complain (bytes ''custom_cp: -r not specified; omitting directory '' @ quoted src @ [10]) s)
             else copy_dir (copy_path fuel n px op) px op src dst (w, s))
          else copy_file n px op src dst (w, s))"

definition cp_option :: "u8 \<times> u8 list \<Rightarrow> cpopt \<Rightarrow> cpopt" where
  "cp_option p op =
     (if fst p = 114 \<or> fst p = 82 then op\<lparr>cp_recursive := True\<rparr>
      else if fst p = 118 then op\<lparr>cp_verbose := True\<rparr>
      else if fst p = 102 then op\<lparr>cp_force := True\<rparr>
      else if fst p = 112 then op\<lparr>cp_preserve := True\<rparr>
      else if fst p = 110 then op\<lparr>cp_noclobber := True\<rparr>
      else op\<lparr>cp_update := True\<rparr>)"

text \<open>Where an operand goes: into the directory, or to the path itself.\<close>

definition cp_target :: "bool \<Rightarrow> path \<Rightarrow> path \<Rightarrow> path" where
  "cp_target dst_is_dir dst a = (if dst_is_dir then join_path dst (base_name a) else take 4095 dst)"

fun cp_sources :: "nat \<Rightarrow> nat \<Rightarrow> 'w posix \<Rightarrow> cpopt \<Rightarrow> bool \<Rightarrow> path \<Rightarrow> path list \<Rightarrow> int \<Rightarrow> 'w \<times> stdst \<Rightarrow> (int \<times> 'w \<times> stdst) option" where
  "cp_sources fuel n px op dir dst [] ret ws = Some (ret, ws)"
| "cp_sources fuel n px op dir dst (a # argv) ret ws =
     (case copy_path fuel n px op a (cp_target dir dst a) ws of
        None \<Rightarrow> None
      | Some (r, ws) \<Rightarrow> cp_sources fuel n px op dir dst argv (ret OR r) ws)"

definition is_directory :: "'w posix \<Rightarrow> path \<Rightarrow> 'w \<Rightarrow> bool" where
  "is_directory px p w \<longleftrightarrow> (case p_stat px p w of Inl e \<Rightarrow> False | Inr st \<Rightarrow> S_ISDIR (st_mode st))"

definition custom_cp :: "nat \<Rightarrow> nat \<Rightarrow> 'w posix \<Rightarrow> u8 list list \<Rightarrow> 'w \<times> stdst \<Rightarrow> (int \<times> 'w \<times> stdst) option" where
  "custom_cp fuel n px argv ws =
     (case ws of (w, s) \<Rightarrow>
      case getopt (bytes ''rRvfpnu'') [] (drop 1 argv) of (os, bad, rest) \<Rightarrow>
        if bad then Some (1, w, complain (bytes ''Usage: custom_cp [-rRvfpnu] source... dest'' @ [10]) s)
        else if length rest < 2 then Some (1, w, complain (bytes ''custom_cp: missing operand'' @ [10]) s)
        else (let op = fold cp_option os \<lparr>cp_recursive = False, cp_verbose = False, cp_force = False,
                         cp_preserve = False, cp_noclobber = False, cp_update = False\<rparr>;
                  dst = last rest;
                  dst_is_dir = is_directory px dst w
              in if length rest > 2 \<and> \<not> dst_is_dir
                 then Some (1, w, complain (bytes ''custom_cp: target '' @ quoted dst @ bytes '' is not a directory'' @ [10]) s)
                 else cp_sources fuel n px op dst_is_dir dst (butlast rest) 0 (w, s)))"

section \<open>Correctness of a copy\<close>

lemma create_dst_law:
  assumes "posix_files px fv rd wr" and "create_dst px op p m w = (res, w')"
  shows "only_changed fv p w w'"
    and "res = Inr fd \<Longrightarrow> fv w' p = Some [] \<and> wr w' fd = Some p \<and> readers_kept rd p w w'"
proof -
  note op = posix_filesD(1)[OF assms(1), unfolded posix_open_def]
  note un = posix_filesD(3)[OF assms(1), unfolded posix_names_def]
  obtain r1 w1 where o1: "p_open_wr px p m w = (r1, w1)" by fastforce
  obtain r2 w2 where u: "p_unlink px p w1 = (r2, w2)" by fastforce
  obtain r3 w3 where o2: "p_open_wr px p m w2 = (r3, w3)" by fastforce
  have f2: "only_changed fv p w1 w2" "rd w2 = rd w1" using un u by (auto simp: only_changed_def)
  have opened: "only_changed fv p v v' \<and> (r = Inr fd \<longrightarrow> fv v' p = Some [] \<and> wr v' fd = Some p \<and> readers_kept rd p v v')"
    if "p_open_wr px p m v = (r, v')" for r v v' fd
    using op that by (cases r) (auto simp: only_changed_def)
  have err: "rd w1 = rd w" if "r1 = Inl e" for e using op o1 that by auto
  show "only_changed fv p w w'"
    using assms(2) o1 u o2 opened[OF o1] opened[OF o2] f2 
    by (auto simp: create_dst_def only_changed_def split: sum.splits if_splits)
  show "res = Inr fd \<Longrightarrow> fv w' p = Some [] \<and> wr w' fd = Some p \<and> readers_kept rd p w w'"
    using assms(2) o1 u o2 opened[OF o1, of fd] opened[OF o2, of fd] f2 err
    by (auto simp: create_dst_def readers_kept_def split: sum.splits if_splits)
qed

lemma copy_opened_copies:
  assumes "posix_files px fv rd wr" and "src \<noteq> dst" and "rd w ifd = Some (src, c)" and "wr w ofd = Some dst"
    and "fv w dst = Some []" and "length c < n"
  shows "\<exists>r w' s'. copy_opened n px op src dst st ifd ofd w s = Some (r, w', s') \<and> only_changed fv dst w w'
    \<and> (r = 0 \<longrightarrow> fv w' dst = Some c)"
proof -
  note un = posix_filesD(3)[OF assms(1), unfolded posix_names_def]
  obtain r w1 where "copy_loop n px ifd ofd w = Some (r, w1)" "only_changed fv dst w w1"
    "r = CopyDone \<longrightarrow> fv w1 dst = Some ([] @ c)"
    using copy_loop_copies[OF posix_filesD(2)[OF assms(1)] assms(2)[symmetric] assms(3-6)] by blast
  then show ?thesis using un by (auto simp: copy_opened_def Let_def only_changed_def split: copy_end.splits)
qed


definition cp_plain :: cpopt where
  "cp_plain = \<lparr>cp_recursive = False, cp_verbose = False, cp_force = False, cp_preserve = False, cp_noclobber = False,
     cp_update = False\<rparr>"

definition mini_ex :: mini where
  "mini_ex = \<lparr>m_files = [[97] \<mapsto> [1, 2, 3, 4, 5]], m_rd = Map.empty, m_wr = Map.empty\<rparr>"


end
