(* ===== verification/CustomMv.thy ===== *)
theory CustomMv
  imports CustomCp
begin

text \<open>
  The host utility \<^verbatim>\<open>custom_mv.c\<close>. As for \<^verbatim>\<open>custom_cp\<close>, \<open>n\<close> bounds the rounds of the copy
  loop and \<open>fuel\<close> the depth of the recursion.
\<close>

section \<open>custom_mv\<close>

record mvopt =
  mv_verbose :: bool
  mv_force :: bool
  mv_noclobber :: bool
  mv_update :: bool
  mv_interactive :: bool

text \<open>The answer to a question: the first character decides, the rest up to the next newline is skipped.\<close>

definition read_answer :: "stdst \<Rightarrow> bool \<times> stdst" where
  "read_answer s =
     (case sin s of
        [] \<Rightarrow> (False, s)
      | c # cs \<Rightarrow> (c = 121 \<or> c = 89, s\<lparr>sin := drop 1 (dropWhile (\<lambda>b. b \<noteq> 10) cs)\<rparr>))"

definition copy_file_raw :: "nat \<Rightarrow> 'w posix \<Rightarrow> path \<Rightarrow> path \<Rightarrow> fstatus \<Rightarrow> 'w \<times> stdst \<Rightarrow> (int \<times> 'w \<times> stdst) option" where
  "copy_file_raw n px src dst src_st ws =
     (case ws of (w, s) \<Rightarrow>
      case p_open_rd px src w of
        (Inl e, w) \<Rightarrow> Some (1, w, px_perror px src e s)
      | (Inr in_fd, w) \<Rightarrow>
          (case p_open_wr px dst (st_mode src_st AND 0x1FF) w of
             (Inl e, w) \<Rightarrow> Some (1, p_close px in_fd w, px_perror px dst e s)
           | (Inr out_fd, w) \<Rightarrow>
               if \<not> p_malloc px then Some (1, p_close px out_fd (p_close px in_fd w), px_perror px (bytes ''malloc'') 12 s)
               else (case copy_loop n px in_fd out_fd w of
                       None \<Rightarrow> None
                     | Some (r, w) \<Rightarrow>
                         (let w = p_close px out_fd (p_close px in_fd w)
                          in case r of
                               WriteError e \<Rightarrow> Some (1, w, px_perror px (bytes ''write'') e s)
                             | ReadError e \<Rightarrow> Some (1, w, px_perror px (bytes ''read'') e s)
                             | CopyDone \<Rightarrow>
                                 (let w = p_utime px dst (st_atime src_st) (st_mtime src_st) w;
                                      w = p_chmod px dst (st_mode src_st) w
                                  in Some (0, snd (p_unlink px src w), s))))))"

definition copy_dir_recursive ::
  "(path \<Rightarrow> path \<Rightarrow> 'w \<times> stdst \<Rightarrow> (int \<times> 'w \<times> stdst) option) \<Rightarrow> 'w posix \<Rightarrow> path \<Rightarrow> path \<Rightarrow> 'w \<times> stdst
     \<Rightarrow> (int \<times> 'w \<times> stdst) option" where
  "copy_dir_recursive move px src dst ws =
     (case ws of (w, s) \<Rightarrow>
      case p_stat px src w of
        Inl e \<Rightarrow> Some (1, w, px_perror px src e s)
      | Inr st \<Rightarrow>
          (case p_mkdir px dst (st_mode st) w of (made, w) \<Rightarrow>
             if made \<noteq> None \<and> made \<noteq> Some EEXIST then Some (1, w, px_perror px dst (the made) s)
             else (case p_dir px src w of
                     Inl e \<Rightarrow> Some (1, w, px_perror px src e s)
                   | Inr names \<Rightarrow>
                       (case copy_entries move src dst names 0 (w, s) of
                          None \<Rightarrow> None
                        | Some (ret, w, s) \<Rightarrow> Some (ret, snd (p_rmdir px src w), s)))))"

text \<open>From the rename on.\<close>

definition move_file ::
  "(path \<Rightarrow> path \<Rightarrow> 'w \<times> stdst \<Rightarrow> (int \<times> 'w \<times> stdst) option) \<Rightarrow> nat \<Rightarrow> 'w posix \<Rightarrow> mvopt \<Rightarrow> path \<Rightarrow> path \<Rightarrow> fstatus
     \<Rightarrow> 'w \<times> stdst \<Rightarrow> (int \<times> 'w \<times> stdst) option" where
  "move_file move n px op src dst src_st ws =
     (case ws of (w, s) \<Rightarrow>
      case p_rename px src dst w of
        (None, w) \<Rightarrow> Some (0, w, if mv_verbose op then say_copied src dst s else s)
      | (Some e, w) \<Rightarrow>
          if e = EXDEV then
            (case (if S_ISDIR (st_mode src_st) then copy_dir_recursive move px src dst (w, s)
                   else copy_file_raw n px src dst src_st (w, s)) of
               None \<Rightarrow> None
             | Some (ret, w, s) \<Rightarrow> Some (ret, w, if ret = 0 \<and> mv_verbose op then say_copied src dst s else s))
          else Some (1, w, complain (bytes ''custom_mv: cannot move '' @ quoted src @ bytes '' to '' @ quoted dst
                                       @ bytes '': '' @ p_strerror px e @ [10]) s))"

primrec move_path :: "nat \<Rightarrow> nat \<Rightarrow> 'w posix \<Rightarrow> mvopt \<Rightarrow> path \<Rightarrow> path \<Rightarrow> 'w \<times> stdst \<Rightarrow> (int \<times> 'w \<times> stdst) option" where
  "move_path 0 n px op src dst ws = None"
| "move_path (Suc fuel) n px op src dst ws =
     (case ws of (w, s) \<Rightarrow>
      case p_lstat px src w of
        Inl e \<Rightarrow> Some (1, w, px_complain px ''custom_mv: cannot stat'' src e s)
      | Inr src_st \<Rightarrow>
          (let dst_st = (case p_lstat px dst w of Inl e \<Rightarrow> None | Inr d \<Rightarrow> Some d);
               dst_exists = (dst_st \<noteq> None)
           in if mv_noclobber op \<and> dst_exists then Some (0, w, s)
              else if mv_update op \<and> dst_exists \<and> st_mtime (the dst_st) \<ge> st_mtime src_st then Some (0, w, s)
              else (let (yes, s) =
                          (if mv_interactive op \<and> dst_exists
                           then read_answer (complain (bytes ''custom_mv: overwrite '' @ quoted dst @ bytes ''? '') s)
                           else (True, s))
                    in if \<not> yes then Some (0, w, s)
                       else if \<not> mv_force op \<and> dst_exists \<and> \<not> owner_writable (st_mode (the dst_st))
                       then Some (1, w, complain (bytes ''custom_mv: cannot overwrite '' @ quoted dst
                                                    @ bytes '': Permission denied'' @ [10]) s)
                       else move_file (move_path fuel n px op) n px op src dst src_st (w, s))))"

definition mv_option :: "u8 \<times> u8 list \<Rightarrow> mvopt \<Rightarrow> mvopt" where
  "mv_option p op =
     (if fst p = 118 then op\<lparr>mv_verbose := True\<rparr>
      else if fst p = 102 then op\<lparr>mv_force := True, mv_interactive := False\<rparr>
      else if fst p = 110 then op\<lparr>mv_noclobber := True\<rparr>
      else if fst p = 105 then op\<lparr>mv_interactive := True, mv_force := False\<rparr>
      else op\<lparr>mv_update := True\<rparr>)"

fun mv_sources :: "nat \<Rightarrow> nat \<Rightarrow> 'w posix \<Rightarrow> mvopt \<Rightarrow> bool \<Rightarrow> path \<Rightarrow> path list \<Rightarrow> int \<Rightarrow> 'w \<times> stdst \<Rightarrow> (int \<times> 'w \<times> stdst) option" where
  "mv_sources fuel n px op dir dst [] ret ws = Some (ret, ws)"
| "mv_sources fuel n px op dir dst (a # argv) ret ws =
     (case move_path fuel n px op a (cp_target dir dst a) ws of
        None \<Rightarrow> None
      | Some (r, ws) \<Rightarrow> mv_sources fuel n px op dir dst argv (ret OR r) ws)"

definition custom_mv :: "nat \<Rightarrow> nat \<Rightarrow> 'w posix \<Rightarrow> u8 list list \<Rightarrow> 'w \<times> stdst \<Rightarrow> (int \<times> 'w \<times> stdst) option" where
  "custom_mv fuel n px argv ws =
     (case ws of (w, s) \<Rightarrow>
      case getopt (bytes ''vfniu'') [] (drop 1 argv) of (os, bad, rest) \<Rightarrow>
        if bad then Some (1, w, complain (bytes ''Usage: custom_mv [-vfniu] source... dest'' @ [10]) s)
        else if length rest < 2
        then Some (1, w, complain (bytes ''custom_mv: missing operand'' @ [10] @ bytes ''Usage: custom_mv [-vfniu] source... dest'' @ [10]) s)
        else (let op = fold mv_option os \<lparr>mv_verbose = False, mv_force = False, mv_noclobber = False, mv_update = False,
                         mv_interactive = False\<rparr>;
                  dst = last rest;
                  dst_is_dir = is_directory px dst w
              in if length rest > 2 \<and> \<not> dst_is_dir
                 then Some (1, w, complain (bytes ''custom_mv: target '' @ quoted dst @ bytes '' is not a directory'' @ [10]) s)
                 else mv_sources fuel n px op dst_is_dir dst (butlast rest) 0 (w, s)))"

section \<open>Moving loses nothing\<close>

text \<open>What a move of a file with content \<open>c\<close> may do.\<close>

definition moved_ok :: "'w fview \<Rightarrow> path \<Rightarrow> path \<Rightarrow> u8 list \<Rightarrow> 'w \<Rightarrow> int \<Rightarrow> 'w \<Rightarrow> bool" where
  "moved_ok fv src dst c w r w' \<longleftrightarrow>
     (fv w' src = Some c \<or> fv w' dst = Some c) \<and> (\<forall>q. q \<noteq> src \<longrightarrow> q \<noteq> dst \<longrightarrow> fv w' q = fv w q)
   \<and> (r = 0 \<longrightarrow> fv w' dst = Some c \<or> fv w' = fv w)"

lemma copy_file_raw_ok:
  assumes "posix_files px fv rd wr" and "src \<noteq> dst" and "fv w src = Some c" and "length c < n"
  shows "\<exists>r w' s'. copy_file_raw n px src dst st (w, s) = Some (r, w', s') \<and> moved_ok fv src dst c w r w'"
proof -
  note op = posix_filesD(1)[OF assms(1), unfolded posix_open_def]
  note un = posix_filesD(3)[OF assms(1), unfolded posix_names_def]
  obtain r1 w1 where o1: "p_open_rd px src w = (r1, w1)" by fastforce
  have f1: "fv w1 = fv w" using op o1 by (cases r1) auto
  obtain r2 w2 where o2: "p_open_wr px dst (st_mode st AND 0x1FF) w1 = (r2, w2)" by fastforce
  have f2: "\<forall>q. q \<noteq> dst \<longrightarrow> fv w2 q = fv w q" using op o2 f1 by (cases r2) auto
  have cl: "fv (p_close px fd v) = fv v" for fd v using un by simp
  show ?thesis
  proof (cases "\<exists>ifd ofd. r1 = Inr ifd \<and> r2 = Inr ofd")
    case False
    then show ?thesis using o1 o2 f1 f2 cl assms(2,3)
      by (auto simp: copy_file_raw_def moved_ok_def split: sum.splits)
  next
    case True
    then obtain ifd ofd where r: "r1 = Inr ifd" "r2 = Inr ofd" by blast
    have r1: "rd w1 ifd = Some (src, c)" using op o1 r assms(3) by fastforce
    have "readers_kept rd dst w1 w2" and w2: "wr w2 ofd = Some dst" "fv w2 dst = Some []" using op o2 r by auto
    then have "rd w2 ifd = Some (src, c)" using r1 assms(2) by (auto simp: readers_kept_def)
    from copy_loop_copies[OF posix_filesD(2)[OF assms(1)] assms(2)[symmetric] this w2 assms(4)] obtain e w3 where
      cp: "copy_loop n px ifd ofd w2 = Some (e, w3)" "only_changed fv dst w2 w3" "e = CopyDone \<longrightarrow> fv w3 dst = Some ([] @ c)"
      by blast
    let ?w4 = "p_chmod px dst (st_mode st) (p_utime px dst (st_atime st) (st_mtime st) (p_close px ofd (p_close px ifd w3)))"
    obtain u w5 where u: "p_unlink px src ?w4 = (u, w5)" by fastforce
    have f4: "fv ?w4 = fv w3" using un by simp
    have f5: "fv w5 = (if u = None then (fv w3)(src := None) else fv w3)" using un u f4 by simp
    show ?thesis using o1 o2 r cp f2 f5 u cl assms(2,3)
      by (auto simp: copy_file_raw_def moved_ok_def only_changed_def Let_def split: copy_end.splits)
  qed
qed

lemma move_file_ok:
  assumes "posix_files px fv rd wr" and "src \<noteq> dst" and "fv w src = Some c" and "length c < n"
    and "\<not> S_ISDIR (st_mode st)"
  shows "\<exists>r w' s'. move_file move n px op src dst st (w, s) = Some (r, w', s') \<and> moved_ok fv src dst c w r w'"
proof -
  note un = posix_filesD(3)[OF assms(1), unfolded posix_names_def]
  obtain e w1 where rn: "p_rename px src dst w = (e, w1)" by fastforce
  then have f1: "fv w1 = (if e = None then (fv w)(dst := fv w src, src := None) else fv w)" using un assms(2) by simp
  show ?thesis
  proof (cases e)
    case None
    then show ?thesis using rn f1 assms(2,3) by (auto simp: move_file_def moved_ok_def)
  next
    case (Some x)
    then have "fv w1 src = Some c" and w1: "fv w1 = fv w" using f1 assms(3) by simp_all
    from copy_file_raw_ok[OF assms(1,2) this(1) assms(4), of st s] obtain r w' s' where
      "copy_file_raw n px src dst st (w1, s) = Some (r, w', s')" "moved_ok fv src dst c w1 r w'" by blast
    then show ?thesis using rn Some w1 assms(2,3,5) by (auto simp: move_file_def moved_ok_def)
  qed
qed


definition mv_plain :: mvopt where
  "mv_plain = \<lparr>mv_verbose = False, mv_force = False, mv_noclobber = False, mv_update = False, mv_interactive = False\<rparr>"


end
