(* ===== verification/CustomRm.thy ===== *)
theory CustomRm
  imports CustomMv
begin

text \<open>
  The host utility \<^verbatim>\<open>custom_rm.c\<close>. \<open>fuel\<close> bounds the depth of the recursion; because a path that does not fit
  \<^verbatim>\<open>PATH_MAX\<close> is refused, the depth is bounded by what is left of that length.
\<close>

definition PATH_MAX :: nat where "PATH_MAX = 4096"

record rmopt =
  rm_recursive :: bool
  rm_force :: bool
  rm_verbose :: bool
  rm_interactive :: bool
  rm_dirs :: bool

definition ask :: "u8 list \<Rightarrow> stdst \<Rightarrow> bool \<times> stdst" where
  "ask prompt s = read_answer (complain (prompt @ [32]) s)"

definition build_path :: "path \<Rightarrow> path \<Rightarrow> path option" where
  "build_path p1 p2 = (let n = length p1 + 1 + length p2 in if n \<ge> PATH_MAX then None else Some (p1 @ 47 # p2))"

text \<open>The question about a directory.\<close>

definition dir_prompt :: "path \<Rightarrow> u8 list" where
  "dir_prompt path = take (PATH_MAX + 63) (bytes ''custom_rm: remove directory '' @ quoted path @ bytes ''?'')"

text \<open>The recursive call of \<^verbatim>\<open>rm_dir\<close> is its argument \<open>rm\<close>.\<close>

fun rm_entries ::
  "(path \<Rightarrow> 'w \<times> stdst \<Rightarrow> (int \<times> 'w \<times> stdst) option) \<Rightarrow> path \<Rightarrow> path list \<Rightarrow> int \<Rightarrow> 'w \<times> stdst \<Rightarrow> (int \<times> 'w \<times> stdst) option" where
  "rm_entries rm path [] ret ws = Some (ret, ws)"
| "rm_entries rm path (d # names) ret ws =
     (if dot_entry d then rm_entries rm path names ret ws
      else (case build_path path d of
              None \<Rightarrow> rm_entries rm path names 1
                        (fst ws, complain (bytes ''custom_rm: path too long: '' @ path @ [47] @ d @ [10]) (snd ws))
            | Some child \<Rightarrow>
                (case rm child ws of
                   None \<Rightarrow> None
                 | Some (r, ws) \<Rightarrow> rm_entries rm path names (ret OR r) ws)))"

definition rm_dir ::
  "(path \<Rightarrow> 'w \<times> stdst \<Rightarrow> (int \<times> 'w \<times> stdst) option) \<Rightarrow> 'w posix \<Rightarrow> rmopt \<Rightarrow> path \<Rightarrow> 'w \<times> stdst \<Rightarrow> (int \<times> 'w \<times> stdst) option" where
  "rm_dir rm px op path ws =
     (case p_dir px path (fst ws) of
        Inl e \<Rightarrow> if rm_force op then Some (0, ws)
                 else Some (1, fst ws, px_complain px ''custom_rm: cannot open'' path e (snd ws))
      | Inr names \<Rightarrow>
          (case rm_entries rm path names 0 ws of
             None \<Rightarrow> None
           | Some (ret, w, s) \<Rightarrow>
               if ret = 0 then
                 (let (yes, s) = (if rm_interactive op then ask (dir_prompt path) s else (True, s))
                  in if \<not> yes then Some (0, w, s)
                     else (case p_rmdir px path w of
                             (Some e, w) \<Rightarrow> if rm_force op then Some (0, w, s)
                                            else Some (1, w, px_complain px ''custom_rm: cannot remove'' path e s)
                           | (None, w) \<Rightarrow>
                               Some (ret, w, if rm_verbose op then emit (bytes ''removed directory '' @ quoted path @ [10]) s else s)))
               else Some (ret, w, s)))"

text \<open>The removal of an empty directory under \<^verbatim>\<open>-d\<close>.\<close>

definition rm_empty :: "'w posix \<Rightarrow> rmopt \<Rightarrow> path \<Rightarrow> 'w \<times> stdst \<Rightarrow> int \<times> 'w \<times> stdst" where
  "rm_empty px op path ws =
     (case ws of (w, s) \<Rightarrow>
      let (yes, s) = (if rm_interactive op then ask (dir_prompt path) s else (True, s))
      in if \<not> yes then (0, w, s)
         else (case p_rmdir px path w of
                 (Some e, w) \<Rightarrow> (1, w, px_complain px ''custom_rm: cannot remove'' path e s)
               | (None, w) \<Rightarrow> (0, w, if rm_verbose op then emit (bytes ''removed directory '' @ quoted path @ [10]) s else s)))"

text \<open>The removal of anything else.\<close>

definition rm_file :: "'w posix \<Rightarrow> rmopt \<Rightarrow> path \<Rightarrow> fstatus \<Rightarrow> 'w \<times> stdst \<Rightarrow> int \<times> 'w \<times> stdst" where
  "rm_file px op path st ws =
     (case ws of (w, s) \<Rightarrow>
      let (yes, s) =
        (if rm_interactive op
         then ask (take (PATH_MAX + 63) (bytes ''custom_rm: remove '' @ quoted path @ bytes ''?'')) s else (True, s))
      in if \<not> yes then (0, w, s)
         else (let (yes, s) =
                 (if \<not> rm_force op \<and> \<not> owner_writable (st_mode st)
                  then ask (take (PATH_MAX + 79) (bytes ''custom_rm: remove write-protected file '' @ quoted path @ bytes ''?'')) s
                  else (True, s))
               in if \<not> yes then (0, w, s)
                  else (case p_unlink px path w of
                          (Some e, w) \<Rightarrow> if rm_force op \<and> e = ENOENT then (0, w, s)
                                         else (1, w, px_complain px ''custom_rm: cannot remove'' path e s)
                        | (None, w) \<Rightarrow> (0, w, if rm_verbose op then emit (bytes ''removed '' @ quoted path @ [10]) s else s))))"

primrec rm_path :: "nat \<Rightarrow> 'w posix \<Rightarrow> rmopt \<Rightarrow> path \<Rightarrow> 'w \<times> stdst \<Rightarrow> (int \<times> 'w \<times> stdst) option" where
  "rm_path 0 px op path ws = None"
| "rm_path (Suc fuel) px op path ws =
     (case p_lstat px path (fst ws) of
        Inl e \<Rightarrow> if rm_force op \<and> e = ENOENT then Some (0, ws)
                 else Some (1, fst ws, px_complain px ''custom_rm: cannot remove'' path e (snd ws))
      | Inr st \<Rightarrow>
          if S_ISDIR (st_mode st) then
            (if \<not> rm_recursive op \<and> \<not> rm_dirs op
             then Some (1, fst ws, complain (bytes ''custom_rm: cannot remove '' @ quoted path @ bytes '': Is a directory'' @ [10]) (snd ws))
             else if rm_recursive op then rm_dir (rm_path fuel px op) px op path ws
             else Some (rm_empty px op path ws))
          else Some (rm_file px op path st ws))"

definition rm_option :: "u8 \<times> u8 list \<Rightarrow> rmopt \<Rightarrow> rmopt" where
  "rm_option p op =
     (if fst p = 114 \<or> fst p = 82 then op\<lparr>rm_recursive := True\<rparr>
      else if fst p = 102 then op\<lparr>rm_force := True, rm_interactive := False\<rparr>
      else if fst p = 118 then op\<lparr>rm_verbose := True\<rparr>
      else if fst p = 105 then op\<lparr>rm_interactive := True, rm_force := False\<rparr>
      else op\<lparr>rm_dirs := True\<rparr>)"

fun rm_operands :: "nat \<Rightarrow> 'w posix \<Rightarrow> rmopt \<Rightarrow> path list \<Rightarrow> int \<Rightarrow> 'w \<times> stdst \<Rightarrow> (int \<times> 'w \<times> stdst) option" where
  "rm_operands fuel px op [] ret ws = Some (ret, ws)"
| "rm_operands fuel px op (a # argv) ret ws =
     (case rm_path fuel px op a ws of
        None \<Rightarrow> None
      | Some (r, ws) \<Rightarrow> rm_operands fuel px op argv (ret OR r) ws)"

definition custom_rm :: "nat \<Rightarrow> 'w posix \<Rightarrow> u8 list list \<Rightarrow> 'w \<times> stdst \<Rightarrow> (int \<times> 'w \<times> stdst) option" where
  "custom_rm fuel px argv ws =
     (case getopt (bytes ''rRfvid'') [] (drop 1 argv) of (os, bad, rest) \<Rightarrow>
        if bad then Some (1, fst ws, complain (bytes ''Usage: custom_rm [-rRfvid] file...'' @ [10]) (snd ws))
        else (let op = fold rm_option os \<lparr>rm_recursive = False, rm_force = False, rm_verbose = False,
                         rm_interactive = False, rm_dirs = False\<rparr>
              in if rest = [] then
                   (if \<not> rm_force op
                    then Some (1, fst ws, complain (bytes ''custom_rm: missing operand'' @ [10]
                                                      @ bytes ''Usage: custom_rm [-rRfvid] file...'' @ [10]) (snd ws))
                    else Some (0, ws))
                 else rm_operands fuel px op rest 0 ws))"

section \<open>Removal ends and its status is right\<close>

text \<open>What is relied on: a name that was removed is gone.\<close>

definition posix_remove :: "'w posix \<Rightarrow> bool" where
  "posix_remove px \<longleftrightarrow>
     (\<forall>p w w'. p_unlink px p w = (None, w') \<longrightarrow> p_lstat px p w' = Inl ENOENT)
   \<and> (\<forall>p w w'. p_rmdir px p w = (None, w') \<longrightarrow> p_lstat px p w' = Inl ENOENT)"

lemma rm_entries_returns:
  assumes "\<And>d ws. length path + 1 + length d < PATH_MAX \<Longrightarrow> \<exists>res. rm (path @ 47 # d) ws = Some res"
  shows "\<exists>res. rm_entries rm path names ret ws = Some res"
proof (induction names arbitrary: ret ws)
  case (Cons d names)
  show ?case
  proof (cases "build_path path d")
    case None
    then show ?thesis using Cons by simp
  next
    case (Some child)
    then have "child = path @ 47 # d" "length path + 1 + length d < PATH_MAX"
      by (auto simp: build_path_def Let_def split: if_splits)
    with assms[of d ws] obtain r ws' where "rm child ws = Some (r, ws')" by auto
    then show ?thesis using Cons Some by simp
  qed
qed simp

lemma rm_path_returns: "PATH_MAX - length path < fuel \<Longrightarrow> \<exists>res. rm_path fuel px op path ws = Some res"
proof (induction fuel arbitrary: path ws)
  case (Suc fuel)
  have "\<exists>res. rm_path fuel px op (path @ 47 # d) ws = Some res" if "length path + 1 + length d < PATH_MAX" for d ws
    by (rule Suc.IH) (use that Suc.prems in simp)
  then have "\<exists>res. rm_entries (rm_path fuel px op) path names 0 ws = Some res" for names by (rule rm_entries_returns)
  note ent = this
  have "\<exists>res. rm_dir (rm_path fuel px op) px op path ws = Some res"
  proof (cases "p_dir px path (fst ws)")
    case (Inr names)
    obtain r w s where "rm_entries (rm_path fuel px op) path names 0 ws = Some (r, w, s)" using ent[of names] by auto
    then show ?thesis using Inr by (auto simp: rm_dir_def Let_def split: option.split prod.split)
  qed (simp add: rm_dir_def)
  then show ?case by (simp del: split_paired_Ex split: sum.split)
qed simp

text \<open>The only way not to remove and still succeed without \<^verbatim>\<open>-f\<close> and \<^verbatim>\<open>-i\<close>.\<close>

definition declined :: "'w posix \<Rightarrow> path \<Rightarrow> 'w \<times> stdst \<Rightarrow> 'w \<Rightarrow> bool" where
  "declined px path ws w' \<longleftrightarrow>
     (\<exists>st. p_lstat px path (fst ws) = Inr st \<and> \<not> S_ISDIR (st_mode st) \<and> \<not> owner_writable (st_mode st))
   \<and> (sin (snd ws) = [] \<or> hd (sin (snd ws)) \<notin> {121, 89}) \<and> w' = fst ws"

lemma rm_path_status:
  assumes "posix_remove px" and "\<not> rm_force op" and "\<not> rm_interactive op" and "rm_path fuel px op path ws = Some (0, w', s')"
  shows "p_lstat px path w' = Inl ENOENT \<or> declined px path ws w'"
proof (cases fuel)
  case (Suc k)
  show ?thesis using assms unfolding Suc
    by (auto simp: rm_dir_def rm_empty_def rm_file_def ask_def read_answer_def declined_def posix_remove_def Let_def
        split: sum.splits if_splits option.splits prod.splits list.splits)
qed (use assms in simp)


lemma rm_path_file:
  "p_lstat px path (fst ws) = Inr st \<Longrightarrow> \<not> S_ISDIR (st_mode st) \<Longrightarrow> 0 < fuel \<Longrightarrow> rm_path fuel px op path ws = Some (rm_file px op path st ws)"
  by (cases fuel) simp_all

definition rm_plain :: rmopt where
  "rm_plain = \<lparr>rm_recursive = True, rm_force = False, rm_verbose = False, rm_interactive = False, rm_dirs = False\<rparr>"

lemma mini_remove: "posix_remove (mini_posix xdev)"
  by (auto simp: posix_remove_def mini_posix_def mini_unlink_def mini_stat_def split: if_splits)


end
