(* ===== verification/Spec2Isabelle.thy ===== *)
theory Spec2Isabelle
  imports FsFacts PipeFacts ConsoleFacts Sched LogUse Grep ShPrint CustomWc CustomGrep CustomShell CustomRm
begin

text \<open>
  A verification development for the two programs of this repository: the xv6 kernel for RISC-V with
  added system calls, and its user programs (\<^verbatim>\<open>Project1\<close>, directories \<^verbatim>\<open>kernel\<close> and \<^verbatim>\<open>user\<close>), and a set of UNIX
  utilities with a small shell for a POSIX host (\<^verbatim>\<open>Project2\<close>, directory \<^verbatim>\<open>src\<close>).

  \<^bold>\<open>Style.\<close> Functions of the C code are HOL functions of the same name. The state is the last argument
  and is returned updated. In the kernel the result is in the option type, and \<open>None\<close> means that
  control does not come back: a \<^verbatim>\<open>panic\<close>, or a lock that is never free. The kernel state is one record
  that grows from theory to theory, in the order \<open>kernel\<close> (locks and harts), \<open>kmem\<close>, \<open>ptable\<close>, \<open>kvm\<close>,
  \<open>slocks\<close>, \<open>bio\<close>, \<open>logst\<close>, \<open>fsst\<close>, \<open>uartst\<close>, \<open>consst\<close>, \<open>pipest\<close>, \<open>filest\<close>, \<open>procst\<close>, \<open>vdst\<close>, \<open>trapst\<close>, \<open>bootst\<close>; an
  operation takes the part it needs and is polymorphic in the rest. Machine words keep their width
  and wrap. A call that may sleep is split there: \<open>f_start\<close> runs to the return or the first wait,
  \<open>f_resume\<close> continues after a wake-up, and \<open>f\<close> is the call that need not wait.

  \<^bold>\<open>The kernel.\<close>
  \<^item> \<open>Prelude\<close>, \<open>Cmem\<close> (\<^verbatim>\<open>string.c\<close>), \<open>Riscv\<close> (page-table and layout macros), \<open>ByteFields\<close>: word and byte
    level. \<^verbatim>\<open>memmove\<close> behaves as if buffered; \<^verbatim>\<open>safestrcpy\<close> always terminates its string.
  \<^item> \<open>Spinlock\<close> (\<^verbatim>\<open>spinlock.c\<close>): the locks as one hart sees them, and all harts interleaved instruction by
    instruction, with mutual exclusion as an invariant.
  \<^item> \<open>Kalloc\<close> (\<^verbatim>\<open>kalloc.c\<close>): the free list in memory; the interface \<open>page_pool\<close> for its clients.
  \<^item> \<open>ProcTable\<close>, \<open>Process\<close> (\<^verbatim>\<open>proc.c\<close>): the table, sleep and wake-up, the scheduler split at \<^verbatim>\<open>swtch\<close>, creation
    and exit. \<open>Sched\<close>: no process runs on two harts, as long as nobody sends \<^verbatim>\<open>SIGSTOP\<close>; with it, one can.
  \<^item> \<open>Vm\<close>, \<open>VmFacts\<close>, \<open>UserMem\<close>, \<open>UserCopy\<close> (\<^verbatim>\<open>vm.c\<close>): page tables in byte memory; copies to user space are read
    back as written, and a lazy page is served on its first fault.
  \<^item> \<open>Sleeplock\<close>, \<open>Bio\<close>, \<open>Log\<close> (\<^verbatim>\<open>sleeplock.c\<close>, \<^verbatim>\<open>bio.c\<close>, \<^verbatim>\<open>log.c\<close>). \<open>LogFacts\<close> and \<open>LogCrash\<close>: a commit cut off after
    any disk write is recovered to all or nothing by \<^verbatim>\<open>recover_from_log\<close>. \<open>LogUse\<close>: the admission test of
    \<^verbatim>\<open>begin_op\<close> keeps the log from overflowing; \<^verbatim>\<open>initlog\<close> does not call the recovery.
  \<^item> \<open>Fs\<close>, \<open>FsFacts\<close> (\<^verbatim>\<open>fs.c\<close>): inodes and directory entries are read back as written; path splitting.
  \<^item> \<open>Uart\<close>, \<open>Printf\<close>, \<open>Console\<close> (\<^verbatim>\<open>uart.c\<close>, \<^verbatim>\<open>printf.c\<close>, \<^verbatim>\<open>console.c\<close>). \<open>ConsoleFacts\<close>: the input ring is well formed in
    every history. \<open>Pipe\<close>, \<open>PipeFacts\<close> (\<^verbatim>\<open>pipe.c\<close>): a pipe is a queue. Both rest on the locale \<open>ring\<close> of
    \<open>Ring\<close>, interpreted at the two buffer sizes.
  \<^item> \<open>File\<close>, \<open>Sysfile\<close>, \<open>Exec\<close>, \<open>Sysproc\<close>, \<open>Virtio\<close>, \<open>Trap\<close>, \<open>Boot\<close>: open files, the system calls with the six added
    ones of \<^verbatim>\<open>sysproc_custom.c\<close>, program loading, the disk driver, traps and start-up. These are models
    without theorems of their own, apart from those they enter above. \<open>Example\<close> is a concrete state of
    the kernel at which hypotheses are shown to hold.

  \<^bold>\<open>The user programs.\<close> They run on a record of system calls, a parameter whose contract \<open>byte_io\<close> says
  that reads deliver the input in pieces of any size and writes append to the output. \<open>Ulib\<close> models the
  library, \<open>Utils\<close> the small programs, \<open>Grep\<close> the pattern matcher, which is shown to decide the language
  of its patterns. \<open>Sh\<close>, \<open>ShFacts\<close>, \<open>ShPrint\<close> model the parser of the shell: it always returns, delimits its
  words correctly and inverts the printing of command trees. Its recursion has fuel \<open>4 * len + 4\<close>, which
  is shown to be enough for every line.

  \<^bold>\<open>The host utilities.\<close> \<open>Stdio\<close> models what they use of the C library: lines, \<^verbatim>\<open>strtok\<close>, the GNU \<^verbatim>\<open>getopt\<close>.
  \<open>CustomWc\<close>, \<open>CustomText\<close>, \<open>CustomGrep\<close>, \<open>CustomShell\<close> model \<^verbatim>\<open>custom_wc\<close> and \<^verbatim>\<open>custom_head_tail\<close>, \<^verbatim>\<open>custom_cat\<close> and
  \<^verbatim>\<open>custom_echo\<close>, \<^verbatim>\<open>custom_grep\<close>, and \<^verbatim>\<open>Shell.c\<close>; files, the regular-expression library and started programs are
  parameters. \<open>Posix\<close> states what \<open>CustomCp\<close>, \<open>CustomMv\<close>, \<open>CustomRm\<close> rely on: calls may fail at any time and
  transfers may be short. A copy is complete or reported, a move loses nothing, and a removal ends
  and reports truthfully. The fuel of the copy loop is the length of the file plus one, that of the
  removal what is left of \<^verbatim>\<open>PATH_MAX\<close>, that of the shell the length of its input plus one; each is shown
  to be enough. For the recursion of \<^verbatim>\<open>custom_cp\<close>, \<^verbatim>\<open>custom_mv\<close> and \<^verbatim>\<open>custom_grep\<close> over directories no bound is
  claimed: these programs cut off a long path instead of refusing it.

  \<^bold>\<open>Simplifications.\<close> \<open>ferror\<close> gives one error text per file name. Directories are read as a whole when
  they are opened. Distinct paths are distinct files in \<open>Posix\<close>: hard links are not described. The
  diagnostics \<^verbatim>\<open>getopt\<close> prints itself and the console message of \<^verbatim>\<open>install_trans\<close> during recovery are left
  out. A null pointer printed with \<^verbatim>\<open>%s\<close> gives the text of the GNU library.

  \<^bold>\<open>Not modelled.\<close> The assembly files (\<^verbatim>\<open>entry.S\<close>, \<^verbatim>\<open>swtch.S\<close>, \<^verbatim>\<open>kernelvec.S\<close>, \<^verbatim>\<open>trampoline.S\<close>), which save and restore
  registers; the devices themselves; \<^verbatim>\<open>runcmd\<close> and the read loop of \<^verbatim>\<open>sh.c\<close>, which are made of process
  and descriptor calls; \<^verbatim>\<open>umalloc.c\<close>, \<^verbatim>\<open>init.c\<close>, \<^verbatim>\<open>zombie.c\<close>; \<^verbatim>\<open>custom_ls.c\<close>, whose output comes from library tables of users
  and time; \<^verbatim>\<open>touch.c\<close>; and the test programs.

  This theory holds the property that spans several components of the host utilities.
\<close>

section \<open>The host shell running custom_echo\<close>

lemma echo_words_spaced: "echo_words \<lparr>no_newline = n, escape_enabled = False\<rparr> True ws = spaced ws"
proof -
  have sp: "spaced (w # ws) = (if ws = [] then w else w @ 32 # spaced ws)" for w ws by (cases ws) simp_all
  have "echo_words \<lparr>no_newline = n, escape_enabled = False\<rparr> False ws = (if ws = [] then [] else 32 # spaced ws)" for ws
    by (induction ws) (simp_all add: sp)
  then show ?thesis by (cases ws) (simp_all add: sp)
qed

lemma custom_echo_words:
  assumes "ws \<noteq> []" and "at (hd ws) 0 \<noteq> 45"
  shows "custom_echo (prog # ws) s = (0, emit (spaced ws @ [10]) s)"
proof -
  obtain w xs where ws: "ws = w # xs" using assms(1) by (cases ws) auto
  have "w \<noteq> bytes ''--help''" "w \<noteq> bytes ''--version''" using assms(2) ws by (auto simp: bytes_def at_def)
  then show ?thesis using assms(2) ws echo_words_spaced[of False ws] by (simp add: custom_echo_def)
qed

lemma route_echo:
  "shell_route echo_env (bytes ''custom_echo'' # ws) s = snd (custom_echo (bytes ''./custom_echo'' # ws) s)"
  by (simp add: shell_route_def run_custom_echo_def run_custom_def echo_env_def bytes_def)

lemma spaced_set: "set (spaced ws) \<subseteq> insert 32 (\<Union> (set ` set ws))"
  by (induction ws rule: spaced.induct) auto

text \<open>
  C15. The shell, its tokeniser and \<^verbatim>\<open>custom_echo\<close> work together. When the user types \<^verbatim>\<open>custom_echo\<close> and
  some words, of which the first is not an option, on one line that fits the input buffer and the
  argument array, the words appear on the output, separated by single spaces and followed by a
  newline, between the first prompt and the next; at the end of the input the shell leaves.
\<close>

theorem shell_echo_prints:
  assumes "list_all word_ok ws" and "ws \<noteq> []" and "at (hd ws) 0 \<noteq> 45" and "length ws \<le> 126"
    and "\<forall>w\<in>set ws. 0 \<notin> set w \<and> 10 \<notin> set w"
    and "length (spaced (bytes ''custom_echo'' # ws)) < 1023"
    and "sin s = spaced (bytes ''custom_echo'' # ws) @ [10]"
  shows "shell_main (Suc (Suc fuel)) echo_env s =
    Some (s\<lparr>sin := [], sout := sout s @ banner @ PROMPT @ spaced ws @ [10] @ PROMPT @ [10]\<rparr>)"
proof -
  let ?cmd = "bytes ''custom_echo''" and ?l = "spaced (bytes ''custom_echo'' # ws)"
  have cmd: "word_ok ?cmd" "0 \<notin> set ?cmd" "10 \<notin> set ?cmd" "?cmd \<noteq> bytes ''exit''" by (simp_all add: word_ok_def bytes_def)
  have nl: "0 \<notin> set ?l" "10 \<notin> set ?l" using spaced_set[of "?cmd # ws"] assms(5) cmd by auto
  have "fgets_take 1023 (?l @ 10 # []) = ?l @ [10]" by (rule fgets_line[OF nl(2) assms(6)])
  then have get: "fgets_take (MAX_INPUT - 1) (?l @ [10]) = ?l @ [10]" by (simp add: MAX_INPUT_def)
  have cut: "cut_line (?l @ [10]) = ?l"
    unfolding cut_line_def by (subst takeWhile_append2) (use nl in \<open>auto simp del: spaced.simps\<close>)
  have "strtok_all [32, 9] ?l = ?cmd # ws" by (rule strtok_spaced) (use assms(1) cmd in simp)
  then have parse: "parse_input ?l = ?cmd # ws" using assms(4) by (simp add: parse_input_def MAX_ARGS_def)
  have ne: "?l \<noteq> []" using parse by (auto simp: parse_input_def strtok_all.simps)
  define t where "t = (emit PROMPT (emit banner s))\<lparr>sin := []\<rparr>"
  have "shell_loop (Suc (Suc fuel)) echo_env (emit banner s) = shell_loop (Suc fuel) echo_env (shell_route echo_env (?cmd # ws) t)"
    using get cut parse ne cmd(4) by (subst shell_loop.simps(2)) (simp add: assms(7) Let_def t_def del: shell_loop.simps spaced.simps)
  also have "shell_route echo_env (?cmd # ws) t = emit (spaced ws @ [10]) t"
    by (simp add: route_echo custom_echo_words[OF assms(2,3)])
  also have "shell_loop (Suc fuel) echo_env \<dots> = Some (emit [10] (emit PROMPT (emit (spaced ws @ [10]) t)))"
    by (simp add: t_def)
  finally have "shell_main (Suc (Suc fuel)) echo_env s = Some (emit [10] (emit PROMPT (emit (spaced ws @ [10]) t)))"
    by (simp only: shell_main_def)
  then show ?thesis by (simp add: t_def emit_def)
qed

theorem shell_echo_prints_witness:
  "shell_main (Suc (Suc 0)) echo_env \<lparr>sin = spaced [bytes ''custom_echo'', bytes ''hi'', bytes ''you''] @ [10], sout = [], serr = []\<rparr> =
    Some \<lparr>sin = [], sout = banner @ PROMPT @ bytes ''hi you'' @ [10] @ PROMPT @ [10], serr = []\<rparr>"
proof -
  let ?ws = "[bytes ''hi'', bytes ''you'']"
  have "list_all word_ok ?ws" "?ws \<noteq> []" "at (hd ?ws) 0 \<noteq> 45" "length ?ws \<le> 126" "\<forall>w\<in>set ?ws. 0 \<notin> set w \<and> 10 \<notin> set w"
    "length (spaced (bytes ''custom_echo'' # ?ws)) < 1023"
    by (simp_all add: word_ok_def bytes_def at_def)
  note th = shell_echo_prints[OF this, of "\<lparr>sin = spaced (bytes ''custom_echo'' # ?ws) @ [10], sout = [], serr = []\<rparr>" 0]
  have "spaced ?ws = bytes ''hi you''" by (simp add: bytes_def)
  then show ?thesis using th by (simp del: shell_loop.simps spaced.simps)
qed

end
